(* ===== verification/Prelude.thy ===== *)
theory Prelude
  imports Complex_Main "HOL-Library.Word" "HOL-Library.Multiset"
begin

text \<open>
  What the components share: the model's number types, the conversions of the Rust
  standard library the sources rely on (rounding, saturating float casts, durations),
  generic lemmas on lists, and the locale of a guarded step system, through which every
  component proves that its invariant survives any sequence of operations.

  An \<open>f64\<close> is a real number: rounding, NaN and the infinities of IEEE arithmetic are
  outside the model (where the source itself produces an infinity or a sentinel, the model
  has a constructor or a constant for it). Counters whose wrap-around is observable are
  words of the source's width; an \<open>Instant\<close> is its nanosecond count.
\<close>

section \<open>Number types\<close>

type_synonym f64 = real
type_synonym u32 = "32 word"
type_synonym u64 = "64 word"
type_synonym i64w = "64 word" \<comment> \<open>an \<open>i64\<close> as its bit pattern, read with \<open>sint\<close>\<close>
type_synonym instant = int \<comment> \<open>\<open>std::time::Instant\<close> in nanoseconds\<close>
type_synonym duration = int \<comment> \<open>\<open>std::time::Duration\<close> in nanoseconds\<close>

named_theorems inv_intros \<open>preservation of a component invariant by one operation\<close>
named_theorems tick_simps \<open>facts on snapping prices to the tick grid\<close>
named_theorems frame_simps \<open>fields an operation leaves unchanged\<close>

abbreviation i64_min :: int where "i64_min \<equiv> - (2 ^ 63)"
abbreviation i64_max :: int where "i64_max \<equiv> 2 ^ 63 - 1"
abbreviation u32_max :: int where "u32_max \<equiv> 2 ^ 32 - 1"

section \<open>Rounding and casts of the Rust standard library\<close>

text \<open>\<open>f64::round_ties_even\<close>: the nearest integer, a tie going to the even neighbour.\<close>

definition round_ties_even :: "f64 \<Rightarrow> int" where
  "round_ties_even x =
     (let f = \<lfloor>x\<rfloor>; d = x - of_int f
      in if d < 1 / 2 then f else if 1 / 2 < d then f + 1 else if even f then f else f + 1)"

text \<open>\<open>f64 as i64\<close> saturates at the ends of the range.\<close>

definition saturate_i64 :: "int \<Rightarrow> int" where
  "saturate_i64 n = (if n < i64_min then i64_min else if i64_max < n then i64_max else n)"

text \<open>\<open>Duration::from_secs_f64\<close> and \<open>Duration::as_secs_f64\<close>.\<close>

definition from_secs_f64 :: "f64 \<Rightarrow> duration" where
  "from_secs_f64 s = round_ties_even (s * 10 ^ 9)"

definition as_secs_f64 :: "duration \<Rightarrow> f64" where
  "as_secs_f64 d = of_int d / 10 ^ 9"

lemma round_ties_even_of_int [simp]: "round_ties_even (of_int n) = n"
  by (simp add: round_ties_even_def)

lemma round_ties_even_error: "\<bar>of_int (round_ties_even x) - x\<bar> \<le> 1 / 2"
  unfolding round_ties_even_def Let_def
  by (auto simp: abs_if) linarith+

lemma round_ties_even_tie: "x = of_int n + 1 / 2 \<Longrightarrow> even (round_ties_even x)"
proof -
  assume x: "x = of_int n + 1 / 2"
  then have "\<lfloor>x\<rfloor> = n" by linarith
  with x show ?thesis by (simp add: round_ties_even_def)
qed

lemma round_ties_even_mono: "x \<le> y \<Longrightarrow> round_ties_even x \<le> round_ties_even y"
proof (rule ccontr)
  assume le: "x \<le> y" and "\<not> round_ties_even x \<le> round_ties_even y"
  then have lt: "round_ties_even y + 1 \<le> round_ties_even x" by simp
  have ex: "\<bar>of_int (round_ties_even x) - x\<bar> \<le> 1 / 2"
    and ey: "\<bar>of_int (round_ties_even y) - y\<bar> \<le> 1 / 2"
    by (rule round_ties_even_error)+
  from lt have "of_int (round_ties_even y) + (1 :: real) \<le> of_int (round_ties_even x)"
    by linarith
  with le ex ey have "x = y" and "x = of_int (round_ties_even y) + 1 / 2"
    by linarith+
  with lt show False by simp
qed

lemma saturate_i64_id [simp]: "i64_min \<le> n \<Longrightarrow> n \<le> i64_max \<Longrightarrow> saturate_i64 n = n"
  by (simp add: saturate_i64_def)

lemma saturate_i64_range: "i64_min \<le> saturate_i64 n \<and> saturate_i64 n \<le> i64_max"
  by (simp add: saturate_i64_def)

lemma as_secs_nonneg [simp]: "0 \<le> as_secs_f64 d \<longleftrightarrow> 0 \<le> d"
  by (simp add: as_secs_f64_def zero_le_divide_iff)

lemma as_secs_le_iff: "as_secs_f64 d \<le> as_secs_f64 e \<longleftrightarrow> d \<le> e"
  by (simp add: as_secs_f64_def divide_le_cancel)

lemma as_secs_less_iff: "as_secs_f64 d < as_secs_f64 e \<longleftrightarrow> d < e"
  by (simp add: as_secs_f64_def divide_less_cancel)

lemma from_secs_as_secs [simp]: "from_secs_f64 (as_secs_f64 d) = d"
  by (simp add: from_secs_f64_def as_secs_f64_def)

lemma from_secs_f64_numeral [simp]: "from_secs_f64 (numeral n) = numeral n * 10 ^ 9"
proof -
  have "numeral n * 10 ^ 9 = (of_int (numeral n * 10 ^ 9) :: real)" by simp
  then show ?thesis unfolding from_secs_f64_def by (metis round_ties_even_of_int)
qed

lemma from_secs_f64_zero [simp]: "from_secs_f64 0 = 0"
  by (simp add: from_secs_f64_def round_ties_even_def)

lemma from_secs_f64_nonneg: "0 \<le> s \<Longrightarrow> 0 \<le> from_secs_f64 s"
  using round_ties_even_mono [of 0 "s * 10 ^ 9"] round_ties_even_of_int [of 0]
  by (simp add: from_secs_f64_def)

section \<open>Words\<close>

lemma unat_plus_one_below: "Suc (unat x) \<le> unat y \<Longrightarrow> unat (x + 1) = Suc (unat x)"
  for x y :: "'a :: len word"
proof -
  assume "Suc (unat x) \<le> unat y"
  moreover have "unat y < 2 ^ LENGTH('a)" by (rule unsigned_less)
  ultimately show ?thesis by (simp add: unat_word_ariths del: unsigned_less)
qed

section \<open>Lists\<close>

lemma filter_eq_takeWhile_sorted:
  "sorted xs \<Longrightarrow> (\<And>x y. x \<le> y \<Longrightarrow> P y \<Longrightarrow> P x) \<Longrightarrow> filter P xs = takeWhile P xs"
proof (induction xs)
  case Nil
  then show ?case by simp
next
  case (Cons x xs)
  show ?case
  proof (cases "P x")
    case True
    with Cons show ?thesis by simp
  next
    case False
    with Cons.prems have "\<forall>y \<in> set xs. \<not> P y" by auto
    with False show ?thesis by simp
  qed
qed

lemma filter_eq_dropWhile_sorted:
  "sorted xs \<Longrightarrow> (\<And>x y. x \<le> y \<Longrightarrow> P x \<Longrightarrow> P y) \<Longrightarrow> filter P xs = dropWhile (\<lambda>x. \<not> P x) xs"
proof (induction xs)
  case Nil
  then show ?case by simp
next
  case (Cons x xs)
  show ?case
  proof (cases "P x")
    case True
    with Cons.prems have "\<forall>y \<in> set xs. P y" by auto
    with True show ?thesis by simp
  next
    case False
    with Cons show ?thesis by simp
  qed
qed

lemma length_map_filter: "length (List.map_filter f xs) \<le> length xs"
  by (induction xs) (auto split: option.splits)

lemma set_map_filter: "set (List.map_filter f xs) = {y. \<exists>x \<in> set xs. f x = Some y}"
  by (induction xs) (auto split: option.splits)

lemma distinct_map_sort_key: "distinct (map g (sort_key f xs)) \<longleftrightarrow> distinct (map g xs)"
proof -
  have "mset (map g (sort_key f xs)) = mset (map g xs)" by simp
  then show ?thesis by (rule mset_eq_imp_distinct_iff)
qed

lemma sum_list_map_drop_take:
  "sum_list (map f (take n xs)) + sum_list (map f (drop n xs)) = (sum_list (map f xs) :: 'a :: comm_monoid_add)"
  by (metis append_take_drop_id map_append sum_list_append)

section \<open>Invariants of step systems\<close>

text \<open>
  A component is a state, events with a guard, and a step function. \<open>inv\<close> holds after any
  run all of whose events are admitted by the guard at the moment they are taken.
\<close>

fun admitted :: "('s \<Rightarrow> 'e \<Rightarrow> bool) \<Rightarrow> ('s \<Rightarrow> 'e \<Rightarrow> 's) \<Rightarrow> 's \<Rightarrow> 'e list \<Rightarrow> bool" where
  "admitted ok step s [] = True"
| "admitted ok step s (e # es) = (ok s e \<and> admitted ok step (step s e) es)"

lemma admitted_True [simp]: "admitted (\<lambda>_ _. True) step s es"
  by (induction es arbitrary: s) auto

locale step_system =
  fixes step :: "'s \<Rightarrow> 'e \<Rightarrow> 's"
    and ok :: "'s \<Rightarrow> 'e \<Rightarrow> bool"
    and inv :: "'s \<Rightarrow> bool"
  assumes step_inv: "inv s \<Longrightarrow> ok s e \<Longrightarrow> inv (step s e)"
begin

lemma run_inv: "inv s \<Longrightarrow> admitted ok step s es \<Longrightarrow> inv (foldl step s es)"
  by (induction es arbitrary: s) (auto intro: step_inv)

end

end
