(* ===== verification/Types.thy ===== *)
theory Types
  imports Prelude "HOL-Library.Product_Lexorder"
begin

text \<open>
  The data of \<^verbatim>\<open>src/src/types.rs\<close>: sides, order operations, transport outcomes, the
  lifecycle of an order slot, the events of the lossless queue and the static market
  configuration. Client and exchange order ids are \<open>i64\<close> values that are only compared or
  kept below \<open>2\<^sup>4\<^sup>8\<close>, so they are integers here.
\<close>

datatype side = Buy | Sell

definition is_ask :: "side \<Rightarrow> bool" where
  "is_ask s = (case s of Sell \<Rightarrow> True | Buy \<Rightarrow> False)"

definition as_str :: "side \<Rightarrow> string" where
  "as_str s = (case s of Buy \<Rightarrow> ''buy'' | Sell \<Rightarrow> ''sell'')"

text \<open>
  Loops over the two sides visit \<open>Buy\<close> first. With that order on sides, the pair
  (level, side) orders the slots as the nested loops of the order manager visit them.
\<close>

instantiation side :: linorder
begin

definition less_eq_side :: "side \<Rightarrow> side \<Rightarrow> bool" where
  "less_eq_side a b \<longleftrightarrow> a = Buy \<or> b = Sell"

definition less_side :: "side \<Rightarrow> side \<Rightarrow> bool" where
  "less_side a b \<longleftrightarrow> a = Buy \<and> b = Sell"

instance
proof
  fix x y z :: side
  show "(x < y) = (x \<le> y \<and> \<not> y \<le> x)"
    by (cases x; cases y) (simp_all add: less_eq_side_def less_side_def)
  show "x \<le> x" by (cases x) (simp_all add: less_eq_side_def)
  show "x \<le> y \<Longrightarrow> y \<le> z \<Longrightarrow> x \<le> z" by (auto simp: less_eq_side_def)
  show "x \<le> y \<Longrightarrow> y \<le> x \<Longrightarrow> x = y" by (auto simp: less_eq_side_def)
  show "x \<le> y \<or> y \<le> x" by (cases x) (simp_all add: less_eq_side_def)
qed

end

lemma side_order [simp]: "Buy < Sell" "\<not> Sell < Buy" "Buy \<le> s" "s \<le> Sell"
  by (simp_all add: less_side_def less_eq_side_def)

lemma ex_side: "(\<exists>s::side. P s) \<longleftrightarrow> P Buy \<or> P Sell"
  by (metis side.exhaust)

lemma all_side: "(\<forall>s::side. P s) \<longleftrightarrow> P Buy \<and> P Sell"
  by (metis side.exhaust)

datatype order_action = Create | Modify | Cancel

record batch_op =
  op_side :: side
  op_level :: nat
  op_action :: order_action
  op_price :: f64
  op_size :: f64
  op_client_order_id :: int
  op_exchange_id :: "int option"
  op_reduce_only :: bool

text \<open>The slot an operation is aimed at, in loop order.\<close>

abbreviation op_key :: "batch_op \<Rightarrow> nat \<times> side" where
  "op_key op \<equiv> (op_level op, op_side op)"

datatype tx_send_status = Ok | Rejected | NotSent | Unknown

record tx_send_result =
  tx_status :: tx_send_status
  tx_code :: int
  tx_message :: string
  tx_quota_remaining :: "int option"

definition not_sent :: "string \<Rightarrow> tx_send_result" where
  "not_sent reason =
     \<lparr>tx_status = NotSent, tx_code = -1, tx_message = reason, tx_quota_remaining = None\<rparr>"

definition unknown :: "string \<Rightarrow> tx_send_result" where
  "unknown reason =
     \<lparr>tx_status = Unknown, tx_code = -1, tx_message = reason, tx_quota_remaining = None\<rparr>"

datatype side_status = Idle | Placing | Live | Modifying | Canceling

datatype order_event =
    BindLive side nat int "int option" f64 f64
      \<comment> \<open>side, level, client id, exchange id, price, size\<close>
  | ClearLive side nat int
  | ClearAll
  | IdResolved int int
  | Fill int f64

record market_config =
  market_id :: u32
  mc_symbol :: string
  price_tick :: f64
  amount_tick :: f64
  min_base_amount :: f64
  min_quote_amount :: f64
  price_decimals :: u32
  size_decimals :: u32

end
