(* ===== verification/Util.thy ===== *)
theory Util
  imports Types
begin

text \<open>
  The numeric helpers of \<^verbatim>\<open>src/src/util.rs\<close> and what they guarantee: banker's rounding
  and the raw integer encoding, the tick grid (one locale, interpreted on each snapping
  function of the program), the position limit and the reconnect backoff.
\<close>

section \<open>Definitions\<close>

definition py_round :: "f64 \<Rightarrow> f64" where
  "py_round x = of_int (round_ties_even x)"

definition to_raw :: "f64 \<Rightarrow> f64 \<Rightarrow> int" where
  "to_raw value tick = saturate_i64 \<lfloor>py_round (value / tick)\<rfloor>"

definition floor_to_tick :: "f64 \<Rightarrow> f64 \<Rightarrow> f64" where
  "floor_to_tick price tick = of_int \<lfloor>price / tick\<rfloor> * tick"

definition ceil_to_tick :: "f64 \<Rightarrow> f64 \<Rightarrow> f64" where
  "ceil_to_tick price tick = of_int \<lceil>price / tick\<rceil> * tick"

definition price_change_bps :: "f64 \<Rightarrow> f64 \<Rightarrow> f64" where
  "price_change_bps old_price new_price =
     (if old_price \<le> 0 then 10 ^ 18
      else \<bar>new_price - old_price\<bar> / old_price * 10000)"

definition dynamic_max_position :: "f64 \<Rightarrow> f64 \<Rightarrow> int \<Rightarrow> f64 \<Rightarrow> int \<Rightarrow> f64" where
  "dynamic_max_position mid capital leverage base_amount num_levels =
     (if capital \<le> 0 \<or> mid \<le> 0 then 0
      else let raw0 = capital * of_int leverage;
               raw = (if 0 < base_amount
                      then raw0 - 2 * of_int num_levels * base_amount * mid else raw0)
           in if raw < 0 then 0 else raw * (9 / 10))"

definition clamp :: "f64 \<Rightarrow> f64 \<Rightarrow> f64 \<Rightarrow> f64" where
  "clamp x lo hi = (if x < lo then lo else if hi < x then hi else x)"

definition RECONNECT_BACKOFF_RESET_AFTER :: duration where
  "RECONNECT_BACKOFF_RESET_AFTER = 30 * 10 ^ 9"

definition reconnect_delay_after_session :: "f64 \<Rightarrow> f64 \<Rightarrow> duration \<Rightarrow> f64" where
  "reconnect_delay_after_session current_backoff base_backoff elapsed =
     (if RECONNECT_BACKOFF_RESET_AFTER \<le> elapsed then base_backoff else current_backoff)"

definition next_reconnect_backoff :: "f64 \<Rightarrow> f64 \<Rightarrow> f64 \<Rightarrow> duration \<Rightarrow> f64" where
  "next_reconnect_backoff current_backoff base_backoff max_backoff elapsed =
     (if RECONNECT_BACKOFF_RESET_AFTER \<le> elapsed then base_backoff
      else min (current_backoff * 2) max_backoff)"

section \<open>The raw integer encoding\<close>

lemma floor_py_round [simp]: "\<lfloor>py_round x\<rfloor> = round_ties_even x"
  by (simp add: py_round_def)

lemma to_raw_range: "i64_min \<le> to_raw v t \<and> to_raw v t \<le> i64_max"
  unfolding to_raw_def by (rule saturate_i64_range)

lemma to_raw_grid: "0 < t \<Longrightarrow> to_raw (of_int k * t) t = saturate_i64 k"
  by (simp add: to_raw_def)

section \<open>Snapping to the tick grid\<close>

text \<open>
  The contract of a snapping function: its result is on the grid, less than one tick away
  from its argument, monotone, and it leaves grid points where they are.
\<close>

locale grid_snap =
  fixes snap :: "f64 \<Rightarrow> f64 \<Rightarrow> f64"
  assumes on_grid: "0 < t \<Longrightarrow> \<exists>k::int. snap p t = of_int k * t"
    and near: "0 < t \<Longrightarrow> \<bar>snap p t - p\<bar> < t"
    and mono: "0 < t \<Longrightarrow> p \<le> q \<Longrightarrow> snap p t \<le> snap q t"
    and fixed: "0 < t \<Longrightarrow> snap (of_int k * t) t = of_int k * t"
begin

lemma idem: "0 < t \<Longrightarrow> snap (snap p t) t = snap p t"
  using on_grid [of t p] fixed by auto

text \<open>A snapped price survives the wire encoding: no rounding loss on the way out.\<close>

lemma raw_exact:
  assumes t: "0 < t" and lo: "of_int i64_min * t \<le> snap p t" and hi: "snap p t \<le> of_int i64_max * t"
  shows "of_int (to_raw (snap p t) t) * t = snap p t"
proof -
  obtain k :: int where k: "snap p t = of_int k * t" using on_grid [OF t] by blast
  from k lo t have "of_int i64_min \<le> (of_int k :: real)" by (simp only: mult_le_cancel_right_pos)
  then have "i64_min \<le> k" by (simp only: of_int_le_iff)
  from k hi t have "(of_int k :: real) \<le> of_int i64_max" by (simp only: mult_le_cancel_right_pos)
  then have "k \<le> i64_max" by (simp only: of_int_le_iff)
  with \<open>i64_min \<le> k\<close> k to_raw_grid [OF t, of k] show ?thesis by simp
qed

end

lemma floor_to_tick_bounds:
  assumes "0 < t"
  shows "floor_to_tick p t \<le> p" and "p < floor_to_tick p t + t"
  using floor_divide_lower [OF assms, of p] floor_divide_upper [OF assms, of p]
  by (simp_all add: floor_to_tick_def distrib_right)

lemma ceil_to_tick_bounds:
  assumes "0 < t"
  shows "p \<le> ceil_to_tick p t" and "ceil_to_tick p t - t < p"
  using ceiling_divide_upper [OF assms, of p] ceiling_divide_lower [OF assms, of p]
  by (simp_all add: ceil_to_tick_def left_diff_distrib)

lemmas [tick_simps] = floor_to_tick_bounds(1) ceil_to_tick_bounds(1)

interpretation floor_grid: grid_snap floor_to_tick
proof
  fix t p q :: real and k :: int
  assume t: "0 < t"
  show "\<exists>k::int. floor_to_tick p t = of_int k * t" by (auto simp: floor_to_tick_def)
  show "\<bar>floor_to_tick p t - p\<bar> < t" using floor_to_tick_bounds [OF t, of p] by linarith
  show "floor_to_tick (of_int k * t) t = of_int k * t" using t by (simp add: floor_to_tick_def)
  assume "p \<le> q"
  with t have "\<lfloor>p / t\<rfloor> \<le> \<lfloor>q / t\<rfloor>" by (intro floor_mono divide_right_mono) auto
  with t show "floor_to_tick p t \<le> floor_to_tick q t" by (simp add: floor_to_tick_def)
qed

interpretation ceil_grid: grid_snap ceil_to_tick
proof
  fix t p q :: real and k :: int
  assume t: "0 < t"
  show "\<exists>k::int. ceil_to_tick p t = of_int k * t" by (auto simp: ceil_to_tick_def)
  show "\<bar>ceil_to_tick p t - p\<bar> < t" using ceil_to_tick_bounds [OF t, of p] by linarith
  show "ceil_to_tick (of_int k * t) t = of_int k * t" using t by (simp add: ceil_to_tick_def)
  assume "p \<le> q"
  with t have "\<lceil>p / t\<rceil> \<le> \<lceil>q / t\<rceil>" by (intro ceiling_mono divide_right_mono) auto
  with t show "ceil_to_tick p t \<le> ceil_to_tick q t" by (simp add: ceil_to_tick_def)
qed

section \<open>The position limit\<close>

lemma dynamic_max_position_nonneg: "0 \<le> dynamic_max_position mid capital lev base n"
  by (simp add: dynamic_max_position_def Let_def)

text \<open>
  A positive limit leaves room for the whole resting ladder: limit (before the ten percent
  haircut) plus the margin reserved for \<open>n\<close> levels on each side is exactly the
  leveraged capital.
\<close>

lemma dynamic_max_position_reserve:
  assumes "0 < dynamic_max_position mid capital lev base n" and "0 < base"
  shows "dynamic_max_position mid capital lev base n / (9 / 10) + 2 * of_int n * base * mid
         = capital * of_int lev"
  using assms by (auto simp: dynamic_max_position_def Let_def field_simps split: if_splits)

lemma clamp_range: "lo \<le> hi \<Longrightarrow> lo \<le> clamp x lo hi \<and> clamp x lo hi \<le> hi"
  by (auto simp: clamp_def)

lemma clamp_mono: "lo \<le> hi \<Longrightarrow> x \<le> y \<Longrightarrow> clamp x lo hi \<le> clamp y lo hi"
  by (auto simp: clamp_def)

section \<open>Reconnect backoff\<close>

text \<open>The value carried from one session to the next, over a list of session lengths.\<close>

fun backoff_after :: "f64 \<Rightarrow> f64 \<Rightarrow> f64 \<Rightarrow> duration list \<Rightarrow> f64" where
  "backoff_after b base mx [] = b"
| "backoff_after b base mx (e # es) = backoff_after (next_reconnect_backoff b base mx e) base mx es"

lemma next_reconnect_backoff_range:
  "0 < base \<Longrightarrow> base \<le> mx \<Longrightarrow> base \<le> b \<Longrightarrow> b \<le> mx \<Longrightarrow>
   base \<le> next_reconnect_backoff b base mx e \<and> next_reconnect_backoff b base mx e \<le> mx"
  by (simp add: next_reconnect_backoff_def)

lemma backoff_after_range:
  "0 < base \<Longrightarrow> base \<le> mx \<Longrightarrow> base \<le> b \<Longrightarrow> b \<le> mx \<Longrightarrow>
   base \<le> backoff_after b base mx es \<and> backoff_after b base mx es \<le> mx"
proof (induction es arbitrary: b)
  case Nil
  then show ?case by simp
next
  case (Cons e es)
  from next_reconnect_backoff_range [OF Cons.prems, of e] Cons.IH Cons.prems(1,2)
  show ?case by simp
qed

lemma backoff_after_short:
  "\<forall>e \<in> set es. e < RECONNECT_BACKOFF_RESET_AFTER \<Longrightarrow> 0 < b \<Longrightarrow> b \<le> mx \<Longrightarrow>
   backoff_after b base mx es = min (b * 2 ^ length es) mx"
proof (induction es arbitrary: b)
  case Nil
  then show ?case by simp
next
  case (Cons e es)
  then have step: "next_reconnect_backoff b base mx e = min (b * 2) mx"
    by (simp add: next_reconnect_backoff_def)
  have "backoff_after (min (b * 2) mx) base mx es = min (min (b * 2) mx * 2 ^ length es) mx"
    using Cons.prems by (intro Cons.IH) auto
  moreover have "min (min (b * 2) mx * 2 ^ length es) mx = min (b * 2 * 2 ^ length es) mx"
  proof (cases "b * 2 \<le> mx")
    case True
    then show ?thesis by (simp add: min_def)
  next
    case False
    have grow: "(1 :: real) \<le> 2 ^ length es" by simp
    from False Cons.prems have "mx \<le> mx * 2 ^ length es" and "mx \<le> b * 2"
      using mult_left_mono [OF grow, of mx] by simp_all
    moreover from this have "mx \<le> b * 2 * 2 ^ length es"
      using mult_mono [of mx "b * 2" 1 "2 ^ length es"] Cons.prems by simp
    ultimately show ?thesis by (simp add: min_def)
  qed
  ultimately show ?case using step by (simp add: mult.assoc)
qed

end
