(* ===== verification/Messages.thy ===== *)
theory Messages
  imports Util
begin

text \<open>
  \<^verbatim>\<open>src/src/lighter/messages.rs\<close>: the decoded exchange messages and their accessors.
  A message here is its decoded value; the decoders are in \<open>Wire\<close>. The decimal parser
  (\<open>fast_float::parse\<close>) is the parameter \<open>fp\<close>, which returns \<open>None\<close> on a parse error.
  A JSON object field is looked up in a map.
\<close>

section \<open>REST data\<close>

definition parse_f64 :: "(string \<Rightarrow> f64 option) \<Rightarrow> string \<Rightarrow> f64" where
  "parse_f64 fp s = (case fp s of None \<Rightarrow> 0 | Some x \<Rightarrow> x)"

record order_book_detail =
  obd_symbol :: string
  obd_market_id :: u32
  obd_min_base_amount :: string
  obd_min_quote_amount :: string
  supported_size_decimals :: u32
  supported_price_decimals :: u32
  obd_maker_fee :: string
  obd_status :: string

record tx_response =
  resp_code :: int
  resp_message :: string
  volume_quota_remaining :: "int option"

record remote_order =
  ro_client_order_index :: "int option"
  ro_order_index :: "int option"
  ro_is_ask :: "bool option"
  ro_price :: "string option"
  ro_remaining_base_amount :: "string option"
  ro_filled_base_amount :: "string option"
  ro_status :: "string option"

definition is_live :: "remote_order \<Rightarrow> bool" where
  "is_live o' =
     (case ro_status o' of
        None \<Rightarrow> True
      | Some s \<Rightarrow> s \<in> {''open'', ''partial_filled'', ''pending'', ''in-progress''})"

section \<open>Order book messages\<close>

type_synonym price_level = "f64 \<times> f64"

record order_book_payload =
  pl_bids :: "price_level list"
  pl_asks :: "price_level list"
  pl_offset :: "nat option"
  pl_nonce :: "int option"
  pl_begin_nonce :: "int option"

record order_book_msg =
  msg_type :: string
  obm_offset :: "nat option"
  obm_nonce :: "int option"
  obm_begin_nonce :: "int option"
  order_book :: order_book_payload

text \<open>\<open>Option::or\<close> and \<open>str::contains\<close>.\<close>

definition option_or :: "'a option \<Rightarrow> 'a option \<Rightarrow> 'a option" where
  "option_or a b = (case a of None \<Rightarrow> b | Some x \<Rightarrow> Some x)"

fun str_contains :: "string \<Rightarrow> string \<Rightarrow> bool" where
  "str_contains [] pat = (pat = [])"
| "str_contains (c # cs) pat = (take (length pat) (c # cs) = pat \<or> str_contains cs pat)"

definition is_snapshot :: "order_book_msg \<Rightarrow> bool" where
  "is_snapshot m = str_contains (msg_type m) ''subscribed''"

definition effective_offset :: "order_book_msg \<Rightarrow> nat option" where
  "effective_offset m = option_or (obm_offset m) (pl_offset (order_book m))"

definition effective_nonce :: "order_book_msg \<Rightarrow> int option" where
  "effective_nonce m = option_or (obm_nonce m) (pl_nonce (order_book m))"

definition effective_begin_nonce :: "order_book_msg \<Rightarrow> int option" where
  "effective_begin_nonce m = option_or (obm_begin_nonce m) (pl_begin_nonce (order_book m))"

section \<open>Ticker and account messages\<close>

datatype json_value = JString string | JNumber f64 | JOther

record ticker_msg =
  tk_msg_type :: string
  ticker :: "string \<rightharpoonup> json_value"

definition ticker_field :: "(string \<Rightarrow> f64 option) \<Rightarrow> ticker_msg \<Rightarrow> string \<Rightarrow> f64 option" where
  "ticker_field fp m k =
     (case ticker m k of
        None \<Rightarrow> None
      | Some (JString s) \<Rightarrow> fp s
      | Some (JNumber n) \<Rightarrow> Some n
      | Some JOther \<Rightarrow> None)"

definition ticker_best_bid :: "(string \<Rightarrow> f64 option) \<Rightarrow> ticker_msg \<Rightarrow> f64 option" where
  "ticker_best_bid fp m = option_or (ticker_field fp m ''best_bid'') (ticker_field fp m ''bid'')"

definition ticker_best_ask :: "(string \<Rightarrow> f64 option) \<Rightarrow> ticker_msg \<Rightarrow> f64 option" where
  "ticker_best_ask fp m = option_or (ticker_field fp m ''best_ask'') (ticker_field fp m ''ask'')"

record position_payload =
  pp_position :: "string option"
  pp_sign :: "int option"
  pp_avg_entry_price :: "string option"

definition signed_position :: "(string \<Rightarrow> f64 option) \<Rightarrow> position_payload \<Rightarrow> f64" where
  "signed_position fp p =
     (let mag = (case pp_position p of None \<Rightarrow> 0 | Some s \<Rightarrow> parse_f64 fp s)
      in case pp_sign p of
           Some s \<Rightarrow> if s < 0 then - \<bar>mag\<bar> else \<bar>mag\<bar>
         | None \<Rightarrow> \<bar>mag\<bar>)"

record trade_payload =
  trade_type :: "string option"
  tp_price :: "string option"
  tp_size :: "string option"
  usd_amount :: "string option"
  is_maker_ask :: "bool option"
  ask_id :: "int option"
  bid_id :: "int option"
  ask_client_id :: "int option"
  bid_client_id :: "int option"
  ask_account_id :: "int option"
  bid_account_id :: "int option"
  ask_account_pnl :: "string option"
  bid_account_pnl :: "string option"
  tp_maker_fee :: "json_value option"
  tp_taker_fee :: "json_value option"
  timestamp :: "int option"
  transaction_time :: "int option"
  trade_id :: "int option"

definition parse_opt_f64 :: "(string \<Rightarrow> f64 option) \<Rightarrow> string option \<Rightarrow> f64 option" where
  "parse_opt_f64 fp v = (case v of None \<Rightarrow> None | Some s \<Rightarrow> fp s)"

text \<open>Division of \<open>i64\<close> by a positive constant truncates towards zero.\<close>

definition trunc_div :: "int \<Rightarrow> int \<Rightarrow> int" where
  "trunc_div a b = sgn a * (\<bar>a\<bar> div b)"

definition normalize_timestamp_ms :: "int \<Rightarrow> int" where
  "normalize_timestamp_ms ts =
     (let a = \<bar>ts\<bar>
      in if 10000000000000000 < a then trunc_div ts 1000000
         else if 10000000000000 < a then trunc_div ts 1000
         else if a < 10000000000 then ts * 1000
         else ts)"

definition event_time_ms :: "trade_payload \<Rightarrow> int option" where
  "event_time_ms t = map_option normalize_timestamp_ms (option_or (transaction_time t) (timestamp t))"

text \<open>The account channels; objects keyed by market id are association lists in iteration order.\<close>

record account_orders_msg =
  ao_msg_type :: string
  ao_orders :: "(string \<times> remote_order list) list"

record account_all_msg =
  aa_msg_type :: string
  aa_positions :: "(string \<times> position_payload) list"
  aa_trades :: "(string \<times> trade_payload list) list"

record stats_payload =
  available_balance :: "json_value option"
  stats_portfolio_value :: "json_value option"

record user_stats_msg =
  us_msg_type :: string
  us_stats :: stats_payload

definition val_f64 :: "(string \<Rightarrow> f64 option) \<Rightarrow> json_value option \<Rightarrow> f64 option" where
  "val_f64 fp v =
     (case v of
        Some (JString s) \<Rightarrow> fp s
      | Some (JNumber n) \<Rightarrow> Some n
      | _ \<Rightarrow> None)"

definition available_capital :: "(string \<Rightarrow> f64 option) \<Rightarrow> stats_payload \<Rightarrow> f64 option" where
  "available_capital fp s = val_f64 fp (available_balance s)"

definition portfolio_value :: "(string \<Rightarrow> f64 option) \<Rightarrow> stats_payload \<Rightarrow> f64 option" where
  "portfolio_value fp s = val_f64 fp (stats_portfolio_value s)"

section \<open>Lemmas\<close>

lemma option_or_simps [simp]: "option_or None b = b" "option_or (Some x) b = Some x"
  by (simp_all add: option_or_def)

lemma trunc_div_mult [simp]: "0 < b \<Longrightarrow> 0 \<le> a \<Longrightarrow> trunc_div (a * b) b = a"
  by (auto simp: trunc_div_def sgn_if)

text \<open>The magnitude of a position payload carries no sign: the sign field alone decides.\<close>

lemma signed_position_sign:
  "(pp_sign p = Some s \<and> s < 0 \<longrightarrow> signed_position fp p \<le> 0) \<and>
   (pp_sign p = None \<or> (\<exists>s \<ge> 0. pp_sign p = Some s) \<longrightarrow> 0 \<le> signed_position fp p)"
  by (auto simp: signed_position_def Let_def)

text \<open>
  C40. Trade timestamps in seconds, milliseconds, microseconds or nanoseconds of the same
  instant all normalise to the same milliseconds, for every date from 1970-04 to 2262.
\<close>

theorem timestamp_unit_agnostic:
  assumes "10000000 < s" and "s < 9223372036"
  shows "normalize_timestamp_ms s = s * 1000 \<and> normalize_timestamp_ms (s * 1000) = s * 1000 \<and>
    normalize_timestamp_ms (s * 1000000) = s * 1000 \<and> normalize_timestamp_ms (s * 1000000000) = s * 1000"
proof -
  have "trunc_div (s * 1000 * 1000) 1000 = s * 1000" "trunc_div (s * 1000 * 1000000) 1000000 = s * 1000"
    using assms by (intro trunc_div_mult; simp)+
  then have "trunc_div (s * 1000000) 1000 = s * 1000" "trunc_div (s * 1000000000) 1000000 = s * 1000"
    by (simp_all add: mult.commute)
  with assms show ?thesis by (simp add: normalize_timestamp_ms_def Let_def abs_if)
qed

theorem timestamp_unit_agnostic_witness:
  "normalize_timestamp_ms 1700000000000000000 = 1700000000000"
  using timestamp_unit_agnostic [of 1700000000] by simp

end
