(* ===== verification/Quotes.thy ===== *)
theory Quotes
  imports Util
begin

text \<open>
  \<^verbatim>\<open>src/src/strategy/quotes.rs\<close>: the pure functions that build and transform the quote
  ladder. A level is a pair of optional prices. The ladder passes share one contract, the
  locale \<open>ladder_pass\<close>: they keep the number of levels and the suppressed sides, and never
  move a quote across the mid.
\<close>

section \<open>Definitions\<close>

type_synonym level = "f64 option \<times> f64 option"

record inventory_exit_bias =
  enabled :: bool
  min_ratio :: f64
  exit_tighten_per_ratio :: f64
  add_widen_per_ratio :: f64
  max_exit_tighten :: f64
  max_add_widen :: f64
  adverse_boost_per_bps :: f64

definition EPSILON :: f64 where
  "EPSILON = 1 / 10 ^ 9"

definition spread_factors :: "f64 \<Rightarrow> nat \<Rightarrow> f64 list" where
  "spread_factors f n = map (\<lambda>l. f ^ l) [0..<n]"

definition floor_tick :: "f64 \<Rightarrow> f64 \<Rightarrow> f64" where
  "floor_tick p tick = (if 0 < tick then of_int \<lfloor>p / tick\<rfloor> * tick else p)"

definition ceil_tick :: "f64 \<Rightarrow> f64 \<Rightarrow> f64" where
  "ceil_tick p tick = (if 0 < tick then of_int \<lceil>p / tick\<rceil> * tick else p)"

definition min_quote_depth :: "f64 \<Rightarrow> f64 \<Rightarrow> f64" where
  "min_quote_depth mid tick = (if 0 < tick then tick else max (mid * (1 / 10 ^ 6)) (1 / 10 ^ 9))"

text \<open>
  A single reducing quote at level 0. Writing \<open>levels[0]\<close> of an empty ladder panics: \<open>None\<close>.
\<close>

definition fallback_reduce_only :: "f64 \<Rightarrow> f64 \<Rightarrow> f64 \<Rightarrow> f64 \<Rightarrow> nat \<Rightarrow> level list option" where
  "fallback_reduce_only mid position tick fallback_bps num_levels =
     (let none = replicate num_levels (None, None)
      in if \<bar>position\<bar> < EPSILON \<or> mid \<le> 0 then Some none
         else if num_levels = 0 then None
         else let min_depth = min_quote_depth mid tick;
                  bps = max fallback_bps 1;
                  depth = max (mid * bps / 10000) min_depth
              in if 0 < position
                 then let ask = ceil_tick (mid + depth) tick;
                          ask' = (if ask \<le> mid then mid + min_depth else ask)
                      in Some (none[0 := (None, Some ask')])
                 else let bid = floor_tick (mid - depth) tick;
                          bid' = (if mid \<le> bid then mid - min_depth else bid)
                      in Some (none[0 := (Some bid', None)]))"

definition ladder_level :: "f64 \<Rightarrow> f64 \<Rightarrow> f64 list \<Rightarrow> f64 option \<Rightarrow> f64 option \<Rightarrow> nat \<Rightarrow> level" where
  "ladder_level mid tick factors bid_depth ask_depth lvl =
     (let factor = (if lvl < length factors then factors ! lvl else 1)
      in (map_option (\<lambda>d. floor_tick (mid - d * factor) tick) bid_depth,
          map_option (\<lambda>d. ceil_tick (mid + d * factor) tick) ask_depth))"

definition build_quote_levels ::
  "(f64 \<times> f64) option \<Rightarrow> f64 \<Rightarrow> f64 \<Rightarrow> f64 \<Rightarrow> f64 \<Rightarrow> nat \<Rightarrow> f64 list \<Rightarrow> f64 \<Rightarrow> level list option" where
  "build_quote_levels l0 mid position max_pos_usd tick num_levels factors fallback_bps =
     (let withheld = (if EPSILON \<le> \<bar>position\<bar>
                      then fallback_reduce_only mid position tick fallback_bps num_levels
                      else Some (replicate num_levels (None, None)))
      in case l0 of
           None \<Rightarrow> withheld
         | Some (b, a) \<Rightarrow>
             if max_pos_usd \<le> 0 then withheld
             else let at_limit = (max_pos_usd \<le> \<bar>position\<bar> * mid);
                      buy_0 = (if at_limit \<and> 0 < position then None else Some b);
                      sell_0 = (if at_limit \<and> \<not> 0 < position \<and> position < 0 then None else Some a)
                  in if at_limit \<and> buy_0 = None \<and> sell_0 = None
                     then fallback_reduce_only mid position tick fallback_bps num_levels
                     else let bid_depth = map_option (\<lambda>b. mid - b) buy_0;
                              ask_depth = map_option (\<lambda>a. a - mid) sell_0
                          in Some ((buy_0, sell_0) #
                                   map (ladder_level mid tick factors bid_depth ask_depth) [1..<num_levels]))"

definition widen_level :: "f64 \<Rightarrow> f64 \<Rightarrow> f64 \<Rightarrow> level \<Rightarrow> level" where
  "widen_level mid multiplier tick l =
     (map_option (\<lambda>b. floor_tick (mid - max (mid - b) 0 * multiplier) tick) (fst l),
      map_option (\<lambda>a. ceil_tick (mid + max (a - mid) 0 * multiplier) tick) (snd l))"

definition apply_quality_spread_multiplier :: "level list \<Rightarrow> f64 \<Rightarrow> f64 \<Rightarrow> f64 \<Rightarrow> level list" where
  "apply_quality_spread_multiplier ls mid multiplier tick =
     (if multiplier \<le> 10001 / 10000 \<or> mid \<le> 0 then ls else map (widen_level mid multiplier tick) ls)"

text \<open>The loop body of the exit bias on each side of a level.\<close>

definition bias_bid :: "f64 \<Rightarrow> f64 \<Rightarrow> f64 \<Rightarrow> f64 \<Rightarrow> f64 \<Rightarrow> f64 \<Rightarrow> f64" where
  "bias_bid mid position exit_tighten add_widen tick b =
     (let min_depth = min_quote_depth mid tick;
          depth = max (mid - b) min_depth;
          depth' = (if position < 0 then depth * max (1 - exit_tighten) (5 / 100)
                    else depth * (1 + add_widen));
          nb = floor_tick (mid - depth') tick
      in if mid \<le> nb then floor_tick (mid - min_depth) tick else nb)"

definition bias_ask :: "f64 \<Rightarrow> f64 \<Rightarrow> f64 \<Rightarrow> f64 \<Rightarrow> f64 \<Rightarrow> f64 \<Rightarrow> f64" where
  "bias_ask mid position exit_tighten add_widen tick a =
     (let min_depth = min_quote_depth mid tick;
          depth = max (a - mid) min_depth;
          depth' = (if 0 < position then depth * max (1 - exit_tighten) (5 / 100)
                    else depth * (1 + add_widen));
          na = ceil_tick (mid + depth') tick
      in if na \<le> mid then ceil_tick (mid + min_depth) tick else na)"

text \<open>The tightening and widening factors; \<open>None\<close> when the bias does not apply.\<close>

definition bias_factors ::
  "f64 \<Rightarrow> f64 \<Rightarrow> f64 \<Rightarrow> f64 \<Rightarrow> f64 \<Rightarrow> inventory_exit_bias \<Rightarrow> (f64 \<times> f64) option" where
  "bias_factors mid position max_pos_usd adverse_bps adverse_threshold_bps cfg =
     (if \<not> enabled cfg \<or> mid \<le> 0 \<or> max_pos_usd \<le> 0 \<or> \<bar>position\<bar> < EPSILON then None
      else let ratio = \<bar>position\<bar> * mid / max_pos_usd
           in if ratio < min_ratio cfg then None
              else let adverse_excess = max (adverse_bps - adverse_threshold_bps) 0;
                       boost = 1 + min (adverse_excess * max (adverse_boost_per_bps cfg) 0) (1 / 2);
                       exit_tighten = min (max (exit_tighten_per_ratio cfg) 0 * ratio * boost)
                                          (max (max_exit_tighten cfg) 0);
                       add_widen = min (max (add_widen_per_ratio cfg) 0 * ratio * boost)
                                       (max (max_add_widen cfg) 0)
                   in if exit_tighten \<le> 0 \<and> add_widen \<le> 0 then None
                      else Some (exit_tighten, add_widen))"

definition apply_inventory_exit_bias ::
  "level list \<Rightarrow> f64 \<Rightarrow> f64 \<Rightarrow> f64 \<Rightarrow> f64 \<Rightarrow> f64 \<Rightarrow> inventory_exit_bias \<Rightarrow> f64 \<Rightarrow> level list" where
  "apply_inventory_exit_bias ls mid position max_pos_usd adverse_bps adverse_threshold_bps cfg tick =
     (case bias_factors mid position max_pos_usd adverse_bps adverse_threshold_bps cfg of
        None \<Rightarrow> ls
      | Some (e, w) \<Rightarrow> map (map_prod (map_option (bias_bid mid position e w tick))
                                     (map_option (bias_ask mid position e w tick))) ls)"

definition normalize_live_order_size :: "f64 \<Rightarrow> f64 \<Rightarrow> f64 \<Rightarrow> f64 \<Rightarrow> f64 \<Rightarrow> f64" where
  "normalize_live_order_size sz mid amt_tick min_base min_quote =
     (if sz \<le> 0 \<or> mid \<le> 0 then 0
      else let s1 = (if 0 < amt_tick then of_int \<lfloor>sz / amt_tick\<rfloor> * amt_tick else sz);
               s2 = (if 0 < min_base \<and> s1 + EPSILON < min_base then min_base else s1);
               s3 = (if 0 < min_quote \<and> s2 * mid + EPSILON < min_quote
                     then (if 0 < amt_tick
                           then of_int \<lceil>min_quote / mid / amt_tick\<rceil> * amt_tick
                           else min_quote / mid)
                     else s2)
           in max s3 0)"

section \<open>Snapping\<close>

lemma floor_tick_le [tick_simps]: "floor_tick p t \<le> p"
  using floor_to_tick_bounds(1) [of t p] by (simp add: floor_tick_def floor_to_tick_def)

lemma ceil_tick_ge [tick_simps]: "p \<le> ceil_tick p t"
  using ceil_to_tick_bounds(1) [of t p] by (simp add: ceil_tick_def ceil_to_tick_def)

lemma floor_tick_mono: "p \<le> q \<Longrightarrow> floor_tick p t \<le> floor_tick q t"
  using floor_grid.mono [of t p q] by (simp add: floor_tick_def floor_to_tick_def)

lemma ceil_tick_mono: "p \<le> q \<Longrightarrow> ceil_tick p t \<le> ceil_tick q t"
  using ceil_grid.mono [of t p q] by (simp add: ceil_tick_def ceil_to_tick_def)

definition on_tick :: "f64 \<Rightarrow> f64 \<Rightarrow> bool" where
  "on_tick t p \<longleftrightarrow> floor_tick p t = p \<and> ceil_tick p t = p"

lemma on_tick_grid: "0 < t \<Longrightarrow> p = of_int k * t \<Longrightarrow> on_tick t p"
  by (simp add: on_tick_def floor_tick_def ceil_tick_def)

lemma on_tick_snapped [simp]: "on_tick t (floor_tick p t)" "on_tick t (ceil_tick p t)"
  by (auto simp: on_tick_def floor_tick_def ceil_tick_def)

lemma min_quote_depth_pos: "0 < min_quote_depth mid tick"
  by (simp add: min_quote_depth_def less_max_iff_disj)

section \<open>The contract of a ladder pass\<close>

text \<open>A ladder is passive when no bid is at or above the mid and no ask at or below it.\<close>

definition passive_level :: "f64 \<Rightarrow> level \<Rightarrow> bool" where
  "passive_level mid l \<longleftrightarrow> (\<forall>b. fst l = Some b \<longrightarrow> b < mid) \<and> (\<forall>a. snd l = Some a \<longrightarrow> mid < a)"

abbreviation all_passive :: "f64 \<Rightarrow> level list \<Rightarrow> bool" where
  "all_passive mid ls \<equiv> \<forall>l \<in> set ls. passive_level mid l"

text \<open>Which sides of each level are quoted.\<close>

definition shape :: "level list \<Rightarrow> (bool \<times> bool) list" where
  "shape ls = map (\<lambda>l. (fst l \<noteq> None, snd l \<noteq> None)) ls"

lemma length_shape: "length (shape ls) = length ls"
  by (simp add: shape_def)

lemma shape_sides:
  assumes "shape ls' = shape ls"
  shows "(\<forall>l \<in> set ls'. fst l = None) \<longleftrightarrow> (\<forall>l \<in> set ls. fst l = None)"
    and "(\<forall>l \<in> set ls'. snd l = None) \<longleftrightarrow> (\<forall>l \<in> set ls. snd l = None)"
proof -
  have f: "(\<forall>l \<in> set ms. fst l = None) \<longleftrightarrow> True \<notin> fst ` set (shape ms)"
    and s: "(\<forall>l \<in> set ms. snd l = None) \<longleftrightarrow> True \<notin> snd ` set (shape ms)" for ms
    by (force simp: shape_def)+
  show "(\<forall>l \<in> set ls'. fst l = None) \<longleftrightarrow> (\<forall>l \<in> set ls. fst l = None)"
    unfolding f assms ..
  show "(\<forall>l \<in> set ls'. snd l = None) \<longleftrightarrow> (\<forall>l \<in> set ls. snd l = None)"
    unfolding s assms ..
qed

locale ladder_pass =
  fixes mid :: f64
    and pass :: "level list \<Rightarrow> level list"
  assumes keeps_shape: "shape (pass ls) = shape ls"
    and keeps_passive: "all_passive mid ls \<Longrightarrow> all_passive mid (pass ls)"
begin

lemma keeps_length: "length (pass ls) = length ls"
  using length_shape [of "pass ls"] length_shape [of ls] by (simp add: keeps_shape)

lemma keeps_no_bids: "\<forall>l \<in> set ls. fst l = None \<Longrightarrow> \<forall>l \<in> set (pass ls). fst l = None"
  using shape_sides(1) [OF keeps_shape] by blast

lemma keeps_no_asks: "\<forall>l \<in> set ls. snd l = None \<Longrightarrow> \<forall>l \<in> set (pass ls). snd l = None"
  using shape_sides(2) [OF keeps_shape] by blast

end

locale two_passes = fst_pass: ladder_pass mid pass1 + snd_pass: ladder_pass mid pass2
  for mid :: f64 and pass1 and pass2
begin

lemma composed: "ladder_pass mid (\<lambda>ls. pass2 (pass1 ls))"
proof
  fix ls
  show "shape (pass2 (pass1 ls)) = shape ls"
    by (simp add: fst_pass.keeps_shape snd_pass.keeps_shape)
  show "all_passive mid ls \<Longrightarrow> all_passive mid (pass2 (pass1 ls))"
    by (rule snd_pass.keeps_passive) (rule fst_pass.keeps_passive)
qed

end

sublocale two_passes \<subseteq> both: ladder_pass mid "\<lambda>ls. pass2 (pass1 ls)"
  by (rule composed)

lemma floor_tick_below: "0 < d \<Longrightarrow> floor_tick (p - d) t < p"
  using floor_tick_le [of "p - d" t] by linarith

lemma ceil_tick_above: "0 < d \<Longrightarrow> p < ceil_tick (p + d) t"
  using ceil_tick_ge [of "p + d" t] by linarith

lemma bias_depth_pos: "0 \<le> w \<Longrightarrow> 0 < max x (min_quote_depth mid t) * max (1 - e) (5 / 100) \<and>
    0 < max x (min_quote_depth mid t) * (1 + w)"
  using min_quote_depth_pos [of mid t] by (auto intro!: mult_pos_pos simp: less_max_iff_disj)

text \<open>In exact arithmetic the re-snapping guard of the bias never fires.\<close>

lemma bias_bid_eq:
  assumes "0 \<le> w"
  shows "bias_bid mid pos e w t b =
    floor_tick (mid - max (mid - b) (min_quote_depth mid t) *
      (if pos < 0 then max (1 - e) (5 / 100) else 1 + w)) t" (is "_ = floor_tick (mid - ?d) t")
    and "bias_bid mid pos e w t b < mid"
proof -
  have "0 < ?d" using bias_depth_pos [OF assms, of "mid - b" mid t e] by (cases "pos < 0") simp_all
  then have lt: "floor_tick (mid - ?d) t < mid" by (rule floor_tick_below)
  have "bias_bid mid pos e w t b =
      (if mid \<le> floor_tick (mid - ?d) t then floor_tick (mid - min_quote_depth mid t) t else floor_tick (mid - ?d) t)"
    unfolding bias_bid_def Let_def by (cases "pos < 0") simp_all
  with lt show eq: "bias_bid mid pos e w t b = floor_tick (mid - ?d) t" by simp
  show "bias_bid mid pos e w t b < mid" using lt unfolding eq .
qed

lemma bias_ask_eq:
  assumes "0 \<le> w"
  shows "bias_ask mid pos e w t a =
    ceil_tick (mid + max (a - mid) (min_quote_depth mid t) *
      (if 0 < pos then max (1 - e) (5 / 100) else 1 + w)) t" (is "_ = ceil_tick (mid + ?d) t")
    and "mid < bias_ask mid pos e w t a"
proof -
  have "0 < ?d" using bias_depth_pos [OF assms, of "a - mid" mid t e] by (cases "0 < pos") simp_all
  then have lt: "mid < ceil_tick (mid + ?d) t" by (rule ceil_tick_above)
  have "bias_ask mid pos e w t a =
      (if ceil_tick (mid + ?d) t \<le> mid then ceil_tick (mid + min_quote_depth mid t) t else ceil_tick (mid + ?d) t)"
    unfolding bias_ask_def Let_def by (cases "0 < pos") simp_all
  with lt show eq: "bias_ask mid pos e w t a = ceil_tick (mid + ?d) t" by simp
  show "mid < bias_ask mid pos e w t a" using lt unfolding eq .
qed

lemma bias_factors_nonneg:
  assumes "bias_factors mid pos mp ab thr cfg = Some (e, w)"
  shows "0 \<le> e" "0 \<le> w" "0 < mid"
proof -
  let ?ratio = "\<bar>pos\<bar> * mid / mp"
  let ?boost = "1 + min (max (ab - thr) 0 * max (adverse_boost_per_bps cfg) 0) (1 / 2)"
  from assms have pos: "0 < mid" "0 < mp" by (auto simp: bias_factors_def split: if_splits)
  then have "0 \<le> ?ratio" by simp
  moreover have "0 \<le> ?boost" by (simp add: min_def)
  ultimately have nn: "0 \<le> max x 0 * ?ratio * ?boost" for x
    by (intro mult_nonneg_nonneg) simp_all
  let ?e = "min (max (exit_tighten_per_ratio cfg) 0 * ?ratio * ?boost) (max (max_exit_tighten cfg) 0)"
    and ?w = "min (max (add_widen_per_ratio cfg) 0 * ?ratio * ?boost) (max (max_add_widen cfg) 0)"
  have if_Some: "(if P then None else if Q then None else if R then None else Some x) = Some y \<Longrightarrow> y = x"
    for P Q R and x y :: "f64 \<times> f64" by (simp split: if_splits)
  have "(e, w) = (?e, ?w)" using assms unfolding bias_factors_def Let_def by (rule if_Some)
  then show "0 \<le> e" "0 \<le> w" using nn by (simp_all only: prod.inject min.boundedI max.cobounded2)
  show "0 < mid" by (rule pos(1))
qed

interpretation quality: ladder_pass mid "\<lambda>ls. apply_quality_spread_multiplier ls mid mlt t"
  for mid mlt t
proof
  fix ls
  show "shape (apply_quality_spread_multiplier ls mid mlt t) = shape ls"
    by (auto simp: apply_quality_spread_multiplier_def shape_def widen_level_def)
  have "passive_level mid (widen_level mid mlt t l)" if "1 < mlt" "passive_level mid l" for l
    using that floor_tick_below [of _ mid t] ceil_tick_above [of _ mid t]
    by (auto simp: passive_level_def widen_level_def)
  then show "all_passive mid ls \<Longrightarrow> all_passive mid (apply_quality_spread_multiplier ls mid mlt t)"
    by (auto simp: apply_quality_spread_multiplier_def)
qed

interpretation bias: ladder_pass mid
  "\<lambda>ls. apply_inventory_exit_bias ls mid position max_pos_usd adverse_bps thr cfg t"
  for mid position max_pos_usd adverse_bps thr cfg t
proof
  fix ls
  let ?f = "bias_factors mid position max_pos_usd adverse_bps thr cfg"
  show "shape (apply_inventory_exit_bias ls mid position max_pos_usd adverse_bps thr cfg t) = shape ls"
    by (auto simp: apply_inventory_exit_bias_def shape_def split: option.splits)
  show "all_passive mid (apply_inventory_exit_bias ls mid position max_pos_usd adverse_bps thr cfg t)"
    if "all_passive mid ls"
  proof (cases ?f)
    case (Some f)
    then show ?thesis using bias_factors_nonneg(2) [of mid position max_pos_usd adverse_bps thr cfg "fst f" "snd f"]
      by (cases f) (auto simp: apply_inventory_exit_bias_def passive_level_def bias_bid_eq(2) bias_ask_eq(2))
  qed (use that in \<open>simp add: apply_inventory_exit_bias_def\<close>)
qed

text \<open>The two passes as the trading loop composes them.\<close>

interpretation quality_bias: two_passes mid "\<lambda>ls. apply_quality_spread_multiplier ls mid mlt t"
  "\<lambda>ls. apply_inventory_exit_bias ls mid position max_pos_usd adverse_bps thr cfg t"
  for mid mlt t position max_pos_usd adverse_bps thr cfg
  by unfold_locales

section \<open>The ladder\<close>

lemma fallback_levels:
  assumes "fallback_reduce_only mid pos t bps n = Some ls"
  shows "length ls = n" "all_passive mid ls" "0 \<le> pos \<Longrightarrow> \<forall>l \<in> set ls. fst l = None"
    "pos \<le> 0 \<Longrightarrow> \<forall>l \<in> set ls. snd l = None"
proof -
  let ?d = "max (mid * max bps 1 / 10000) (min_quote_depth mid t)"
  have d: "0 < ?d" using min_quote_depth_pos [of mid t] by (simp add: less_max_iff_disj)
  note sn = floor_tick_below [OF d, of mid t] ceil_tick_above [OF d, of mid t]
  have "\<exists>v. (ls = replicate n (None, None) \<or> ls = (replicate n (None, None))[0 := v]) \<and> passive_level mid v \<and>
        (0 \<le> pos \<longrightarrow> fst v = None) \<and> (pos \<le> 0 \<longrightarrow> snd v = None)"
  proof (cases "\<bar>pos\<bar> < EPSILON \<or> mid \<le> 0")
    case True
    with assms have "ls = replicate n (None, None)" by (auto simp: fallback_reduce_only_def Let_def)
    then show ?thesis by (intro exI [of _ "(None, None)"]) (simp add: passive_level_def)
  next
    case False
    then have nz: "pos \<noteq> 0" by (auto simp: EPSILON_def)
    show ?thesis
    proof (cases "0 < pos")
      case True
      with assms False sn have "ls = (replicate n (None, None))[0 := (None, Some (ceil_tick (mid + ?d) t))]"
        by (auto simp: fallback_reduce_only_def Let_def split: if_splits)
      then show ?thesis using True sn
        by (intro exI [of _ "(None, Some (ceil_tick (mid + ?d) t))"]) (simp add: passive_level_def)
    next
      case neg: False
      with assms False sn have "ls = (replicate n (None, None))[0 := (Some (floor_tick (mid - ?d) t), None)]"
        by (auto simp: fallback_reduce_only_def Let_def split: if_splits)
      then show ?thesis using neg nz sn
        by (intro exI [of _ "(Some (floor_tick (mid - ?d) t), None)"]) (simp add: passive_level_def)
    qed
  qed
  then obtain v where ls: "ls = replicate n (None, None) \<or> ls = (replicate n (None, None))[0 := v]"
    and v: "passive_level mid v" "0 \<le> pos \<longrightarrow> fst v = None" "pos \<le> 0 \<longrightarrow> snd v = None" by blast
  have "set (replicate n (None, None)) \<subseteq> {(None, None)}" by (simp add: set_replicate_conv_if)
  with ls have "set ls \<subseteq> {v, (None, None)}"
    using set_update_subset_insert [of "replicate n (None, None)" 0 v] by blast
  moreover have "passive_level mid (None, None)" by (simp add: passive_level_def)
  ultimately have all: "\<forall>l \<in> set ls. passive_level mid l \<and> (0 \<le> pos \<longrightarrow> fst l = None) \<and> (pos \<le> 0 \<longrightarrow> snd l = None)"
    using v by auto
  then show "all_passive mid ls" "0 \<le> pos \<Longrightarrow> \<forall>l \<in> set ls. fst l = None"
    "pos \<le> 0 \<Longrightarrow> \<forall>l \<in> set ls. snd l = None"
    by blast+
  show "length ls = n" using assms by (auto simp: fallback_reduce_only_def Let_def split: if_splits)
qed

lemma fallback_total: "0 < n \<Longrightarrow> \<exists>ls. fallback_reduce_only mid pos t bps n = Some ls"
  by (auto simp: fallback_reduce_only_def Let_def)

definition withheld_levels :: "f64 \<Rightarrow> f64 \<Rightarrow> f64 \<Rightarrow> f64 \<Rightarrow> nat \<Rightarrow> level list option" where
  "withheld_levels mid position tick bps n =
     (if EPSILON \<le> \<bar>position\<bar> then fallback_reduce_only mid position tick bps n
      else Some (replicate n (None, None)))"

lemma withheld_levels_spec:
  assumes "withheld_levels mid pos t bps n = Some ls"
  shows "length ls = n" "all_passive mid ls" "0 \<le> pos \<Longrightarrow> \<forall>l \<in> set ls. fst l = None"
    "pos \<le> 0 \<Longrightarrow> \<forall>l \<in> set ls. snd l = None"
  using assms fallback_levels [of mid pos t bps n ls]
  by (auto simp: withheld_levels_def passive_level_def split: if_splits)

text \<open>The ladder either withholds quotes or extends level 0 outwards.\<close>

definition limited :: "f64 \<Rightarrow> f64 \<Rightarrow> f64 \<Rightarrow> f64 \<Rightarrow> f64 \<Rightarrow> level" where
  "limited b a mid position max_pos_usd =
     (if max_pos_usd \<le> \<bar>position\<bar> * mid \<and> 0 < position then None else Some b,
      if max_pos_usd \<le> \<bar>position\<bar> * mid \<and> position < 0 then None else Some a)"

lemma build_quote_levels_cases:
  "build_quote_levels l0 mid pos mp t n fs bps =
   (case l0 of
      None \<Rightarrow> withheld_levels mid pos t bps n
    | Some (b, a) \<Rightarrow>
        if mp \<le> 0 then withheld_levels mid pos t bps n
        else let l = limited b a mid pos mp
             in Some (l # map (ladder_level mid t fs (map_option (\<lambda>b. mid - b) (fst l))
                                (map_option (\<lambda>a. a - mid) (snd l))) [1..<n]))"
  by (auto simp: build_quote_levels_def withheld_levels_def limited_def Let_def split: option.splits)

text \<open>
  C32. The hard position limit: once the position's value reaches the limit (or the limit is
  zero), no level quotes the side that would add to it, through the ladder, the quality
  multiplier and the exit bias.
\<close>

theorem position_limit_suppresses_adding_side:
  assumes "build_quote_levels l0 mid pos mp t n fs bps = Some ls" and "mp \<le> \<bar>pos\<bar> * mid"
    and "ls' = apply_inventory_exit_bias (apply_quality_spread_multiplier ls mid mlt t)
                 mid pos mp adv thr cfg t"
  shows "(0 < pos \<longrightarrow> (\<forall>l \<in> set ls'. fst l = None)) \<and> (pos < 0 \<longrightarrow> (\<forall>l \<in> set ls'. snd l = None))"
proof -
  have bids: "\<forall>l \<in> set ls. fst l = None" if "0 < pos"
  proof (cases "l0 = None \<or> mp \<le> 0")
    case True
    with assms(1) have "withheld_levels mid pos t bps n = Some ls"
      by (auto simp: build_quote_levels_cases split: option.splits)
    then show ?thesis using withheld_levels_spec(3) that by auto
  next
    case False
    with assms(1,2) that show ?thesis
      by (auto simp: build_quote_levels_cases limited_def ladder_level_def Let_def)
  qed
  have asks: "\<forall>l \<in> set ls. snd l = None" if "pos < 0"
  proof (cases "l0 = None \<or> mp \<le> 0")
    case True
    with assms(1) have "withheld_levels mid pos t bps n = Some ls"
      by (auto simp: build_quote_levels_cases split: option.splits)
    then show ?thesis using withheld_levels_spec(4) that by auto
  next
    case False
    with assms(1,2) that show ?thesis
      by (auto simp: build_quote_levels_cases limited_def ladder_level_def Let_def)
  qed
  show ?thesis
    using quality_bias.both.keeps_no_bids [OF bids]
      quality_bias.both.keeps_no_asks [OF asks] unfolding assms(3) by blast
qed

theorem position_limit_suppresses_adding_side_witness:
  "\<exists>ls. build_quote_levels (Some (99, 101)) 100 1 50 1 2 [1, 2] 4 = Some ls \<and> (\<forall>l \<in> set
     (apply_inventory_exit_bias (apply_quality_spread_multiplier ls 100 (3 / 2) 1) 100 1 50 0 0
        \<lparr>enabled = True, min_ratio = 0, exit_tighten_per_ratio = 1, add_widen_per_ratio = 1,
         max_exit_tighten = 1 / 2, max_add_widen = 1, adverse_boost_per_bps = 0\<rparr> 1). fst l = None)"
proof -
  have b: "build_quote_levels (Some (99, 101)) 100 1 50 1 2 [1, 2] 4 = Some [(None, Some 101), (None, Some 102)]"
    by (simp add: build_quote_levels_def ladder_level_def ceil_tick_def upt_rec)
  from position_limit_suppresses_adding_side [OF b _ refl] b show ?thesis by fastforce
qed

lemma ladder_level_passive:
  assumes "\<forall>f \<in> set fs. 0 < f" and "passive_level mid l"
  shows "passive_level mid (ladder_level mid t fs (map_option (\<lambda>b. mid - b) (fst l)) (map_option (\<lambda>a. a - mid) (snd l)) i)"
proof -
  let ?f = "if i < length fs then fs ! i else 1"
  have f: "0 < ?f" using assms(1) by simp
  have "floor_tick (mid - (mid - b) * ?f) t < mid" if "b < mid" for b
    using that f by (intro floor_tick_below mult_pos_pos) auto
  moreover have "mid < ceil_tick (mid + (a - mid) * ?f) t" if "mid < a" for a
    using that f by (intro ceil_tick_above mult_pos_pos) auto
  ultimately show ?thesis using assms(2) by (auto simp: ladder_level_def Let_def passive_level_def)
qed

lemma withheld_levels_total: "0 < n \<Longrightarrow> \<exists>ls. withheld_levels mid pos t bps n = Some ls"
  using fallback_total [of n mid pos t bps] by (auto simp: withheld_levels_def)

lemma build_quote_levels_total:
  assumes "0 < n"
  shows "\<exists>ls. build_quote_levels l0 mid pos mp t n fs bps = Some ls \<and> length ls = n \<and>
    ((\<forall>g \<in> set fs. 0 < g) \<and> (\<forall>b a. l0 = Some (b, a) \<longrightarrow> b < mid \<and> mid < a) \<longrightarrow> all_passive mid ls)"
proof (cases "l0 = None \<or> mp \<le> 0")
  case True
  obtain ls where "withheld_levels mid pos t bps n = Some ls" using withheld_levels_total [OF assms] by blast
  with True withheld_levels_spec(1,2) [OF this] show ?thesis
    by (auto simp: build_quote_levels_cases split: option.splits)
next
  case False
  then obtain b a where ba: "l0 = Some (b, a)" by auto
  let ?l = "limited b a mid pos mp"
  have eq: "build_quote_levels l0 mid pos mp t n fs bps = Some (?l #
      map (ladder_level mid t fs (map_option (\<lambda>b. mid - b) (fst ?l)) (map_option (\<lambda>a. a - mid) (snd ?l))) [1..<n])"
    using ba False by (simp add: build_quote_levels_cases Let_def)
  have "passive_level mid ?l" if "b < mid" "mid < a" using that by (auto simp: limited_def passive_level_def)
  then show ?thesis using eq assms ba ladder_level_passive [of fs mid ?l t] by auto
qed

text \<open>
  The whole quoting pipeline is total and passive: from a level-0 quote around the mid (or
  none) and positive spread factors it returns one entry per configured level, and after the
  quality multiplier and the exit bias every bid is still below and every ask above the mid.
\<close>

theorem ladder_total_and_passive:
  assumes n: "0 < n" and fs: "0 < f" and l0: "\<And>b a. l0 = Some (b, a) \<Longrightarrow> b < mid \<and> mid < a"
  shows "\<exists>ls. build_quote_levels l0 mid pos mp t n (spread_factors f n) bps = Some ls \<and>
    (let ls' = apply_inventory_exit_bias (apply_quality_spread_multiplier ls mid mlt t) mid pos mp adv thr cfg t
     in length ls' = n \<and> (\<forall>l \<in> set ls'. passive_level mid l))"
proof -
  have "\<forall>g \<in> set (spread_factors f n). 0 < g" using fs by (auto simp: spread_factors_def)
  then obtain ls where ls: "build_quote_levels l0 mid pos mp t n (spread_factors f n) bps = Some ls"
    "length ls = n" "all_passive mid ls"
    using build_quote_levels_total [OF n, of l0 mid pos mp t "spread_factors f n" bps] l0 by blast
  show ?thesis
    using ls(1,2) quality_bias.both.keeps_passive [OF ls(3)] quality_bias.both.keeps_length
    by (auto simp: Let_def)
qed

theorem ladder_total_and_passive_witness:
  "\<exists>ls. build_quote_levels (Some (99, 101)) 100 1 1000 1 2 (spread_factors 2 2) 4 = Some ls \<and>
     length (apply_inventory_exit_bias (apply_quality_spread_multiplier ls 100 (3 / 2) 1) 100 1 1000 0 0
        \<lparr>enabled = True, min_ratio = 0, exit_tighten_per_ratio = 1, add_widen_per_ratio = 1,
         max_exit_tighten = 1 / 2, max_add_widen = 1, adverse_boost_per_bps = 0\<rparr> 1) = 2"
proof -
  have h: "Some (99, 101) = Some (b, a) \<Longrightarrow> b < 100 \<and> 100 < a" for b a :: f64 by auto
  have n: "0 < (2 :: nat)" and f: "0 < (2 :: f64)" by simp_all
  from ladder_total_and_passive [OF n f h, where pos = 1 and mp = 1000 and t = 1 and bps = 4
      and mlt = "3 / 2" and adv = 0 and thr = 0]
  show ?thesis unfolding Let_def by blast
qed

text \<open>
  The exit bias leans towards flat: for quotes on the grid at least one tick from the
  mid, the side that reduces the position never moves away from the mid and the side that
  adds to it never moves closer.
\<close>

theorem exit_bias_direction:
  assumes f: "bias_factors mid pos mp adv thr cfg = Some (e, w)" and t: "0 < t"
    and b: "on_tick t b" "b \<le> mid - t" and a: "on_tick t a" "mid + t \<le> a"
  shows "(pos < 0 \<longrightarrow> b \<le> bias_bid mid pos e w t b \<and> a \<le> bias_ask mid pos e w t a) \<and>
         (0 < pos \<longrightarrow> bias_bid mid pos e w t b \<le> b \<and> bias_ask mid pos e w t a \<le> a)"
proof -
  have e: "0 \<le> e" and w: "0 \<le> w" using bias_factors_nonneg [OF f] by simp_all
  have d: "max (mid - b) (min_quote_depth mid t) = mid - b" "max (a - mid) (min_quote_depth mid t) = a - mid"
    using b a t by (simp_all add: min_quote_depth_def)
  have db: "0 \<le> mid - b" and da: "0 \<le> a - mid" using b a t by simp_all
  have m: "max (1 - e) (5 / 100) \<le> 1" using e by simp
  note narrow = mult_left_mono [OF m db] mult_left_mono [OF m da]
  have "1 \<le> 1 + w" using w by simp
  note wide = mult_left_mono [OF this db] mult_left_mono [OF this da]
  have "floor_tick b t \<le> floor_tick (mid - (mid - b) * max (1 - e) (5 / 100)) t"
    "ceil_tick (mid + (a - mid) * max (1 - e) (5 / 100)) t \<le> ceil_tick a t"
    using narrow by (intro floor_tick_mono ceil_tick_mono; simp)+
  moreover have "floor_tick (mid - (mid - b) * (1 + w)) t \<le> floor_tick b t"
    "ceil_tick a t \<le> ceil_tick (mid + (a - mid) * (1 + w)) t"
    using wide by (intro floor_tick_mono ceil_tick_mono; simp)+
  ultimately show ?thesis
    using b(1) a(1) by (simp add: bias_bid_eq(1) [OF w] bias_ask_eq(1) [OF w] d on_tick_def)
qed

theorem exit_bias_direction_witness:
  "\<exists>e w. bias_factors 100 1 1000 0 0 \<lparr>enabled = True, min_ratio = 0, exit_tighten_per_ratio = 1,
      add_widen_per_ratio = 1, max_exit_tighten = 1 / 2, max_add_widen = 1, adverse_boost_per_bps = 0\<rparr>
      = Some (e, w) \<and> bias_ask 100 1 e w 1 110 \<le> 110"
proof -
  let ?cfg = "\<lparr>enabled = True, min_ratio = 0, exit_tighten_per_ratio = 1, add_widen_per_ratio = 1,
      max_exit_tighten = 1 / 2, max_add_widen = 1, adverse_boost_per_bps = 0\<rparr>"
  have f: "bias_factors 100 1 1000 0 0 ?cfg = Some (1 / 10, 1 / 10)"
    by (simp add: bias_factors_def EPSILON_def Let_def)
  have g: "on_tick 1 90" "on_tick 1 110"
    using on_tick_grid [of 1 90 90] on_tick_grid [of 1 110 110] by simp_all
  have "bias_ask 100 1 (1 / 10) (1 / 10) 1 110 \<le> 110"
    using exit_bias_direction [OF f _ g(1) _ g(2)] by simp
  with f show ?thesis by blast
qed

text \<open>
  A positive size normalised for the exchange meets both minimums up to the tolerance of
  the comparison, and is only ever raised to meet one of them: otherwise it is the requested
  size rounded down to the size step.
\<close>

theorem normalized_size_meets_minimums:
  assumes "0 < sz" "0 < mid" and r: "r = normalize_live_order_size sz mid lot mb mq"
  shows "mb \<le> r + EPSILON \<and> mq \<le> r * mid + EPSILON \<and>
    (r \<le> sz \<or> r = mb \<or> (mq \<le> r * mid \<and> r < mq / mid + max lot EPSILON))"
proof -
  define s1 where "s1 = (if 0 < lot then of_int \<lfloor>sz / lot\<rfloor> * lot else sz)"
  define s2 where "s2 = (if 0 < mb \<and> s1 + EPSILON < mb then mb else s1)"
  define up where "up = (if 0 < lot then of_int \<lceil>mq / mid / lot\<rceil> * lot else mq / mid)"
  have eps: "0 < EPSILON" by (simp add: EPSILON_def)
  have s1: "0 \<le> s1" "s1 \<le> sz"
    using floor_to_tick_bounds(1) [of lot sz] assms(1) by (auto simp: s1_def floor_to_tick_def)
  have s2: "0 \<le> s2" "mb \<le> s2 + EPSILON" "s2 = mb \<or> s2 = s1"
    using s1 eps by (auto simp: s2_def)
  have up: "mq / mid \<le> up" "up < mq / mid + max lot EPSILON"
    using ceil_to_tick_bounds [of lot "mq / mid"] eps by (auto simp: up_def ceil_to_tick_def)
  from up(1) assms(2) have up_mq: "mq \<le> up * mid" by (simp add: pos_divide_le_eq)
  have r': "r = max (if 0 < mq \<and> s2 * mid + EPSILON < mq then up else s2) 0"
  proof -
    from assms(1,2) have nz: "\<not> (sz \<le> 0 \<or> mid \<le> 0)" by simp
    show ?thesis unfolding r normalize_live_order_size_def if_not_P [OF nz] Let_def s1_def s2_def up_def ..
  qed
  show ?thesis
  proof (cases "0 < mq \<and> s2 * mid + EPSILON < mq")
    case True
    with up_mq eps have "s2 * mid < up * mid" by linarith
    then have "s2 < up" using assms(2) by simp
    with True s2 up up_mq eps show ?thesis by (auto simp: r')
  next
    case False
    then have "mq \<le> s2 * mid + EPSILON" using s2(1) assms(2) eps
      by (meson add_nonneg_nonneg less_eq_real_def linorder_not_less mult_nonneg_nonneg order_trans)
    then show ?thesis unfolding r' if_not_P [OF False] using s1 s2 by (auto simp: max_absorb1)
  qed
qed

theorem normalized_size_meets_minimums_witness:
  "normalize_live_order_size 1 100 1 2 500 = 5 \<and> (500 :: f64) \<le> 5 * 100 + EPSILON"
proof -
  have r: "5 = normalize_live_order_size 1 100 1 2 500"
    by (simp add: normalize_live_order_size_def EPSILON_def)
  from normalized_size_meets_minimums [OF _ _ r] r show ?thesis by simp
qed

end
