(* ===== verification/Order_Manager.thy ===== *)
theory Order_Manager
  imports Messages Quotes "HOL-Library.AList"
begin

text \<open>
  \<^verbatim>\<open>src/src/exec/order_manager.rs\<close>: the order slots (one per side and level), the map from
  client to exchange ids, the collection of order operations and the reconcile processing.
  The manager is owned by one task, so every method is a state transformer. A clock reading is
  an argument (\<open>now\<close>, one per call); an out-of-range level panics in the source and is \<open>None\<close>
  here. The \<open>HashMap\<close> is an association list with distinct keys: the code only looks keys up,
  or rebuilds the map from entries selected by key. \<open>bids\<close> and \<open>asks\<close> have \<open>num_levels\<close>
  entries from construction on, so a loop over the levels is a map over the two lists.
\<close>

section \<open>State\<close>

definition MAX_CLIENT_ORDER_INDEX :: int where
  "MAX_CLIENT_ORDER_INDEX = 281474976710655"

definition ID_MAP_CAP :: nat where
  "ID_MAP_CAP = 200"

definition MISSING_RECONCILE_DEBOUNCE :: nat where
  "MISSING_RECONCILE_DEBOUNCE = 2"

definition RECONCILE_GRACE :: duration where
  "RECONCILE_GRACE = 5 * 10 ^ 9"

record order_slot =
  status :: side_status
  order_id :: "int option"
  slot_price :: "f64 option"
  slot_size :: "f64 option"
  updated_at :: instant
  miss :: nat

definition idle_slot :: "instant \<Rightarrow> order_slot" where
  "idle_slot now = \<lparr>status = Idle, order_id = None, slot_price = None, slot_size = None,
                    updated_at = now, miss = 0\<rparr>"

record order_manager =
  num_levels :: nat
  om_amount_tick :: f64
  om_bids :: "order_slot list"
  om_asks :: "order_slot list"
  client_to_exchange :: "(int \<times> int) list"
  last_client_order_index :: int

definition manager_new :: "instant \<Rightarrow> nat \<Rightarrow> f64 \<Rightarrow> order_manager" where
  "manager_new now n tick =
     \<lparr>num_levels = n, om_amount_tick = tick, om_bids = replicate n (idle_slot now),
      om_asks = replicate n (idle_slot now), client_to_exchange = [], last_client_order_index = 0\<rparr>"

definition side_slots :: "order_manager \<Rightarrow> side \<Rightarrow> order_slot list" where
  "side_slots m s = (case s of Buy \<Rightarrow> om_bids m | Sell \<Rightarrow> om_asks m)"

definition slot :: "order_manager \<Rightarrow> side \<Rightarrow> nat \<Rightarrow> order_slot" where
  "slot m s lvl = side_slots m s ! lvl"

definition slot_mut :: "order_manager \<Rightarrow> side \<Rightarrow> nat \<Rightarrow> (order_slot \<Rightarrow> order_slot) \<Rightarrow> order_manager" where
  "slot_mut m s lvl f =
     (case s of Buy \<Rightarrow> m\<lparr>om_bids := (om_bids m)[lvl := f (om_bids m ! lvl)]\<rparr>
              | Sell \<Rightarrow> m\<lparr>om_asks := (om_asks m)[lvl := f (om_asks m ! lvl)]\<rparr>)"

definition next_client_order_index :: "order_manager \<Rightarrow> int \<Rightarrow> int \<times> order_manager" where
  "next_client_order_index m now_ns =
     (let id0 = now_ns mod MAX_CLIENT_ORDER_INDEX;
          id1 = (if id0 \<le> last_client_order_index m
                 then (last_client_order_index m + 1) mod (MAX_CLIENT_ORDER_INDEX + 1) else id0);
          id2 = (if id1 = 0 then 1 else id1)
      in (id2, m\<lparr>last_client_order_index := id2\<rparr>))"

definition resolve_exchange_id :: "order_manager \<Rightarrow> int \<Rightarrow> int option" where
  "resolve_exchange_id m cid = map_of (client_to_exchange m) cid"

definition size_change_requires_update :: "order_manager \<Rightarrow> f64 option \<Rightarrow> f64 \<Rightarrow> bool" where
  "size_change_requires_update m existing new =
     (case existing of
        None \<Rightarrow> True
      | Some e \<Rightarrow> let tol = (if 0 < om_amount_tick m then om_amount_tick m else EPSILON)
                  in max tol EPSILON \<le> \<bar>e - new\<bar>)"

definition is_reducing_side :: "side \<Rightarrow> f64 \<Rightarrow> bool" where
  "is_reducing_side s position \<longleftrightarrow>
     (EPSILON < position \<and> s = Sell) \<or> (position < - EPSILON \<and> s = Buy)"

section \<open>Collecting operations\<close>

definition cancel_op :: "side \<Rightarrow> nat \<Rightarrow> int \<Rightarrow> int \<Rightarrow> batch_op" where
  "cancel_op s lvl cid eid =
     \<lparr>op_side = s, op_level = lvl, op_action = Cancel, op_price = 0, op_size = 0,
      op_client_order_id = cid, op_exchange_id = Some eid, op_reduce_only = False\<rparr>"

text \<open>The arguments of \<open>collect_order_operations\<close> that stay fixed during the loop.\<close>

record collect_args =
  base_amount :: f64
  ca_position :: f64
  threshold_bps :: f64
  now_ns :: int
  hold_mutations :: bool

text \<open>One iteration of the inner loop: the operation for one slot, if any.\<close>

definition collect_slot ::
  "collect_args \<Rightarrow> order_manager \<Rightarrow> nat \<Rightarrow> side \<Rightarrow> f64 option \<Rightarrow> batch_op list \<times> order_manager" where
  "collect_slot a m lvl s new_price =
     (let new_size = base_amount a;
          ro = is_reducing_side s (ca_position a);
          sl = slot m s lvl
      in case new_price of
        None \<Rightarrow>
          if hold_mutations a then ([], m)
          else (case order_id sl of
                  None \<Rightarrow> ([], m)
                | Some cid \<Rightarrow> (case resolve_exchange_id m cid of
                                 None \<Rightarrow> ([], m)
                               | Some eid \<Rightarrow> ([cancel_op s lvl cid eid], m)))
      | Some p \<Rightarrow>
          if new_size \<le> 0 \<or> p \<le> 0 then ([], m)
          else (case order_id sl of
            Some cid \<Rightarrow>
              if hold_mutations a then ([], m)
              else (case resolve_exchange_id m cid of
                None \<Rightarrow> ([], m)
              | Some eid \<Rightarrow>
                  let change = price_change_bps (case slot_price sl of None \<Rightarrow> 0 | Some q \<Rightarrow> q) p;
                      size_changed = size_change_requires_update m (slot_size sl) new_size;
                      needs = (slot_price sl = None \<or> threshold_bps a < change \<or> size_changed)
                  in if \<not> needs then ([], m)
                     else ([\<lparr>op_side = s, op_level = lvl, op_action = Modify, op_price = p,
                             op_size = new_size, op_client_order_id = cid,
                             op_exchange_id = Some eid, op_reduce_only = ro\<rparr>], m))
          | None \<Rightarrow>
              let (cid, m') = next_client_order_index m (now_ns a)
              in ([\<lparr>op_side = s, op_level = lvl, op_action = Create, op_price = p,
                    op_size = new_size, op_client_order_id = cid,
                    op_exchange_id = None, op_reduce_only = ro\<rparr>], m')))"

text \<open>The loop over the levels; reading a slot beyond the ladder panics.\<close>

fun collect_levels ::
  "collect_args \<Rightarrow> order_manager \<Rightarrow> nat \<Rightarrow> level list \<Rightarrow> (batch_op list \<times> order_manager) option" where
  "collect_levels a m lvl [] = Some ([], m)"
| "collect_levels a m lvl ((buy_price, sell_price) # ls) =
     (if length (om_bids m) \<le> lvl \<or> length (om_asks m) \<le> lvl then None
      else let (ops1, m1) = collect_slot a m lvl Buy buy_price;
               (ops2, m2) = collect_slot a m1 lvl Sell sell_price
           in case collect_levels a m2 (lvl + 1) ls of
                None \<Rightarrow> None
              | Some (ops, m') \<Rightarrow> Some (ops1 @ ops2 @ ops, m'))"

definition collect_order_operations ::
  "order_manager \<Rightarrow> level list \<Rightarrow> f64 \<Rightarrow> f64 \<Rightarrow> f64 \<Rightarrow> int \<Rightarrow> bool \<Rightarrow> (batch_op list \<times> order_manager) option" where
  "collect_order_operations m level_prices base position thr now hold =
     collect_levels \<lparr>base_amount = base, ca_position = position, threshold_bps = thr,
                     now_ns = now, hold_mutations = hold\<rparr> m 0 level_prices"

section \<open>Slot mutation\<close>

definition mark_status :: "order_manager \<Rightarrow> instant \<Rightarrow> side \<Rightarrow> nat \<Rightarrow> side_status \<Rightarrow> order_manager" where
  "mark_status m now s lvl st = slot_mut m s lvl (\<lambda>x. x\<lparr>status := st, updated_at := now\<rparr>)"

definition pending_slot :: "instant \<Rightarrow> batch_op \<Rightarrow> order_slot \<Rightarrow> order_slot" where
  "pending_slot now op x =
     (let y = (case op_action op of
                 Create \<Rightarrow> x\<lparr>order_id := Some (op_client_order_id op), slot_price := Some (op_price op),
                             slot_size := Some (op_size op), status := Placing\<rparr>
               | Modify \<Rightarrow> x\<lparr>slot_price := Some (op_price op), slot_size := Some (op_size op),
                             status := Modifying\<rparr>
               | Cancel \<Rightarrow> x\<lparr>status := Canceling\<rparr>)
      in y\<lparr>updated_at := now, miss := 0\<rparr>)"

definition mark_pending :: "order_manager \<Rightarrow> instant \<Rightarrow> batch_op \<Rightarrow> order_manager option" where
  "mark_pending m now op =
     (if length (side_slots m (op_side op)) \<le> op_level op then None
      else Some (slot_mut m (op_side op) (op_level op) (pending_slot now op)))"

definition bind_live_slot :: "instant \<Rightarrow> int \<Rightarrow> f64 \<Rightarrow> f64 \<Rightarrow> order_slot \<Rightarrow> order_slot" where
  "bind_live_slot now oid price sz x =
     x\<lparr>order_id := Some oid, slot_price := Some price, slot_size := Some sz, status := Live,
       updated_at := now, miss := 0\<rparr>"

definition bind_live :: "order_manager \<Rightarrow> instant \<Rightarrow> side \<Rightarrow> nat \<Rightarrow> int \<Rightarrow> f64 \<Rightarrow> f64 \<Rightarrow> order_manager" where
  "bind_live m now s lvl oid price sz = slot_mut m s lvl (bind_live_slot now oid price sz)"

definition clear_live :: "order_manager \<Rightarrow> instant \<Rightarrow> side \<Rightarrow> nat \<Rightarrow> order_manager" where
  "clear_live m now s lvl = slot_mut m s lvl (\<lambda>_. idle_slot now)"

definition clear_all :: "order_manager \<Rightarrow> instant \<Rightarrow> order_manager" where
  "clear_all m now = m\<lparr>om_bids := map (\<lambda>_. idle_slot now) (om_bids m),
                       om_asks := map (\<lambda>_. idle_slot now) (om_asks m)\<rparr>"

text \<open>All slots in loop order.\<close>

definition slot_keys :: "order_manager \<Rightarrow> (nat \<times> side) list" where
  "slot_keys m = concat (map (\<lambda>lvl. [(lvl, Buy), (lvl, Sell)]) [0..<num_levels m])"

definition tracked_client_ids :: "order_manager \<Rightarrow> int list" where
  "tracked_client_ids m = List.map_filter order_id (om_bids m @ om_asks m)"

definition prune_id_map :: "int set \<Rightarrow> (int \<times> int) list \<Rightarrow> (int \<times> int) list" where
  "prune_id_map live m =
     (let kept = filter (\<lambda>(k, _). k \<in> live) m;
          others = sort_key fst (filter (\<lambda>(k, _). k \<notin> live) m)
      in kept @ take 100 (rev others))"

definition record_id_mapping :: "order_manager \<Rightarrow> int \<Rightarrow> int \<Rightarrow> order_manager" where
  "record_id_mapping m cid eid =
     (let c2e = AList.update cid eid (client_to_exchange m)
      in m\<lparr>client_to_exchange :=
             (if ID_MAP_CAP < length c2e then prune_id_map (set (tracked_client_ids m)) c2e else c2e)\<rparr>)"

definition apply_fill :: "order_manager \<Rightarrow> instant \<Rightarrow> int \<Rightarrow> f64 \<Rightarrow> order_manager" where
  "apply_fill m now cid filled =
     (case List.find (\<lambda>(lvl, s). order_id (slot m s lvl) = Some cid) (slot_keys m) of
        None \<Rightarrow> m
      | Some (lvl, s) \<Rightarrow>
          let tol = max (om_amount_tick m) EPSILON
          in case map_option (\<lambda>sz. sz - filled) (slot_size (slot m s lvl)) of
               None \<Rightarrow> clear_live m now s lvl
             | Some r \<Rightarrow> if tol < r
                         then slot_mut m s lvl (\<lambda>x. x\<lparr>slot_size := Some r, updated_at := now, miss := 0\<rparr>)
                         else clear_live m now s lvl)"

definition apply_event :: "order_manager \<Rightarrow> instant \<Rightarrow> order_event \<Rightarrow> order_manager option" where
  "apply_event m now evt =
     (case evt of
        BindLive s lvl cid eid price sz \<Rightarrow>
          let m1 = (case eid of None \<Rightarrow> m | Some e \<Rightarrow> record_id_mapping m cid e)
          in if length (side_slots m s) \<le> lvl then None else Some (bind_live m1 now s lvl cid price sz)
      | ClearLive s lvl cid \<Rightarrow>
          if length (side_slots m s) \<le> lvl then None
          else if cid = 0 \<or> order_id (slot m s lvl) = Some cid then Some (clear_live m now s lvl)
          else Some m
      | ClearAll \<Rightarrow> Some (clear_all m now)
      | IdResolved cid eid \<Rightarrow> Some (record_id_mapping m cid eid)
      | Fill cid filled \<Rightarrow> Some (apply_fill m now cid filled))"

section \<open>Reconcile\<close>

definition update_id_mapping_from_orders :: "order_manager \<Rightarrow> remote_order list \<Rightarrow> order_manager" where
  "update_id_mapping_from_orders m remote =
     foldl (\<lambda>m o'. case (ro_client_order_index o', ro_order_index o') of
                      (Some c, Some e) \<Rightarrow> record_id_mapping m c e
                    | _ \<Rightarrow> m) m remote"

definition live_ids :: "remote_order list \<Rightarrow> int set" where
  "live_ids remote = set (List.map_filter ro_client_order_index (filter is_live remote))"

text \<open>First loop body: count a missing order, and clear it when debounced and aged.\<close>

definition reconcile_missing :: "instant \<Rightarrow> int set \<Rightarrow> order_slot \<Rightarrow> order_slot" where
  "reconcile_missing now live x =
     (let aged = (RECONCILE_GRACE \<le> now - updated_at x)
      in case order_id x of
           None \<Rightarrow> x
         | Some i \<Rightarrow>
             if i \<in> live then x\<lparr>miss := 0\<rparr>
             else let k = miss x + 1
                  in if MISSING_RECONCILE_DEBOUNCE \<le> k \<and> aged then idle_slot now
                     else x\<lparr>miss := k\<rparr>)"

text \<open>\<open>by_client\<close>: of several rows with one client id the last wins.\<close>

definition by_client :: "remote_order list \<Rightarrow> int \<rightharpoonup> remote_order" where
  "by_client remote =
     map_of (rev (List.map_filter (\<lambda>o'. map_option (\<lambda>c. (c, o')) (ro_client_order_index o')) remote))"

text \<open>Second loop body: refresh a tracked order from its row.\<close>

definition reconcile_refresh ::
  "(string \<Rightarrow> f64 option) \<Rightarrow> instant \<Rightarrow> (int \<rightharpoonup> remote_order) \<Rightarrow> side \<Rightarrow> order_slot \<Rightarrow> order_slot" where
  "reconcile_refresh fp now rows s x =
     (case order_id x of
        None \<Rightarrow> x
      | Some cid \<Rightarrow>
          (case rows cid of
             None \<Rightarrow> x
           | Some o' \<Rightarrow>
               if (s = Buy \<and> ro_is_ask o' = Some True) \<or> (s = Sell \<and> ro_is_ask o' = Some False) then x
               else let price = option_or (map_option (parse_f64 fp) (ro_price o')) (slot_price x);
                        sz = option_or (map_option (parse_f64 fp) (ro_remaining_base_amount o')) (slot_size x)
                    in (case (price, sz) of
                          (Some p, Some z) \<Rightarrow> bind_live_slot now cid p z x
                        | _ \<Rightarrow> x\<lparr>status := Live, updated_at := now\<rparr>)))"

definition process_reconcile ::
  "(string \<Rightarrow> f64 option) \<Rightarrow> order_manager \<Rightarrow> instant \<Rightarrow> remote_order list \<Rightarrow> order_manager" where
  "process_reconcile fp m now remote =
     (let m1 = update_id_mapping_from_orders m remote;
          live = live_ids remote;
          f = reconcile_missing now live;
          m2 = m1\<lparr>om_bids := map f (om_bids m1), om_asks := map f (om_asks m1)\<rparr>;
          rows = by_client remote
      in m2\<lparr>om_bids := map (reconcile_refresh fp now rows Buy) (om_bids m2),
            om_asks := map (reconcile_refresh fp now rows Sell) (om_asks m2)\<rparr>)"

definition collect_cancel_slot :: "order_manager \<Rightarrow> nat \<times> side \<Rightarrow> batch_op list" where
  "collect_cancel_slot m k =
     (let x = slot m (snd k) (fst k)
      in if status x = Canceling then []
         else case order_id x of
                None \<Rightarrow> []
              | Some cid \<Rightarrow> (case resolve_exchange_id m cid of
                               None \<Rightarrow> []
                             | Some eid \<Rightarrow> [cancel_op (snd k) (fst k) cid eid]))"

definition collect_cancel_ops :: "order_manager \<Rightarrow> batch_op list" where
  "collect_cancel_ops m = concat (map (collect_cancel_slot m) (slot_keys m))"

text \<open>The allocation-free comparison: an index into \<open>prev\<close> advances over the occupied slots.\<close>

fun ids_equal_from :: "order_slot list \<Rightarrow> int list \<Rightarrow> nat \<Rightarrow> bool" where
  "ids_equal_from [] prev i = (i = length prev)"
| "ids_equal_from (x # xs) prev i =
     (case order_id x of
        None \<Rightarrow> ids_equal_from xs prev i
      | Some c \<Rightarrow> if length prev \<le> i \<or> prev ! i \<noteq> c then False else ids_equal_from xs prev (i + 1))"

definition tracked_ids_equal :: "order_manager \<Rightarrow> int list \<Rightarrow> bool" where
  "tracked_ids_equal m prev = ids_equal_from (om_bids m @ om_asks m) prev 0"

definition slot_age :: "order_manager \<Rightarrow> instant \<Rightarrow> side \<Rightarrow> nat \<Rightarrow> duration" where
  "slot_age m now s lvl = max 0 (now - updated_at (slot m s lvl))"

text \<open>The loop of the trading task that occupies the slots of a batch before it is sent.\<close>

fun mark_all :: "order_manager \<Rightarrow> instant \<Rightarrow> batch_op list \<Rightarrow> order_manager option" where
  "mark_all m now [] = Some m"
| "mark_all m now (op # ops) =
     (case mark_pending m now op of None \<Rightarrow> None | Some m' \<Rightarrow> mark_all m' now ops)"

section \<open>Slots\<close>

lemma length_slot_mut [simp]: "length (side_slots (slot_mut m s lvl f) s') = length (side_slots m s')"
  by (cases s; cases s') (simp_all add: slot_mut_def side_slots_def)

lemma slot_mut_frame [simp, frame_simps]:
  "num_levels (slot_mut m s lvl f) = num_levels m"
  "client_to_exchange (slot_mut m s lvl f) = client_to_exchange m"
  "last_client_order_index (slot_mut m s lvl f) = last_client_order_index m"
  "om_amount_tick (slot_mut m s lvl f) = om_amount_tick m"
  by (cases s; simp add: slot_mut_def)+

lemma slot_slot_mut:
  assumes "lvl < length (side_slots m s)"
  shows "slot (slot_mut m s lvl f) s' lvl' = (if s' = s \<and> lvl' = lvl then f (slot m s lvl) else slot m s' lvl')"
  using assms by (cases s; cases s') (simp_all add: slot_def slot_mut_def side_slots_def nth_list_update)

lemma side_slots_frame [simp]:
  "side_slots (m\<lparr>client_to_exchange := x\<rparr>) s = side_slots m s"
  "side_slots (m\<lparr>last_client_order_index := i\<rparr>) s = side_slots m s"
  by (cases s; simp add: side_slots_def)+

lemma slot_frame [simp]:
  "slot (m\<lparr>client_to_exchange := x\<rparr>) s l = slot m s l"
  "slot (m\<lparr>last_client_order_index := i\<rparr>) s l = slot m s l"
  by (simp_all add: slot_def)

lemma record_id_mapping_frame [simp, frame_simps]:
  "slot (record_id_mapping m c e) s l = slot m s l"
  "side_slots (record_id_mapping m c e) s = side_slots m s"
  "num_levels (record_id_mapping m c e) = num_levels m"
  "last_client_order_index (record_id_mapping m c e) = last_client_order_index m"
  by (simp_all add: record_id_mapping_def Let_def)

lemma update_id_mapping_frame [simp, frame_simps]:
  "side_slots (update_id_mapping_from_orders m rs) s = side_slots m s"
  "num_levels (update_id_mapping_from_orders m rs) = num_levels m"
  "last_client_order_index (update_id_mapping_from_orders m rs) = last_client_order_index m"
  unfolding update_id_mapping_from_orders_def
  by (induction rs arbitrary: m) (auto split: option.splits)

lemma side_slots_Buy: "om_bids m = side_slots m Buy" and side_slots_Sell: "om_asks m = side_slots m Sell"
  by (simp_all add: side_slots_def)

lemma side_slots_reconcile:
  "side_slots (process_reconcile fp m now rs) s =
   map (\<lambda>x. reconcile_refresh fp now (by_client rs) s (reconcile_missing now (live_ids rs) x)) (side_slots m s)"
  using update_id_mapping_frame(1) [of m rs s]
  by (cases s) (simp_all add: process_reconcile_def Let_def side_slots_def comp_def)

text \<open>The record of a slot is consistent: it is idle exactly when it holds no order.\<close>

definition slot_wf :: "order_slot \<Rightarrow> bool" where
  "slot_wf x \<longleftrightarrow> (order_id x = None \<longleftrightarrow> status x = Idle) \<and>
     (order_id x = None \<longrightarrow> slot_price x = None \<and> slot_size x = None \<and> miss x = 0)"

definition om_wf :: "order_manager \<Rightarrow> bool" where
  "om_wf m \<longleftrightarrow> (\<forall>s. length (side_slots m s) = num_levels m \<and> (\<forall>x \<in> set (side_slots m s). slot_wf x)) \<and>
     distinct (map fst (client_to_exchange m)) \<and>
     0 \<le> last_client_order_index m \<and> last_client_order_index m \<le> MAX_CLIENT_ORDER_INDEX"

lemma slot_wf_idle [simp]: "slot_wf (idle_slot now)"
  by (simp add: slot_wf_def idle_slot_def)

lemma slot_wf_bind [simp]: "slot_wf (bind_live_slot now i p z x)"
  by (simp add: slot_wf_def bind_live_slot_def)

lemma slot_wf_pending: "slot_wf x \<Longrightarrow> op_action op = Create \<or> order_id x \<noteq> None \<Longrightarrow> slot_wf (pending_slot now op x)"
  by (cases "op_action op") (auto simp: slot_wf_def pending_slot_def)

lemma slot_wf_missing: "slot_wf x \<Longrightarrow> slot_wf (reconcile_missing now live x)"
  by (auto simp: reconcile_missing_def Let_def slot_wf_def idle_slot_def split: option.splits)

lemma slot_wf_refresh: "slot_wf x \<Longrightarrow> slot_wf (reconcile_refresh fp now rows s x)"
  by (auto simp: reconcile_refresh_def Let_def slot_wf_def bind_live_slot_def split: option.splits)

lemma set_slot_mut:
  "set (side_slots (slot_mut m s lvl f) s') \<subseteq>
   (if s' = s \<and> lvl < length (side_slots m s) then insert (f (slot m s lvl)) (set (side_slots m s'))
    else set (side_slots m s'))"
proof (cases "lvl < length (side_slots m s)")
  case True
  then show ?thesis
    by (cases s; cases s') (auto simp: slot_mut_def side_slots_def slot_def dest!: subsetD [OF set_update_subset_insert])
next
  case False
  then show ?thesis by (cases s; cases s') (simp_all add: slot_mut_def side_slots_def list_update_beyond)
qed

lemma om_wf_slot_mut [inv_intros]:
  assumes wf: "om_wf m" and f: "lvl < num_levels m \<Longrightarrow> slot_wf (f (slot m s lvl))"
  shows "om_wf (slot_mut m s lvl f)"
proof -
  have "slot_wf x" if "x \<in> set (side_slots (slot_mut m s lvl f) s')" for x s'
    using subsetD [OF set_slot_mut that] wf f by (auto simp: om_wf_def split: if_splits)
  then show ?thesis using wf by (simp add: om_wf_def)
qed

lemma slot_wf_slot: "om_wf m \<Longrightarrow> lvl < num_levels m \<Longrightarrow> slot_wf (slot m s lvl)"
  by (metis nth_mem om_wf_def slot_def)

lemma distinct_prune: "distinct (map fst m) \<Longrightarrow> distinct (map fst (prune_id_map live m))"
proof -
  assume d: "distinct (map fst m)"
  let ?o = "sort_key fst (filter (\<lambda>(k, _). k \<notin> live) m)"
  have "distinct (map fst (rev ?o))"
    using d by (simp add: rev_map [symmetric] distinct_map_sort_key distinct_map_filter)
  then have "distinct (map fst (take 100 (rev ?o)))" by (metis distinct_take take_map)
  moreover have "set (take 100 (rev ?o)) \<subseteq> set (filter (\<lambda>(k, _). k \<notin> live) m)"
    using set_take_subset [of 100 "rev ?o"] by simp
  ultimately show ?thesis using d by (auto simp: prune_id_map_def Let_def distinct_map_filter)
qed

lemma om_wf_record [inv_intros]: "om_wf m \<Longrightarrow> om_wf (record_id_mapping m c e)"
  by (auto simp: om_wf_def record_id_mapping_def Let_def distinct_update distinct_prune)

lemma om_wf_update_ids [inv_intros]: "om_wf m \<Longrightarrow> om_wf (update_id_mapping_from_orders m rs)"
  unfolding update_id_mapping_from_orders_def
  by (induction rs arbitrary: m) (auto simp: om_wf_record split: option.splits)

lemma om_wf_reconcile [inv_intros]:
  assumes "om_wf m"
  shows "om_wf (process_reconcile fp m now rs)"
proof -
  have "client_to_exchange (process_reconcile fp m now rs) = client_to_exchange (update_id_mapping_from_orders m rs)"
    "num_levels (process_reconcile fp m now rs) = num_levels m"
    "last_client_order_index (process_reconcile fp m now rs) = last_client_order_index m"
    by (simp_all add: process_reconcile_def Let_def)
  then show ?thesis
    using assms om_wf_update_ids [OF assms, of rs]
    by (auto simp: om_wf_def side_slots_reconcile intro!: slot_wf_refresh slot_wf_missing)
qed

lemma next_client_order_index_range:
  assumes "0 \<le> last_client_order_index m" "last_client_order_index m \<le> MAX_CLIENT_ORDER_INDEX"
    and "next_client_order_index m now = (i, m')"
  shows "0 < i" "i \<le> MAX_CLIENT_ORDER_INDEX" "last_client_order_index m' = i" "i \<noteq> last_client_order_index m"
    and "last_client_order_index m < MAX_CLIENT_ORDER_INDEX \<Longrightarrow> last_client_order_index m < i"
    and "m' = m\<lparr>last_client_order_index := i\<rparr>"
proof -
  define r where "r = now mod MAX_CLIENT_ORDER_INDEX"
  have md: "0 \<le> r" "r < MAX_CLIENT_ORDER_INDEX" "0 < MAX_CLIENT_ORDER_INDEX" "1 < MAX_CLIENT_ORDER_INDEX"
    by (simp_all add: r_def MAX_CLIENT_ORDER_INDEX_def)
  have wrap: "(last_client_order_index m + 1) mod (MAX_CLIENT_ORDER_INDEX + 1) =
      (if last_client_order_index m = MAX_CLIENT_ORDER_INDEX then 0 else last_client_order_index m + 1)"
    using assms(1,2) by (auto simp: MAX_CLIENT_ORDER_INDEX_def)
  show "0 < i" "i \<le> MAX_CLIENT_ORDER_INDEX" "last_client_order_index m' = i" "i \<noteq> last_client_order_index m"
    "last_client_order_index m < MAX_CLIENT_ORDER_INDEX \<Longrightarrow> last_client_order_index m < i"
    "m' = m\<lparr>last_client_order_index := i\<rparr>"
    using assms md wrap unfolding next_client_order_index_def Let_def r_def [symmetric]
    by (auto split: if_splits)
qed

section \<open>What collecting emits\<close>

text \<open>
  An operation is justified by a manager state: a create targets a free slot, a modify or
  cancel carries the id held by its slot together with the exchange id recorded for it.
\<close>

definition justified :: "order_manager \<Rightarrow> batch_op \<Rightarrow> bool" where
  "justified m op \<longleftrightarrow>
     (let x = slot m (op_side op) (op_level op)
      in case op_action op of
           Create \<Rightarrow> order_id x = None \<and> op_exchange_id op = None
         | _ \<Rightarrow> order_id x = Some (op_client_order_id op) \<and> op_exchange_id op \<noteq> None \<and>
                op_exchange_id op = resolve_exchange_id m (op_client_order_id op))"

definition create_ids :: "batch_op list \<Rightarrow> int list" where
  "create_ids ops = map op_client_order_id (filter (\<lambda>op. op_action op = Create) ops)"

lemma create_ids_append [simp]: "create_ids (xs @ ys) = create_ids xs @ create_ids ys"
  and create_ids_Nil [simp]: "create_ids [] = []"
  by (simp_all add: create_ids_def)

lemma justified_last [simp]: "justified (m\<lparr>last_client_order_index := i\<rparr>) op = justified m op"
  by (cases "op_action op") (simp_all add: justified_def resolve_exchange_id_def)

lemma collect_slot_spec:
  assumes "collect_slot a m lvl s np = (ops, m')"
  shows "\<exists>i. m' = m\<lparr>last_client_order_index := i\<rparr> \<and>
      (create_ids ops = [] \<and> i = last_client_order_index m \<or>
       create_ids ops = [i] \<and> next_client_order_index m (now_ns a) = (i, m'))"
    and "ops = [] \<or> (\<exists>op. ops = [op] \<and> op_key op = (lvl, s) \<and> justified m op \<and>
      (hold_mutations a \<longrightarrow> op_action op = Create) \<and>
      (op_action op \<noteq> Cancel \<longrightarrow> op_size op = base_amount a \<and> 0 < op_size op \<and> np = Some (op_price op) \<and> 0 < op_price op))"
proof -
  have nc: "next_client_order_index m (now_ns a) = (i, n) \<Longrightarrow> n = m\<lparr>last_client_order_index := i\<rparr>" for i n
    by (auto simp: next_client_order_index_def Let_def)
  have same: "m = m\<lparr>last_client_order_index := last_client_order_index m\<rparr>" by simp
  show "\<exists>i. m' = m\<lparr>last_client_order_index := i\<rparr> \<and>
      (create_ids ops = [] \<and> i = last_client_order_index m \<or>
       create_ids ops = [i] \<and> next_client_order_index m (now_ns a) = (i, m'))"
    using assms nc same unfolding collect_slot_def Let_def
    by (auto simp: create_ids_def cancel_op_def split: option.splits if_splits prod.splits)
  show "ops = [] \<or> (\<exists>op. ops = [op] \<and> op_key op = (lvl, s) \<and> justified m op \<and>
      (hold_mutations a \<longrightarrow> op_action op = Create) \<and>
      (op_action op \<noteq> Cancel \<longrightarrow> op_size op = base_amount a \<and> 0 < op_size op \<and> np = Some (op_price op) \<and> 0 < op_price op))"
    using assms unfolding collect_slot_def Let_def justified_def cancel_op_def
    by (auto split: option.splits if_splits prod.splits)
qed

definition op_ok :: "collect_args \<Rightarrow> order_manager \<Rightarrow> batch_op \<Rightarrow> bool" where
  "op_ok a m op \<longleftrightarrow> justified m op \<and> (hold_mutations a \<longrightarrow> op_action op = Create) \<and>
     (op_action op \<noteq> Cancel \<longrightarrow> op_size op = base_amount a \<and> 0 < op_size op \<and> 0 < op_price op)"

definition batch_ok :: "collect_args \<Rightarrow> order_manager \<Rightarrow> nat \<Rightarrow> nat \<Rightarrow> batch_op list \<Rightarrow> bool" where
  "batch_ok a m lo hi ops \<longleftrightarrow>
     sorted_wrt (<) (map op_key ops) \<and>
     (\<forall>op \<in> set ops. lo \<le> op_level op \<and> op_level op < hi \<and> op_ok a m op)"

lemma batch_ok_append:
  "batch_ok a m lo hi xs \<Longrightarrow> batch_ok a m lo hi ys \<Longrightarrow>
   \<forall>x \<in> set xs. \<forall>y \<in> set ys. op_key x < op_key y \<Longrightarrow> batch_ok a m lo hi (xs @ ys)"
  by (auto simp: batch_ok_def sorted_wrt_append)

lemma batch_ok_mono: "batch_ok a m lo hi ops \<Longrightarrow> lo' \<le> lo \<Longrightarrow> batch_ok a m lo' hi ops"
  by (auto simp: batch_ok_def)

lemma collect_levels_batch:
  "collect_levels a m lvl ls = Some (ops, m') \<Longrightarrow>
   (\<exists>i. m' = m\<lparr>last_client_order_index := i\<rparr>) \<and> batch_ok a m lvl (lvl + length ls) ops"
proof (induction a m lvl ls arbitrary: ops m' rule: collect_levels.induct)
  case (1 a m lvl)
  then have "m' = m\<lparr>last_client_order_index := last_client_order_index m\<rparr>" "ops = []" by simp_all
  then show ?case by (intro conjI exI [of _ "last_client_order_index m"]) (simp_all add: batch_ok_def)
next
  case (2 a m lvl bp sp ls)
  obtain o1 m1 where c1: "collect_slot a m lvl Buy bp = (o1, m1)" by fastforce
  obtain o2 m2 where c2: "collect_slot a m1 lvl Sell sp = (o2, m2)" by fastforce
  from 2(2) c1 c2 obtain o3 where rest: "collect_levels a m2 (lvl + 1) ls = Some (o3, m')"
    and ops: "ops = o1 @ o2 @ o3" and rng: "\<not> (length (om_bids m) \<le> lvl \<or> length (om_asks m) \<le> lvl)"
    by (auto split: if_splits option.splits)
  from collect_slot_spec(1) [OF c1] obtain i1 where m1: "m1 = m\<lparr>last_client_order_index := i1\<rparr>" by blast
  from collect_slot_spec(1) [OF c2] obtain i2 where m2: "m2 = m1\<lparr>last_client_order_index := i2\<rparr>" by blast
  have ih: "\<exists>i. m' = m2\<lparr>last_client_order_index := i\<rparr>" "batch_ok a m (lvl + 1) (lvl + length ((bp, sp) # ls)) o3"
    using 2(1) [OF rng c1 [symmetric] refl c2 [symmetric] refl rest] by (auto simp: m1 m2 batch_ok_def op_ok_def)
  have h1: "o1 = [] \<or> (\<exists>op. o1 = [op] \<and> op_key op = (lvl, Buy))"
    and h2: "o2 = [] \<or> (\<exists>op. o2 = [op] \<and> op_key op = (lvl, Sell))"
    using collect_slot_spec(2) [OF c1] collect_slot_spec(2) [OF c2] by blast+
  have "batch_ok a m lvl (lvl + length ((bp, sp) # ls)) o1" "batch_ok a m lvl (lvl + length ((bp, sp) # ls)) o2"
    using collect_slot_spec(2) [OF c1] collect_slot_spec(2) [OF c2] by (auto simp: batch_ok_def op_ok_def m1)
  moreover have "batch_ok a m lvl (lvl + length ((bp, sp) # ls)) o3" by (rule batch_ok_mono [OF ih(2)]) simp
  moreover have o3: "\<forall>y \<in> set o3. lvl < op_level y" using ih(2) by (auto simp: batch_ok_def)
  have "\<forall>x \<in> set o2. \<forall>y \<in> set o3. op_key x < op_key y" using h2 o3 by (auto simp: less_prod_def)
  moreover have "\<forall>x \<in> set o1. \<forall>y \<in> set (o2 @ o3). op_key x < op_key y"
    using h1 h2 o3 by (auto simp: less_prod_def)
  ultimately have "batch_ok a m lvl (lvl + length ((bp, sp) # ls)) ops"
    unfolding ops by (intro batch_ok_append)
  with ih(1) show ?case by (auto simp: m1 m2)
qed

lemma collect_levels_total:
  "lvl + length ls \<le> length (om_bids m) \<Longrightarrow> lvl + length ls \<le> length (om_asks m) \<Longrightarrow>
   \<exists>ops m'. collect_levels a m lvl ls = Some (ops, m')"
proof (induction a m lvl ls rule: collect_levels.induct)
  case (2 a m lvl bp sp ls)
  obtain o1 m1 where c1: "collect_slot a m lvl Buy bp = (o1, m1)" by fastforce
  obtain o2 m2 where c2: "collect_slot a m1 lvl Sell sp = (o2, m2)" by fastforce
  have fr: "om_bids m2 = om_bids m" "om_asks m2 = om_asks m"
    using collect_slot_spec(1) [OF c1] collect_slot_spec(1) [OF c2] by auto
  from 2(2,3) have rng: "\<not> (length (om_bids m) \<le> lvl \<or> length (om_asks m) \<le> lvl)" by simp
  from 2(1) [OF rng c1 [symmetric] refl c2 [symmetric] refl] 2(2,3) fr
  show ?case using rng c1 c2 by fastforce
qed simp

text \<open>Ids of the creates of one batch, when the id counter does not wrap inside it.\<close>

lemma next_client_order_index_max:
  assumes "0 \<le> last_client_order_index m" "last_client_order_index m < MAX_CLIENT_ORDER_INDEX"
    and "next_client_order_index m now = (i, m')"
  shows "i = max (now mod MAX_CLIENT_ORDER_INDEX) (last_client_order_index m + 1)"
proof -
  have "(last_client_order_index m + 1) mod (MAX_CLIENT_ORDER_INDEX + 1) = last_client_order_index m + 1"
    using assms(1,2) by auto
  then show ?thesis using assms unfolding next_client_order_index_def Let_def by (auto split: if_splits)
qed

lemma collect_slot_ids:
  assumes "collect_slot a m lvl s np = (ops, m')"
    and "0 \<le> last_client_order_index m" "last_client_order_index m < MAX_CLIENT_ORDER_INDEX"
  shows "sorted_wrt (<) (create_ids ops) \<and>
    (\<forall>i \<in> set (create_ids ops). last_client_order_index m < i \<and> i \<le> last_client_order_index m') \<and>
    last_client_order_index m \<le> last_client_order_index m' \<and>
    last_client_order_index m' \<le> max (now_ns a mod MAX_CLIENT_ORDER_INDEX) (last_client_order_index m) + 1"
proof -
  from collect_slot_spec(1) [OF assms(1)] obtain i where m': "m' = m\<lparr>last_client_order_index := i\<rparr>"
    and i: "create_ids ops = [] \<and> i = last_client_order_index m \<or>
       create_ids ops = [i] \<and> next_client_order_index m (now_ns a) = (i, m')" by blast
  from i show ?thesis
  proof
    assume "create_ids ops = [i] \<and> next_client_order_index m (now_ns a) = (i, m')"
    with next_client_order_index_max [OF assms(2,3), of "now_ns a" i m'] show ?thesis by (auto simp: m' max_def)
  qed (auto simp: m')
qed

lemma collect_levels_ids:
  "collect_levels a m lvl ls = Some (ops, m') \<Longrightarrow> 0 \<le> last_client_order_index m \<Longrightarrow>
   max (now_ns a mod MAX_CLIENT_ORDER_INDEX) (last_client_order_index m) + 2 * int (length ls) \<le> MAX_CLIENT_ORDER_INDEX \<Longrightarrow>
   sorted_wrt (<) (create_ids ops) \<and>
   (\<forall>i \<in> set (create_ids ops). last_client_order_index m < i \<and> i \<le> last_client_order_index m') \<and>
   last_client_order_index m \<le> last_client_order_index m'"
proof (induction a m lvl ls arbitrary: ops m' rule: collect_levels.induct)
  case (2 a m lvl bp sp ls)
  obtain o1 m1 where c1: "collect_slot a m lvl Buy bp = (o1, m1)" by fastforce
  obtain o2 m2 where c2: "collect_slot a m1 lvl Sell sp = (o2, m2)" by fastforce
  from 2(2) c1 c2 obtain o3 where rest: "collect_levels a m2 (lvl + 1) ls = Some (o3, m')"
    and ops: "ops = o1 @ o2 @ o3" and rng: "\<not> (length (om_bids m) \<le> lvl \<or> length (om_asks m) \<le> lvl)"
    by (auto split: if_splits option.splits)
  have lm: "last_client_order_index m < MAX_CLIENT_ORDER_INDEX" using 2(4) by simp
  note i1 = collect_slot_ids [OF c1 2(3) lm]
  have "0 \<le> last_client_order_index m1" "last_client_order_index m1 < MAX_CLIENT_ORDER_INDEX"
    using i1 2(3,4) by auto
  note i2 = collect_slot_ids [OF c2 this]
  have ih: "sorted_wrt (<) (create_ids o3) \<and>
      (\<forall>i \<in> set (create_ids o3). last_client_order_index m2 < i \<and> i \<le> last_client_order_index m') \<and>
      last_client_order_index m2 \<le> last_client_order_index m'"
  proof (rule 2(1) [OF rng c1 [symmetric] refl c2 [symmetric] refl rest])
    show "0 \<le> last_client_order_index m2" using i1 i2 2(3) by linarith
    show "max (now_ns a mod MAX_CLIENT_ORDER_INDEX) (last_client_order_index m2) + 2 * int (length ls) \<le> MAX_CLIENT_ORDER_INDEX"
      using i1 i2 2(4) by (simp add: max_def split: if_splits)
  qed
  show ?case using i1 i2 ih unfolding ops create_ids_append by (fastforce simp: sorted_wrt_append)
qed simp

section \<open>Occupying the slots of a batch\<close>

lemma mark_pending_total:
  "om_wf m \<Longrightarrow> op_level op < num_levels m \<Longrightarrow>
   mark_pending m now op = Some (slot_mut m (op_side op) (op_level op) (pending_slot now op))"
  by (simp add: mark_pending_def om_wf_def not_le)

lemma om_wf_pending [inv_intros]:
  assumes "om_wf m" "op_level op < num_levels m"
    and "op_action op = Create \<or> order_id (slot m (op_side op) (op_level op)) \<noteq> None"
  shows "om_wf (slot_mut m (op_side op) (op_level op) (pending_slot now op))"
  using assms by (intro om_wf_slot_mut slot_wf_pending slot_wf_slot) auto

text \<open>
  Marking a batch with pairwise different slots: each slot named by an operation is updated
  from its old contents, the others are untouched.
\<close>

lemma mark_all_spec:
  assumes "om_wf m" and "sorted_wrt (<) (map op_key ops)"
    and "\<forall>op \<in> set ops. op_level op < num_levels m \<and>
           (op_action op = Create \<or> order_id (slot m (op_side op) (op_level op)) \<noteq> None)"
  shows "\<exists>m'. mark_all m now ops = Some m' \<and> om_wf m' \<and> num_levels m' = num_levels m \<and>
     client_to_exchange m' = client_to_exchange m \<and>
     (\<forall>op \<in> set ops. slot m' (op_side op) (op_level op) =
        pending_slot now op (slot m (op_side op) (op_level op))) \<and>
     (\<forall>s l. (l, s) \<notin> op_key ` set ops \<longrightarrow> slot m' s l = slot m s l)"
  using assms
proof (induction ops arbitrary: m)
  case (Cons op ops)
  let ?m = "slot_mut m (op_side op) (op_level op) (pending_slot now op)"
  have lvl: "op_level op < num_levels m" using Cons.prems(3) by simp
  then have len: "op_level op < length (side_slots m (op_side op))" using Cons.prems(1) by (simp add: om_wf_def)
  have other: "op_key o' \<noteq> op_key op" if "o' \<in> set ops" for o' using Cons.prems(2) that by fastforce
  have same: "slot ?m (op_side o') (op_level o') = slot m (op_side o') (op_level o')" if "o' \<in> set ops" for o'
    using other [OF that] by (auto simp: slot_slot_mut [OF len])
  have wf: "om_wf ?m" using Cons.prems by (intro om_wf_pending) auto
  have "\<exists>m'. mark_all ?m now ops = Some m' \<and> om_wf m' \<and> num_levels m' = num_levels ?m \<and>
     client_to_exchange m' = client_to_exchange ?m \<and>
     (\<forall>op \<in> set ops. slot m' (op_side op) (op_level op) = pending_slot now op (slot ?m (op_side op) (op_level op))) \<and>
     (\<forall>s l. (l, s) \<notin> op_key ` set ops \<longrightarrow> slot m' s l = slot ?m s l)"
    using Cons.prems same by (intro Cons.IH wf) auto
  then obtain m' where m': "mark_all ?m now ops = Some m'" "om_wf m'" "num_levels m' = num_levels m"
      "client_to_exchange m' = client_to_exchange m"
    and new: "\<forall>op \<in> set ops. slot m' (op_side op) (op_level op) = pending_slot now op (slot ?m (op_side op) (op_level op))"
    and old: "\<forall>s l. (l, s) \<notin> op_key ` set ops \<longrightarrow> slot m' s l = slot ?m s l" by auto
  have "op_key op \<notin> op_key ` set ops"
  proof
    assume "op_key op \<in> op_key ` set ops"
    then obtain o' where "o' \<in> set ops" "op_key op = op_key o'" by (rule imageE)
    with other [of o'] show False by simp
  qed
  then have "slot m' (op_side op) (op_level op) = slot ?m (op_side op) (op_level op)" using old by blast
  then have "slot m' (op_side op) (op_level op) = pending_slot now op (slot m (op_side op) (op_level op))"
    by (simp add: slot_slot_mut [OF len])
  moreover have "\<forall>s l. (l, s) \<notin> op_key ` set (op # ops) \<longrightarrow> slot m' s l = slot m s l"
    using old by (auto simp: slot_slot_mut [OF len])
  moreover have "mark_all m now (op # ops) = Some m'"
    using m'(1) mark_pending_total [OF Cons.prems(1) lvl] by simp
  ultimately show ?case using m'(2-4) new same by (intro exI [of _ m']) auto
qed simp

lemma pending_slot_occupied:
  "op_action op = Create \<or> order_id x \<noteq> None \<Longrightarrow> order_id (pending_slot now op x) \<noteq> None"
  by (cases "op_action op") (auto simp: pending_slot_def)

lemma justified_pending: "justified m op \<Longrightarrow> op_action op = Create \<or> order_id (slot m (op_side op) (op_level op)) \<noteq> None"
  by (cases "op_action op") (auto simp: justified_def)

lemma collect_slot_wf: "collect_slot a m lvl s np = (ops, m') \<Longrightarrow> om_wf m \<Longrightarrow> om_wf m'"
proof -
  assume c: "collect_slot a m lvl s np = (ops, m')" and wf: "om_wf m"
  from collect_slot_spec(1) [OF c] obtain i where m': "m' = m\<lparr>last_client_order_index := i\<rparr>"
    and i: "i = last_client_order_index m \<or> next_client_order_index m (now_ns a) = (i, m')" by blast
  have "0 \<le> i \<and> i \<le> MAX_CLIENT_ORDER_INDEX"
    using i wf next_client_order_index_range(1,2) [of m "now_ns a" i m'] by (auto simp: om_wf_def)
  then show "om_wf m'" using wf by (simp add: m' om_wf_def)
qed

lemma collect_levels_wf: "collect_levels a m lvl ls = Some (ops, m') \<Longrightarrow> om_wf m \<Longrightarrow> om_wf m'"
proof (induction a m lvl ls arbitrary: ops m' rule: collect_levels.induct)
  case (2 a m lvl bp sp ls)
  obtain o1 m1 where c1: "collect_slot a m lvl Buy bp = (o1, m1)" by fastforce
  obtain o2 m2 where c2: "collect_slot a m1 lvl Sell sp = (o2, m2)" by fastforce
  from 2(2) c1 c2 obtain o3 where rest: "collect_levels a m2 (lvl + 1) ls = Some (o3, m')"
    and rng: "\<not> (length (om_bids m) \<le> lvl \<or> length (om_asks m) \<le> lvl)"
    by (auto split: if_splits option.splits)
  from 2(1) [OF rng c1 [symmetric] refl c2 [symmetric] refl rest] collect_slot_wf [OF c2] collect_slot_wf [OF c1] 2(3)
  show ?case by blast
qed simp

text \<open>Collecting and then marking, as the quote cycle does.\<close>

lemma collect_mark:
  assumes wf: "om_wf m" and c: "collect_order_operations m ls base pos thr ns hold = Some (ops, m1)"
    and len: "length ls \<le> num_levels m"
  shows "\<exists>m2. mark_all m1 now ops = Some m2 \<and> om_wf m2 \<and> num_levels m2 = num_levels m \<and>
    client_to_exchange m2 = client_to_exchange m \<and>
    (\<forall>op \<in> set ops. order_id (slot m2 (op_side op) (op_level op)) \<noteq> None \<and>
       status (slot m2 (op_side op) (op_level op)) \<in> {Placing, Modifying, Canceling}) \<and>
    (\<forall>s l. (l, s) \<notin> op_key ` set ops \<longrightarrow> slot m2 s l = slot m s l)"
proof -
  let ?a = "\<lparr>base_amount = base, ca_position = pos, threshold_bps = thr, now_ns = ns, hold_mutations = hold\<rparr>"
  have c': "collect_levels ?a m 0 ls = Some (ops, m1)" using c by (simp add: collect_order_operations_def)
  from collect_levels_batch [OF c'] obtain i where m1: "m1 = m\<lparr>last_client_order_index := i\<rparr>"
    and b: "batch_ok ?a m 0 (length ls) ops" by auto
  have wf1: "om_wf m1" by (rule collect_levels_wf [OF c' wf])
  have j: "op_level op < num_levels m \<and> (op_action op = Create \<or> order_id (slot m (op_side op) (op_level op)) \<noteq> None)"
    if "op \<in> set ops" for op
    using b that len justified_pending [of m op] by (auto simp: batch_ok_def op_ok_def)
  have "\<exists>m'. mark_all m1 now ops = Some m' \<and> om_wf m' \<and> num_levels m' = num_levels m1 \<and>
     client_to_exchange m' = client_to_exchange m1 \<and>
     (\<forall>op \<in> set ops. slot m' (op_side op) (op_level op) = pending_slot now op (slot m1 (op_side op) (op_level op))) \<and>
     (\<forall>s l. (l, s) \<notin> op_key ` set ops \<longrightarrow> slot m' s l = slot m1 s l)"
    using b j by (intro mark_all_spec wf1) (auto simp: batch_ok_def m1)
  moreover have "status (pending_slot now op x) \<in> {Placing, Modifying, Canceling}" for op x
    by (cases "op_action op") (simp_all add: pending_slot_def)
  ultimately show ?thesis using j pending_slot_occupied by (fastforce simp: m1)
qed

section \<open>Properties of a batch\<close>

text \<open>
  Collecting never panics on a ladder that fits the manager, and what it emits is sound:
  at most one operation per slot, in loop order; a create only on a free slot and a modify or
  cancel only with the id of the order in its slot and the exchange id recorded for it; only
  creates while mutations are held; positive prices and sizes; slots and id map unchanged.
\<close>

theorem collected_batch_sound:
  assumes "om_wf m" and "length ls \<le> num_levels m"
  shows "\<exists>ops m'. collect_order_operations m ls base pos thr ns hold = Some (ops, m') \<and>
    sorted_wrt (<) (map op_key ops) \<and> om_wf m' \<and> (\<forall>s. side_slots m' s = side_slots m s) \<and>
    client_to_exchange m' = client_to_exchange m \<and>
    (\<forall>op \<in> set ops. op_level op < length ls \<and> justified m op \<and> (hold \<longrightarrow> op_action op = Create) \<and>
       (op_action op \<noteq> Cancel \<longrightarrow> op_size op = base \<and> 0 < op_size op \<and> 0 < op_price op))"
proof -
  let ?a = "\<lparr>base_amount = base, ca_position = pos, threshold_bps = thr, now_ns = ns, hold_mutations = hold\<rparr>"
  have "length ls \<le> length (om_bids m)" "length ls \<le> length (om_asks m)"
    using assms by (simp_all add: om_wf_def side_slots_Buy side_slots_Sell)
  then obtain ops m' where c: "collect_levels ?a m 0 ls = Some (ops, m')"
    using collect_levels_total [of 0 ls m ?a] by auto
  from collect_levels_batch [OF c] obtain i where "m' = m\<lparr>last_client_order_index := i\<rparr>"
    and "batch_ok ?a m 0 (length ls) ops" by auto
  with c collect_levels_wf [OF c assms(1)] show ?thesis
    by (intro exI [of _ ops] exI [of _ m']) (auto simp: collect_order_operations_def batch_ok_def op_ok_def)
qed

lemma om_wf_new [simp]: "om_wf (manager_new now n tick)"
proof -
  have "length (side_slots (manager_new now n tick) s) = n \<and> (\<forall>x \<in> set (side_slots (manager_new now n tick) s). slot_wf x)" for s
    by (cases s) (auto simp: manager_new_def side_slots_def)
  then show ?thesis by (simp add: om_wf_def manager_new_def MAX_CLIENT_ORDER_INDEX_def)
qed

lemma num_levels_new [simp]: "num_levels (manager_new now n tick) = n"
  by (simp add: manager_new_def)

theorem collected_batch_sound_witness:
  "\<exists>ops m'. collect_order_operations (manager_new 0 2 1) [(Some 99, Some 101), (Some 98, None)] 1 0 5 1234 True
     = Some (ops, m') \<and> sorted_wrt (<) (map op_key ops) \<and> (\<forall>op \<in> set ops. op_action op = Create)"
proof -
  have "length [(Some 99, Some 101), (Some 98, None) :: level] \<le> num_levels (manager_new 0 2 1)" by simp
  from collected_batch_sound [OF om_wf_new this, of 1 0 5 1234 True] show ?thesis by blast
qed

text \<open>
  C1. No duplicate creates. Once the operations of a cycle are marked pending, whatever
  prices, size, position and hold flag the next cycle uses, it emits no create for any slot
  an operation of the first cycle was aimed at; marking itself never fails.
\<close>

theorem no_duplicate_create:
  assumes wf: "om_wf m" and len: "length ls \<le> num_levels m"
    and c1: "collect_order_operations m ls base pos thr ns hold = Some (ops, m1)"
  shows "\<exists>m2. mark_all m1 now ops = Some m2 \<and>
    (\<forall>ls' base' pos' thr' ns' hold' ops' m3.
       collect_order_operations m2 ls' base' pos' thr' ns' hold' = Some (ops', m3) \<longrightarrow>
       (\<forall>op \<in> set ops. \<forall>op' \<in> set ops'. op_key op' = op_key op \<longrightarrow> op_action op' \<noteq> Create))"
proof -
  from collect_mark [OF wf c1 len, of now] obtain m2 where m2: "mark_all m1 now ops = Some m2"
    and occ: "\<forall>op \<in> set ops. order_id (slot m2 (op_side op) (op_level op)) \<noteq> None" by blast
  have "op_action op' \<noteq> Create"
    if c: "collect_order_operations m2 ls' base' pos' thr' ns' hold' = Some (ops', m3)"
      and op: "op \<in> set ops" "op' \<in> set ops'" "op_key op' = op_key op"
    for ls' base' pos' thr' ns' hold' ops' m3 op op'
  proof -
    from collect_levels_batch [OF c [unfolded collect_order_operations_def]] op(2)
    have "justified m2 op'" by (simp add: batch_ok_def op_ok_def)
    moreover have "order_id (slot m2 (op_side op') (op_level op')) \<noteq> None" using occ op(1,3) by auto
    ultimately show ?thesis by (auto simp: justified_def)
  qed
  with m2 show ?thesis by blast
qed

theorem no_duplicate_create_witness:
  "\<exists>ops m1 m2. collect_order_operations (manager_new 0 1 1) [(Some 99, Some 101)] 1 0 5 1234 False = Some (ops, m1) \<and>
     length ops = 2 \<and> mark_all m1 7 ops = Some m2 \<and>
     (\<forall>ops' m3. collect_order_operations m2 [(Some 90, Some 110)] 2 0 5 9999 False = Some (ops', m3) \<longrightarrow>
        (\<forall>op \<in> set ops. \<forall>op' \<in> set ops'. op_key op' = op_key op \<longrightarrow> op_action op' \<noteq> Create))"
proof -
  obtain ops m1 where c: "collect_order_operations (manager_new 0 1 1) [(Some 99, Some 101)] 1 0 5 1234 False = Some (ops, m1)"
    and l: "length ops = 2"
    by (simp add: collect_order_operations_def collect_slot_def manager_new_def slot_def side_slots_def
        idle_slot_def next_client_order_index_def Let_def)
  have "length [(Some 99, Some 101) :: level] \<le> num_levels (manager_new 0 1 1)" by simp
  from no_duplicate_create [OF om_wf_new this c, of 7] obtain m2 where "mark_all m1 7 ops = Some m2"
    "\<forall>ls' base' pos' thr' ns' hold' ops' m3.
       collect_order_operations m2 ls' base' pos' thr' ns' hold' = Some (ops', m3) \<longrightarrow>
       (\<forall>op \<in> set ops. \<forall>op' \<in> set ops'. op_key op' = op_key op \<longrightarrow> op_action op' \<noteq> Create)" by blast
  with c l show ?thesis by (intro exI [of _ ops] exI [of _ m1] exI [of _ m2]) blast
qed

text \<open>
  Client ids of the creates of one batch are fresh: strictly increasing and above every
  id handed out before, as long as the 48-bit counter does not wrap inside the batch; and in
  every case a new id is in range, never the wildcard 0 and never the id handed out last.
\<close>

theorem fresh_client_ids:
  assumes "0 \<le> last_client_order_index m" "last_client_order_index m \<le> MAX_CLIENT_ORDER_INDEX"
  shows "(let (i, m') = next_client_order_index m ns
          in 0 < i \<and> i \<le> MAX_CLIENT_ORDER_INDEX \<and> i \<noteq> last_client_order_index m \<and> last_client_order_index m' = i) \<and>
    (collect_order_operations m ls base pos thr ns hold = Some (ops, m1) \<and>
       max (ns mod MAX_CLIENT_ORDER_INDEX) (last_client_order_index m) + 2 * int (length ls) \<le> MAX_CLIENT_ORDER_INDEX \<longrightarrow>
     sorted_wrt (<) (create_ids ops) \<and> (\<forall>i \<in> set (create_ids ops). last_client_order_index m < i))"
proof -
  obtain i m' where n: "next_client_order_index m ns = (i, m')" by fastforce
  show ?thesis
    using next_client_order_index_range(1-4) [OF assms n] assms(1)
      collect_levels_ids [of "\<lparr>base_amount = base, ca_position = pos, threshold_bps = thr, now_ns = ns, hold_mutations = hold\<rparr>" m 0 ls ops m1]
    by (auto simp: n collect_order_operations_def)
qed

theorem fresh_client_ids_witness:
  "0 < fst (next_client_order_index (manager_new 0 1 1) 281474976710655)"
proof -
  have "0 \<le> last_client_order_index (manager_new 0 1 1)"
    "last_client_order_index (manager_new 0 1 1) \<le> MAX_CLIENT_ORDER_INDEX"
    by (simp_all add: manager_new_def MAX_CLIENT_ORDER_INDEX_def)
  from fresh_client_ids [OF this, of 281474976710655 "[]" 0 0 0 False "[]" "manager_new 0 1 1"]
  show ?thesis by (cases "next_client_order_index (manager_new 0 1 1) 281474976710655") simp
qed

section \<open>The manager as a step system\<close>

text \<open>Everything its owner can do to the manager; \<open>None\<close> is a panicked owner.\<close>

datatype om_step =
    Event instant order_event
  | Reconcile instant "remote_order list"
  | Quote_Cycle instant "level list" f64 f64 f64 int bool
  | Cancel_Cycle instant

definition om_step_fun ::
  "(string \<Rightarrow> f64 option) \<Rightarrow> order_manager option \<Rightarrow> om_step \<Rightarrow> order_manager option" where
  "om_step_fun fp st e =
     (case st of None \<Rightarrow> None
      | Some m \<Rightarrow>
        (case e of
           Event now evt \<Rightarrow> apply_event m now evt
         | Reconcile now remote \<Rightarrow> Some (process_reconcile fp m now remote)
         | Quote_Cycle now ls base pos thr ns hold \<Rightarrow>
             (case collect_order_operations m ls base pos thr ns hold of
                None \<Rightarrow> None | Some (ops, m1) \<Rightarrow> mark_all m1 now ops)
         | Cancel_Cycle now \<Rightarrow> mark_all m now (collect_cancel_ops m)))"

definition om_step_ok :: "order_manager option \<Rightarrow> om_step \<Rightarrow> bool" where
  "om_step_ok st e =
     (case st of None \<Rightarrow> True
      | Some m \<Rightarrow>
        (case e of
           Event _ (BindLive _ lvl _ _ _ _) \<Rightarrow> lvl < num_levels m
         | Event _ (ClearLive _ lvl _) \<Rightarrow> lvl < num_levels m
         | Quote_Cycle _ ls _ _ _ _ _ \<Rightarrow> length ls \<le> num_levels m
         | _ \<Rightarrow> True))"

definition om_state_wf :: "nat \<Rightarrow> order_manager option \<Rightarrow> bool" where
  "om_state_wf n st = (case st of None \<Rightarrow> False | Some m \<Rightarrow> om_wf m \<and> num_levels m = n)"

lemma set_slot_keys: "(lvl, s) \<in> set (slot_keys m) \<longleftrightarrow> lvl < num_levels m"
  by (cases s) (auto simp: slot_keys_def)

lemma find_slot_key:
  "List.find P (slot_keys m) = Some (lvl, s) \<Longrightarrow> lvl < num_levels m \<and> P (lvl, s)"
  by (metis find_Some_iff nth_mem set_slot_keys)

lemma om_wf_fill [inv_intros]:
  assumes "om_wf m"
  shows "om_wf (apply_fill m now cid filled) \<and> num_levels (apply_fill m now cid filled) = num_levels m"
proof (cases "List.find (\<lambda>(lvl, s). order_id (slot m s lvl) = Some cid) (slot_keys m)")
  case None
  then show ?thesis using assms by (simp add: apply_fill_def)
next
  case (Some k)
  obtain lvl s where k: "k = (lvl, s)" by (cases k)
  have id: "lvl < num_levels m" "order_id (slot m s lvl) = Some cid" using find_slot_key Some k by fastforce+
  have "slot_wf (slot m s lvl\<lparr>slot_size := Some r, updated_at := now, miss := 0\<rparr>)" for r
    using slot_wf_slot [OF assms id(1), of s] id(2) by (simp add: slot_wf_def)
  then have sz: "om_wf (slot_mut m s lvl (\<lambda>x. x\<lparr>slot_size := Some r, updated_at := now, miss := 0\<rparr>))" for r
    using assms by (intro om_wf_slot_mut) auto
  have cl: "om_wf (clear_live m now s lvl)" unfolding clear_live_def using assms by (intro om_wf_slot_mut) auto
  show ?thesis using sz cl by (simp add: apply_fill_def Some k Let_def clear_live_def split: option.splits)
qed

lemma om_wf_clear_all [inv_intros]: "om_wf m \<Longrightarrow> om_wf (clear_all m now)"
proof -
  assume wf: "om_wf m"
  have "side_slots (clear_all m now) s = map (\<lambda>_. idle_slot now) (side_slots m s)" for s
    by (cases s) (simp_all add: clear_all_def side_slots_def)
  moreover have "client_to_exchange (clear_all m now) = client_to_exchange m" "num_levels (clear_all m now) = num_levels m"
    "last_client_order_index (clear_all m now) = last_client_order_index m" by (simp_all add: clear_all_def)
  ultimately show ?thesis using wf by (auto simp: om_wf_def)
qed

lemma om_wf_event [inv_intros]:
  assumes wf: "om_wf m" and ok: "om_step_ok (Some m) (Event now evt)"
  shows "\<exists>m'. apply_event m now evt = Some m' \<and> om_wf m' \<and> num_levels m' = num_levels m"
proof (cases evt)
  case (BindLive s lvl cid eid p z)
  let ?m = "case eid of None \<Rightarrow> m | Some e \<Rightarrow> record_id_mapping m cid e"
  have "om_wf ?m" "num_levels ?m = num_levels m" using wf by (auto split: option.splits intro: om_wf_record)
  moreover from this have "om_wf (bind_live ?m now s lvl cid p z)"
    unfolding bind_live_def by (intro om_wf_slot_mut) auto
  moreover have "lvl < length (side_slots m s)" using ok wf BindLive by (simp add: om_step_ok_def om_wf_def)
  ultimately show ?thesis using BindLive by (simp add: apply_event_def bind_live_def)
next
  case (ClearLive s lvl cid)
  have "om_wf (clear_live m now s lvl)" unfolding clear_live_def using wf by (intro om_wf_slot_mut) auto
  moreover have "lvl < length (side_slots m s)" using ok wf ClearLive by (simp add: om_step_ok_def om_wf_def)
  ultimately show ?thesis using ClearLive wf by (auto simp: apply_event_def clear_live_def)
next
  case ClearAll
  then show ?thesis using om_wf_clear_all [OF wf] by (simp add: apply_event_def clear_all_def)
next
  case (IdResolved c e)
  then show ?thesis using om_wf_record [OF wf] by (simp add: apply_event_def)
next
  case (Fill c f)
  then show ?thesis using om_wf_fill [OF wf] by (simp add: apply_event_def)
qed

lemma sorted_slot_keys: "sorted_wrt (<) (slot_keys m)"
proof -
  have "sorted_wrt (<) (concat (map (\<lambda>lvl. [(lvl, Buy), (lvl, Sell)]) [0..<n]))" for n
    by (induction n) (auto simp: sorted_wrt_append less_prod_def)
  then show ?thesis by (simp add: slot_keys_def)
qed

lemma collect_cancel_slot_cases:
  "collect_cancel_slot m k = [] \<or> (\<exists>cid eid. collect_cancel_slot m k = [cancel_op (snd k) (fst k) cid eid] \<and>
     order_id (slot m (snd k) (fst k)) = Some cid \<and> resolve_exchange_id m cid = Some eid \<and>
     status (slot m (snd k) (fst k)) \<noteq> Canceling)"
  by (auto simp: collect_cancel_slot_def Let_def split: option.splits)

lemma sorted_cancel_keys:
  "sorted_wrt (<) ks \<Longrightarrow> sorted_wrt (<) (map op_key (concat (map (collect_cancel_slot m) ks)))"
proof (induction ks)
  case (Cons k ks)
  have keys: "op_key ` set (collect_cancel_slot m x) \<subseteq> {x}" for x
    using collect_cancel_slot_cases [of m x] by (auto simp: cancel_op_def)
  have "\<forall>y \<in> op_key ` set (concat (map (collect_cancel_slot m) ks)). k < y"
    using keys Cons.prems by fastforce
  moreover have "sorted_wrt (<) (map op_key (collect_cancel_slot m k))"
    using collect_cancel_slot_cases [of m k] by auto
  moreover have "\<forall>y \<in> op_key ` set (collect_cancel_slot m k). y = k" using keys [of k] by blast
  ultimately show ?case using Cons by (simp add: sorted_wrt_append)
qed simp

lemma cancel_ops_mem:
  "op \<in> set (collect_cancel_ops m) \<Longrightarrow> op_level op < num_levels m \<and> justified m op \<and> op_action op = Cancel"
  unfolding collect_cancel_ops_def
proof -
  assume "op \<in> set (concat (map (collect_cancel_slot m) (slot_keys m)))"
  then obtain k where k: "k \<in> set (slot_keys m)" "op \<in> set (collect_cancel_slot m k)" by auto
  with collect_cancel_slot_cases [of m k] set_slot_keys [of "fst k" "snd k" m]
  show ?thesis by (auto simp: cancel_op_def justified_def)
qed

lemma mark_cancel_ops:
  assumes wf: "om_wf m"
  shows "\<exists>m'. mark_all m now (collect_cancel_ops m) = Some m' \<and> om_wf m' \<and> num_levels m' = num_levels m \<and>
     client_to_exchange m' = client_to_exchange m \<and>
     (\<forall>op \<in> set (collect_cancel_ops m). slot m' (op_side op) (op_level op) =
        pending_slot now op (slot m (op_side op) (op_level op))) \<and>
     (\<forall>s l. (l, s) \<notin> op_key ` set (collect_cancel_ops m) \<longrightarrow> slot m' s l = slot m s l)"
proof (rule mark_all_spec [OF wf])
  show "sorted_wrt (<) (map op_key (collect_cancel_ops m))"
    unfolding collect_cancel_ops_def by (rule sorted_cancel_keys [OF sorted_slot_keys])
  show "\<forall>op \<in> set (collect_cancel_ops m). op_level op < num_levels m \<and>
      (op_action op = Create \<or> order_id (slot m (op_side op) (op_level op)) \<noteq> None)"
    using cancel_ops_mem justified_pending by blast
qed

interpretation om: step_system "om_step_fun fp" om_step_ok "om_state_wf n" for fp n
proof
  fix st e
  assume "om_state_wf n st" and ok: "om_step_ok st e"
  then obtain m where st: "st = Some m" and wf: "om_wf m" and n: "num_levels m = n"
    by (auto simp: om_state_wf_def split: option.splits)
  show "om_state_wf n (om_step_fun fp st e)"
  proof (cases e)
    case (Event now evt)
    then show ?thesis using om_wf_event [OF wf, of now evt] ok st n by (auto simp: om_step_fun_def om_state_wf_def)
  next
    case (Reconcile now rs)
    have "num_levels (process_reconcile fp m now rs) = n" using n by (simp add: process_reconcile_def Let_def)
    then show ?thesis using Reconcile om_wf_reconcile [OF wf, of fp now rs] st
      by (simp add: om_step_fun_def om_state_wf_def)
  next
    case (Quote_Cycle now ls base pos thr ns hold)
    have len: "length ls \<le> num_levels m" using ok st Quote_Cycle by (simp add: om_step_ok_def)
    have "length ls \<le> length (om_bids m)" "length ls \<le> length (om_asks m)"
      using wf len by (simp_all add: om_wf_def side_slots_Buy side_slots_Sell)
    then obtain ops m1 where c: "collect_order_operations m ls base pos thr ns hold = Some (ops, m1)"
      using collect_levels_total [of 0 ls m] unfolding collect_order_operations_def by fastforce
    from collect_mark [OF wf c len, of now] c st Quote_Cycle n show ?thesis
      by (auto simp: om_step_fun_def om_state_wf_def)
  next
    case (Cancel_Cycle now)
    then show ?thesis using mark_cancel_ops [OF wf, of now] st n by (auto simp: om_step_fun_def om_state_wf_def)
  qed
qed

text \<open>
  The slot state machine: from a fresh manager, any interleaving of events, reconcile
  snapshots, quote cycles and cancel cycles whose levels fit the ladder runs without a panic
  and keeps the manager well formed, in particular a slot is idle exactly when it holds no order.
\<close>

theorem order_manager_invariant:
  assumes "admitted om_step_ok (om_step_fun fp) (Some (manager_new t0 n tick)) es"
  shows "\<exists>m. foldl (om_step_fun fp) (Some (manager_new t0 n tick)) es = Some m \<and> om_wf m \<and>
    num_levels m = n \<and>
    (\<forall>s. \<forall>lvl < n. order_id (slot m s lvl) = None \<longleftrightarrow> status (slot m s lvl) = Idle)"
proof -
  have "om_state_wf n (Some (manager_new t0 n tick))" by (simp add: om_state_wf_def)
  from om.run_inv [OF this assms] obtain m
    where "foldl (om_step_fun fp) (Some (manager_new t0 n tick)) es = Some m" "om_wf m" "num_levels m = n"
    by (auto simp: om_state_wf_def split: option.splits)
  then show ?thesis using slot_wf_slot [of m] by (auto simp: slot_wf_def)
qed

theorem order_manager_invariant_witness:
  "\<exists>m. foldl (om_step_fun (\<lambda>_. None)) (Some (manager_new 0 1 1))
     [Quote_Cycle 1 [(Some 99, Some 101)] 1 0 5 1234 False, Event 2 (BindLive Buy 0 1234 (Some 7) 99 1),
      Reconcile 3 [], Cancel_Cycle 4, Event 5 ClearAll] = Some m \<and> om_wf m"
proof -
  let ?es = "[Quote_Cycle 1 [(Some 99, Some 101)] 1 0 5 1234 False, Event 2 (BindLive Buy 0 1234 (Some 7) 99 1),
      Reconcile 3 [], Cancel_Cycle 4, Event 5 ClearAll]"
  let ?m0 = "Some (manager_new 0 1 1)"
  have q: "om_step_ok ?m0 (Quote_Cycle 1 [(Some 99, Some 101)] 1 0 5 1234 False)" by (simp add: om_step_ok_def)
  have wf0: "om_state_wf 1 ?m0" by (simp add: om_state_wf_def)
  have "om_state_wf 1 (om_step_fun (\<lambda>_. None) ?m0 (Quote_Cycle 1 [(Some 99, Some 101)] 1 0 5 1234 False))"
    using om.step_inv [OF wf0 q] .
  then have "admitted om_step_ok (om_step_fun (\<lambda>_. None)) ?m0 ?es"
    using q by (auto simp: om_step_ok_def om_state_wf_def split: option.splits)
  from order_manager_invariant [OF this] show ?thesis by blast
qed

section \<open>Reconcile\<close>

lemma slot_reconcile:
  assumes "om_wf m" "lvl < num_levels m"
  shows "slot (process_reconcile fp m now rs) s lvl =
    reconcile_refresh fp now (by_client rs) s (reconcile_missing now (live_ids rs) (slot m s lvl))"
  using assms by (simp add: slot_def side_slots_reconcile om_wf_def)

lemma order_id_refresh [simp]: "order_id (reconcile_refresh fp now rows s x) = order_id x"
  by (auto simp: reconcile_refresh_def Let_def bind_live_slot_def split: option.splits)

lemma refresh_unlisted: "order_id x = Some c \<Longrightarrow> rows c = None \<Longrightarrow> reconcile_refresh fp now rows s x = x"
  by (simp add: reconcile_refresh_def)

lemma refresh_idle: "order_id x = None \<Longrightarrow> reconcile_refresh fp now rows s x = x"
  by (simp add: reconcile_refresh_def)

lemma by_client_None: "by_client rs c = None \<longleftrightarrow> (\<forall>o' \<in> set rs. ro_client_order_index o' \<noteq> Some c)"
  by (auto simp: by_client_def map_of_eq_None_iff image_iff List.map_filter_def split: option.splits)

lemma live_ids_mem: "c \<in> live_ids rs \<longleftrightarrow> (\<exists>o' \<in> set rs. is_live o' \<and> ro_client_order_index o' = Some c)"
  by (auto simp: live_ids_def set_map_filter)

text \<open>
  The reconcile debounce. A snapshot clears an occupied slot only if it does not list the
  order as live, the order was missing in the previous snapshot too, and the slot has been
  unchanged for the whole grace period; otherwise the slot keeps its order. So one stale or
  partial snapshot, or a snapshot too close to the placement, never frees a slot.
\<close>

theorem reconcile_debounced:
  assumes "om_wf m" "lvl < num_levels m" and id: "order_id (slot m s lvl) = Some c"
  shows "order_id (slot (process_reconcile fp m now rs) s lvl) =
    (if c \<notin> live_ids rs \<and> 1 \<le> miss (slot m s lvl) \<and> RECONCILE_GRACE \<le> now - updated_at (slot m s lvl)
     then None else Some c)"
  using id unfolding slot_reconcile [OF assms(1,2)] order_id_refresh
  by (auto simp: reconcile_missing_def Let_def idle_slot_def MISSING_RECONCILE_DEBOUNCE_def)

lemma bind_live_occupied:
  assumes "om_wf m" "lvl < num_levels m"
  shows "\<exists>m'. apply_event m now (BindLive s lvl c None p z) = Some m' \<and> om_wf m' \<and> num_levels m' = num_levels m \<and>
    order_id (slot m' s lvl) = Some c \<and> miss (slot m' s lvl) = 0 \<and> updated_at (slot m' s lvl) = now"
proof -
  have len: "lvl < length (side_slots m s)" using assms by (simp add: om_wf_def)
  have "om_wf (bind_live m now s lvl c p z)"
    unfolding bind_live_def using assms(1) by (intro om_wf_slot_mut) auto
  with len show ?thesis
    by (auto simp: apply_event_def bind_live_def slot_slot_mut bind_live_slot_def)
qed

theorem reconcile_debounced_witness:
  "\<exists>m'. apply_event (manager_new 0 1 1) 0 (BindLive Buy 0 5 None 99 1) = Some m' \<and>
     order_id (slot (process_reconcile (\<lambda>_. None) m' 9000000000 []) Buy 0) = Some 5"
proof -
  obtain m' where m': "apply_event (manager_new 0 1 1) 0 (BindLive Buy 0 5 None 99 1) = Some m'"
    "om_wf m'" "num_levels m' = 1" "order_id (slot m' Buy 0) = Some 5" "miss (slot m' Buy 0) = 0"
    using bind_live_occupied [of "manager_new 0 1 1" 0 0 Buy 5 99 1] by auto
  from reconcile_debounced [OF m'(2) _ m'(4), of "\<lambda>_. None" 9000000000 "[]"] m' show ?thesis by auto
qed

text \<open>
  C39. Two consecutive snapshots without the order free its slot: if neither lists the id at
  all and the slot was last touched at least the grace period before the second one, it is idle
  afterwards (a lost order does not block its level for ever).
\<close>

theorem reconcile_clears_lost_order:
  assumes wf: "om_wf m" and lvl: "lvl < num_levels m" and id: "order_id (slot m s lvl) = Some c"
    and r1: "by_client rs1 c = None" and r2: "by_client rs2 c = None"
    and aged: "RECONCILE_GRACE \<le> t2 - updated_at (slot m s lvl)"
  shows "status (slot (process_reconcile fp (process_reconcile fp m t1 rs1) t2 rs2) s lvl) = Idle"
proof -
  let ?x = "slot m s lvl" and ?m1 = "process_reconcile fp m t1 rs1"
  have dead: "c \<notin> live_ids rs1" "c \<notin> live_ids rs2" using r1 r2 by (auto simp: live_ids_mem by_client_None)
  have wf1: "om_wf ?m1" "lvl < num_levels ?m1"
    using om_wf_reconcile [OF wf] lvl by (simp_all add: process_reconcile_def Let_def)
  let ?y = "reconcile_missing t1 (live_ids rs1) ?x"
  have y: "?y = idle_slot t1 \<or> (order_id ?y = Some c \<and> 1 \<le> miss ?y \<and> updated_at ?y = updated_at ?x)"
    using id dead(1) by (auto simp: reconcile_missing_def Let_def)
  have s1: "slot ?m1 s lvl = ?y"
    unfolding slot_reconcile [OF wf lvl] using y r1
    by (auto simp: reconcile_refresh_def idle_slot_def)
  have "reconcile_missing t2 (live_ids rs2) ?y = idle_slot t1 \<or> reconcile_missing t2 (live_ids rs2) ?y = idle_slot t2"
    using y dead(2) aged by (auto simp: reconcile_missing_def Let_def idle_slot_def MISSING_RECONCILE_DEBOUNCE_def)
  then show ?thesis
    unfolding slot_reconcile [OF wf1] s1 by (auto simp: refresh_idle idle_slot_def)
qed

theorem reconcile_clears_lost_order_witness:
  "\<exists>m'. apply_event (manager_new 0 1 1) 0 (BindLive Buy 0 5 None 99 1) = Some m' \<and>
     status (slot (process_reconcile (\<lambda>_. None) (process_reconcile (\<lambda>_. None) m' 1 []) 5000000000 []) Buy 0) = Idle"
proof -
  obtain m' where m': "apply_event (manager_new 0 1 1) 0 (BindLive Buy 0 5 None 99 1) = Some m'"
    "om_wf m'" "num_levels m' = 1" "order_id (slot m' Buy 0) = Some 5" "updated_at (slot m' Buy 0) = 0"
    using bind_live_occupied [of "manager_new 0 1 1" 0 0 Buy 5 99 1] by auto
  have "by_client [] 5 = None" "RECONCILE_GRACE \<le> 5000000000 - updated_at (slot m' Buy 0)"
    by (simp_all add: by_client_None RECONCILE_GRACE_def m')
  with reconcile_clears_lost_order [OF m'(2) _ m'(4)] m' show ?thesis by fastforce
qed

text \<open>
  A row with a terminal status keeps its slot: when every snapshot still lists the order
  with a status such as \<open>filled\<close> (so it is not live) on the right side with a price and a
  size, the refresh loop binds the slot live again and resets the miss counter, so the order is
  never cleared, no matter how many snapshots report it dead.
\<close>

theorem terminal_row_never_cleared:
  assumes wf: "om_wf m" and lvl: "lvl < num_levels m" and id: "order_id (slot m s lvl) = Some c"
    and miss: "miss (slot m s lvl) = 0"
    and row: "by_client rs c = Some r" "ro_is_ask r = Some (is_ask s)" "ro_price r = Some ps"
      "ro_remaining_base_amount r = Some zs" and dead: "c \<notin> live_ids rs"
  shows "status (slot (foldl (\<lambda>m t. process_reconcile fp m t rs) m (t # ts)) s lvl) = Live \<and>
    order_id (slot (foldl (\<lambda>m t. process_reconcile fp m t rs) m (t # ts)) s lvl) = Some c"
proof -
  have step: "om_wf (process_reconcile fp m t rs) \<and> lvl < num_levels (process_reconcile fp m t rs) \<and>
      order_id (slot (process_reconcile fp m t rs) s lvl) = Some c \<and>
      miss (slot (process_reconcile fp m t rs) s lvl) = 0 \<and> status (slot (process_reconcile fp m t rs) s lvl) = Live"
    if "om_wf m" "lvl < num_levels m" "order_id (slot m s lvl) = Some c" "miss (slot m s lvl) = 0" for m t
  proof -
    have "order_id (reconcile_missing t (live_ids rs) (slot m s lvl)) = Some c"
      using that by (simp add: reconcile_missing_def Let_def MISSING_RECONCILE_DEBOUNCE_def)
    then have "slot (process_reconcile fp m t rs) s lvl =
        bind_live_slot t c (parse_f64 fp ps) (parse_f64 fp zs) (reconcile_missing t (live_ids rs) (slot m s lvl))"
      unfolding slot_reconcile [OF that(1,2)] reconcile_refresh_def using row by (cases s) (auto simp: is_ask_def)
    then show ?thesis
      using om_wf_reconcile [OF that(1)] that(2) by (auto simp: bind_live_slot_def process_reconcile_def Let_def)
  qed
  show ?thesis using wf lvl id miss
  proof (induction ts arbitrary: m t)
    case (Cons u ts)
    have "om_wf (process_reconcile fp m t rs) \<and> lvl < num_levels (process_reconcile fp m t rs) \<and>
      order_id (slot (process_reconcile fp m t rs) s lvl) = Some c \<and> miss (slot (process_reconcile fp m t rs) s lvl) = 0"
      using step [OF Cons.prems, of t] by blast
    then show ?case using Cons.IH [of "process_reconcile fp m t rs" u] by simp
  qed (use step in auto)
qed

theorem terminal_row_never_cleared_witness:
  "\<exists>m'. apply_event (manager_new 0 1 1) 0 (BindLive Buy 0 5 None 99 1) = Some m' \<and>
     status (slot (foldl (\<lambda>m t. process_reconcile (\<lambda>_. Some 1) m t
       [\<lparr>ro_client_order_index = Some 5, ro_order_index = Some 7, ro_is_ask = Some False, ro_price = Some ''99'',
         ro_remaining_base_amount = Some ''0'', ro_filled_base_amount = None, ro_status = Some ''filled''\<rparr>])
       m' [10000000000, 20000000000, 30000000000]) Buy 0) = Live"
proof -
  let ?r = "\<lparr>ro_client_order_index = Some 5, ro_order_index = Some 7, ro_is_ask = Some False, ro_price = Some ''99'',
         ro_remaining_base_amount = Some ''0'', ro_filled_base_amount = None, ro_status = Some ''filled''\<rparr>"
  obtain m' where m': "apply_event (manager_new 0 1 1) 0 (BindLive Buy 0 5 None 99 1) = Some m'"
    "om_wf m'" "num_levels m' = 1" "order_id (slot m' Buy 0) = Some 5" "miss (slot m' Buy 0) = 0"
    using bind_live_occupied [of "manager_new 0 1 1" 0 0 Buy 5 99 1] by auto
  have row: "by_client [?r] 5 = Some ?r" by (simp add: by_client_def List.map_filter_def)
  have ask: "ro_is_ask ?r = Some (is_ask Buy)" by (simp add: is_ask_def)
  have dead: "5 \<notin> live_ids [?r]" by (simp add: live_ids_mem is_live_def)
  from terminal_row_never_cleared [OF m'(2) _ m'(4,5) row ask _ _ dead, of "''99''" "''0''" "\<lambda>_. Some 1" 10000000000 "[20000000000, 30000000000]"] m'
  show ?thesis by auto
qed

section \<open>The id map\<close>

lemma map_of_take_None: "map_of xs k = None \<Longrightarrow> map_of (take n xs) k = None"
  by (metis map_of_eq_None_iff set_take_subset image_mono subsetD)

lemma map_of_filter_live: "k \<in> live \<Longrightarrow> map_of (filter (\<lambda>(k, _). k \<in> live) m) k = map_of m k"
  by (induction m) auto

lemma prune_keeps_live:
  assumes "k \<in> live"
  shows "map_of (prune_id_map live m) k = map_of m k"
proof -
  let ?o = "rev (sort_key fst (filter (\<lambda>(k, _). k \<notin> live) m))"
  have "k \<notin> fst ` set ?o" using assms by auto
  then have "map_of (take 100 ?o) k = None" by (intro map_of_take_None) (simp only: map_of_eq_None_iff not_False_eq_True)
  with map_of_filter_live [OF assms, of m] show ?thesis by (auto simp: prune_id_map_def Let_def map_add_def split: option.splits)
qed

lemma length_filter_live:
  assumes "distinct (map fst m)" "finite live"
  shows "length (filter (\<lambda>(k, _). k \<in> live) m) \<le> card live"
proof -
  let ?f = "filter (\<lambda>(k, _). k \<in> live) m"
  have "distinct (map fst ?f)" using assms(1) by (rule distinct_map_filter)
  then have "length ?f = card (fst ` set ?f)" using distinct_card [of "map fst ?f"] by simp
  also have "\<dots> \<le> card live" using assms(2) by (intro card_mono) auto
  finally show ?thesis .
qed

lemma card_tracked: "card (set (tracked_client_ids m)) \<le> length (om_bids m) + length (om_asks m)"
  using card_length [of "tracked_client_ids m"] length_map_filter [of order_id "om_bids m @ om_asks m"]
  by (simp add: tracked_client_ids_def)

lemma tracked_iff: "om_wf m \<Longrightarrow> k \<in> set (tracked_client_ids m) \<longleftrightarrow> (\<exists>s. \<exists>lvl < num_levels m. order_id (slot m s lvl) = Some k)"
proof -
  assume wf: "om_wf m"
  have "set (tracked_client_ids m) = {y. \<exists>s. \<exists>x \<in> set (side_slots m s). order_id x = Some y}"
    by (auto simp: ex_side tracked_client_ids_def set_map_filter side_slots_def)
  then show ?thesis using wf by (force simp: om_wf_def slot_def in_set_conv_nth)
qed

text \<open>
  The id map is bounded and never forgets a tracked order: after any update it has at most
  \<open>max 200 (2 * num_levels + 100)\<close> entries, and every client id held by a slot resolves to the
  exchange id last recorded for it.
\<close>

theorem id_map_bounded_and_keeps_live:
  assumes wf: "om_wf m" and cap: "length (client_to_exchange m) \<le> max ID_MAP_CAP (2 * num_levels m + 100)"
    and k: "k \<in> set (tracked_client_ids m)"
  shows "length (client_to_exchange (record_id_mapping m c e)) \<le> max ID_MAP_CAP (2 * num_levels m + 100) \<and>
    resolve_exchange_id (record_id_mapping m c e) k = (if k = c then Some e else resolve_exchange_id m k)"
proof -
  let ?u = "AList.update c e (client_to_exchange m)" and ?live = "set (tracked_client_ids m)"
  have d: "distinct (map fst ?u)" using wf by (simp add: om_wf_def distinct_update)
  have "card ?live \<le> 2 * num_levels m"
    using card_tracked [of m] wf by (simp add: om_wf_def side_slots_Buy side_slots_Sell mult_2)
  then have "length (prune_id_map ?live ?u) \<le> 2 * num_levels m + 100"
    using length_filter_live [OF d, of ?live] by (simp add: prune_id_map_def Let_def)
  then have "length (client_to_exchange (record_id_mapping m c e)) \<le> max ID_MAP_CAP (2 * num_levels m + 100)"
    by (auto simp: record_id_mapping_def Let_def)
  moreover have "resolve_exchange_id (record_id_mapping m c e) k = map_of ?u k"
    using prune_keeps_live [OF k, of ?u] by (simp add: resolve_exchange_id_def record_id_mapping_def Let_def)
  ultimately show ?thesis by (simp add: update_conv' resolve_exchange_id_def)
qed

theorem id_map_bounded_and_keeps_live_witness:
  "\<exists>m'. apply_event (manager_new 0 1 1) 0 (BindLive Buy 0 5 None 99 1) = Some m' \<and>
     resolve_exchange_id (record_id_mapping m' 5 77) 5 = Some 77"
proof -
  obtain m' where m': "apply_event (manager_new 0 1 1) 0 (BindLive Buy 0 5 None 99 1) = Some m'"
    and wf: "om_wf m'" and s: "num_levels m' = 1" "order_id (slot m' Buy 0) = Some 5"
    using bind_live_occupied [of "manager_new 0 1 1" 0 0 Buy 5 99 1] by auto
  have t: "5 \<in> set (tracked_client_ids m')" using s by (auto simp: tracked_iff [OF wf])
  have "client_to_exchange m' = []"
    using m' by (auto simp: apply_event_def bind_live_def manager_new_def split: if_splits)
  with id_map_bounded_and_keeps_live [OF wf _ t, of 5 77] m' show ?thesis by auto
qed

section \<open>Releasing a slot\<close>

text \<open>
  Only its own order's end frees a slot: an event that clears an occupied slot is a clear
  naming that very order (or the wildcard 0), a clear of everything, or a fill that leaves no
  more than the tolerance of that order's size. A late clear for an older order, an id
  resolution and every other fill leave the order in place.
\<close>

theorem only_own_end_frees_slot:
  assumes wf: "om_wf m" and lvl: "lvl < num_levels m" and id: "order_id (slot m s lvl) = Some c"
    and ev: "apply_event m now evt = Some m'" and freed: "order_id (slot m' s lvl) = None"
  shows "evt = ClearLive s lvl c \<or> evt = ClearLive s lvl 0 \<or> evt = ClearAll \<or>
    (\<exists>f. evt = Fill c f \<and> (\<forall>z. slot_size (slot m s lvl) = Some z \<longrightarrow> z - f \<le> max (om_amount_tick m) EPSILON))"
proof -
  have len: "l < length (side_slots m t) \<longleftrightarrow> l < num_levels m" for t l using wf by (simp add: om_wf_def)
  show ?thesis
  proof (cases evt)
    case (BindLive t l cid eid p z)
    let ?m = "case eid of None \<Rightarrow> m | Some e \<Rightarrow> record_id_mapping m cid e"
    have sl: "slot ?m s lvl = slot m s lvl" "side_slots ?m t = side_slots m t" by (auto split: option.splits)
    from ev BindLive have l: "l < length (side_slots ?m t)" "m' = bind_live ?m now t l cid p z"
      by (auto simp: apply_event_def sl split: if_splits)
    with freed id show ?thesis by (auto simp: bind_live_def slot_slot_mut sl bind_live_slot_def split: if_splits)
  next
    case (ClearLive t l cid)
    then show ?thesis using ev freed id
      by (auto simp: apply_event_def clear_live_def slot_slot_mut split: if_splits)
  next
    case (IdResolved cid eid)
    then show ?thesis using ev freed id by (auto simp: apply_event_def)
  next
    case (Fill cid f)
    then have m': "m' = apply_fill m now cid f" using ev by (simp add: apply_event_def)
    show ?thesis
    proof (cases "List.find (\<lambda>(lvl, s). order_id (slot m s lvl) = Some cid) (slot_keys m)")
      case None
      then show ?thesis using freed id by (simp add: m' apply_fill_def)
    next
      case (Some k)
      obtain l t where k: "k = (l, t)" by (cases k)
      have kl: "l < length (side_slots m t)" "order_id (slot m t l) = Some cid"
        using find_slot_key Some k len by fastforce+
      have "t = s \<and> l = lvl \<and> (\<forall>z. slot_size (slot m t l) = Some z \<longrightarrow> z - f \<le> max (om_amount_tick m) EPSILON)"
        using freed id kl Some k unfolding m' apply_fill_def
        by (auto simp: Let_def clear_live_def slot_slot_mut split: if_splits option.splits)
      then show ?thesis using kl(2) id Fill by auto
    qed
  qed simp
qed

theorem only_own_end_frees_slot_witness:
  "\<exists>m1 m2. apply_event (manager_new 0 1 1) 0 (BindLive Buy 0 5 None 99 3) = Some m1 \<and>
     apply_event m1 1 (Fill 5 3) = Some m2 \<and> order_id (slot m2 Buy 0) = None \<and>
     (\<exists>f. Fill 5 3 = Fill 5 f)"
proof -
  obtain m1 where m1: "apply_event (manager_new 0 1 1) 0 (BindLive Buy 0 5 None 99 3) = Some m1"
    "om_wf m1" "num_levels m1 = 1" "order_id (slot m1 Buy 0) = Some 5"
    using bind_live_occupied [of "manager_new 0 1 1" 0 0 Buy 5 99 3] by auto
  have e: "apply_event m1 1 (Fill 5 3) = Some (apply_fill m1 1 5 3)" by (simp add: apply_event_def)
  have "order_id (slot (apply_fill m1 1 5 3) Buy 0) = None"
    using m1(1) by (auto simp: apply_event_def apply_fill_def bind_live_def manager_new_def slot_mut_def
        side_slots_def slot_def slot_keys_def bind_live_slot_def clear_live_def idle_slot_def Let_def
        EPSILON_def split: if_splits)
  with only_own_end_frees_slot [OF m1(2) _ m1(4) e] m1 e show ?thesis by auto
qed

section \<open>Cancel cycles and published ids\<close>

text \<open>
  A cancel cycle covers every order it can name and never repeats itself: it cancels
  exactly the occupied slots with a resolved exchange id that are not already cancelling, and
  once its operations are marked, a second collection is empty.
\<close>

theorem cancel_cycle_complete_and_idempotent:
  assumes wf: "om_wf m"
  shows "(\<forall>s lvl. lvl < num_levels m \<longrightarrow>
      ((\<exists>op \<in> set (collect_cancel_ops m). op_key op = (lvl, s)) \<longleftrightarrow>
       (\<exists>c. order_id (slot m s lvl) = Some c \<and> resolve_exchange_id m c \<noteq> None) \<and>
       status (slot m s lvl) \<noteq> Canceling)) \<and>
    (\<exists>m'. mark_all m now (collect_cancel_ops m) = Some m' \<and> collect_cancel_ops m' = [])"
proof -
  have mem: "(\<exists>op \<in> set (collect_cancel_ops n). op_key op = (lvl, s)) \<longleftrightarrow>
       (\<exists>c. order_id (slot n s lvl) = Some c \<and> resolve_exchange_id n c \<noteq> None) \<and> status (slot n s lvl) \<noteq> Canceling"
    if "lvl < num_levels n" for n s lvl
  proof -
    have keys: "op \<in> set (collect_cancel_slot n k) \<Longrightarrow> op_key op = k" for op k
      using collect_cancel_slot_cases [of n k] by (auto simp: cancel_op_def)
    have "(\<exists>op \<in> set (collect_cancel_ops n). op_key op = (lvl, s)) \<longleftrightarrow> collect_cancel_slot n (lvl, s) \<noteq> []"
    proof
      assume "\<exists>op \<in> set (collect_cancel_ops n). op_key op = (lvl, s)"
      then obtain op k where "op \<in> set (collect_cancel_slot n k)" "op_key op = (lvl, s)"
        by (auto simp: collect_cancel_ops_def)
      with keys [of op k] show "collect_cancel_slot n (lvl, s) \<noteq> []" by auto
    next
      assume "collect_cancel_slot n (lvl, s) \<noteq> []"
      then obtain op where op: "op \<in> set (collect_cancel_slot n (lvl, s))" by (meson list.set_sel(1))
      have "(lvl, s) \<in> set (slot_keys n)" using that by (simp add: set_slot_keys)
      with op have "op \<in> set (collect_cancel_ops n)" unfolding collect_cancel_ops_def set_concat set_map by (intro UN_I) auto
      with keys [OF op] show "\<exists>op \<in> set (collect_cancel_ops n). op_key op = (lvl, s)" by blast
    qed
    then show ?thesis by (auto simp: collect_cancel_slot_def Let_def split: option.splits)
  qed
  obtain m' where m': "mark_all m now (collect_cancel_ops m) = Some m'" "num_levels m' = num_levels m"
      "client_to_exchange m' = client_to_exchange m"
    and new: "\<forall>op \<in> set (collect_cancel_ops m). slot m' (op_side op) (op_level op) =
        pending_slot now op (slot m (op_side op) (op_level op))"
    and old: "\<forall>s l. (l, s) \<notin> op_key ` set (collect_cancel_ops m) \<longrightarrow> slot m' s l = slot m s l"
    using mark_cancel_ops [OF wf, of now] by blast
  have "collect_cancel_ops m' = []"
  proof (rule ccontr)
    assume "collect_cancel_ops m' \<noteq> []"
    then obtain op' where op': "op' \<in> set (collect_cancel_ops m')" by (metis list.set_sel(1))
    define s lvl where "s = op_side op'" and "lvl = op_level op'"
    have l: "lvl < num_levels m" using cancel_ops_mem [OF op'] m'(2) by (simp add: lvl_def)
    have cond: "(\<exists>c. order_id (slot m' s lvl) = Some c \<and> resolve_exchange_id m' c \<noteq> None) \<and> status (slot m' s lvl) \<noteq> Canceling"
      using mem [of lvl m' s] l m'(2) op' by (auto simp: s_def lvl_def)
    show False
    proof (cases "\<exists>op \<in> set (collect_cancel_ops m). op_key op = (lvl, s)")
      case True
      then obtain op where op: "op \<in> set (collect_cancel_ops m)" "op_level op = lvl" "op_side op = s" by auto
      then have "status (slot m' s lvl) = Canceling"
        using new cancel_ops_mem [OF op(1)] by (auto simp: pending_slot_def)
      with cond show False by simp
    next
      case False
      then have "(lvl, s) \<notin> op_key ` set (collect_cancel_ops m)" by auto
      then have "slot m' s lvl = slot m s lvl" using old by blast
      with cond False mem [OF l, of s] m'(3) show False by (auto simp: resolve_exchange_id_def)
    qed
  qed
  with m'(1) mem show ?thesis by blast
qed

theorem cancel_cycle_complete_and_idempotent_witness:
  "\<exists>m'. mark_all (manager_new 0 2 1) 5 (collect_cancel_ops (manager_new 0 2 1)) = Some m' \<and> collect_cancel_ops m' = []"
  using cancel_cycle_complete_and_idempotent [OF om_wf_new, of 0 2 1 5] by blast

lemma ids_equal_from_drop:
  "i \<le> length prev \<Longrightarrow> ids_equal_from xs prev i \<longleftrightarrow> List.map_filter order_id xs = drop i prev"
proof (induction xs prev i rule: ids_equal_from.induct)
  case (1 prev i)
  then show ?case by (auto simp: List.map_filter_simps)
next
  case (2 x xs prev i)
  show ?case
  proof (cases "order_id x")
    case (Some c)
    show ?thesis
    proof (cases "length prev \<le> i")
      case False
      then have "drop i prev = prev ! i # drop (Suc i) prev" by (simp add: Cons_nth_drop_Suc)
      then show ?thesis using 2 Some False by (auto simp: List.map_filter_simps)
    qed (use 2 Some in \<open>simp add: List.map_filter_simps\<close>)
  qed (use 2 in \<open>simp add: List.map_filter_simps\<close>)
qed

text \<open>
  The allocation-free comparison of the tracked ids with the list published last decides
  exactly whether the list the reconcile poller reads is still current.
\<close>

theorem tracked_ids_equal_correct: "tracked_ids_equal m prev \<longleftrightarrow> tracked_client_ids m = prev"
  by (simp add: tracked_ids_equal_def tracked_client_ids_def ids_equal_from_drop)

end
