(* ===== verification/Rate_Limit.thy ===== *)
theory Rate_Limit
  imports Messages "HOL-Library.Char_ord"
begin

text \<open>
  \<^verbatim>\<open>src/src/exec/rate_limit.rs\<close>: the sliding operation window, the volume-quota pacing and
  the global 429 backoff. The gate \<open>write_slot\<close> reads the clock and sleeps between its phases;
  here it takes the time it is called at and, for every point where it reads the clock or wakes
  up, the delay \<open>e k\<close> the scheduler adds, and returns the time it finishes at. Messages are
  ASCII strings.
\<close>

section \<open>Constants\<close>

definition RL_OPS_PER_WINDOW :: nat where "RL_OPS_PER_WINDOW = 40"
definition RL_WINDOW_SECONDS :: f64 where "RL_WINDOW_SECONDS = 60"
definition RL_CANCEL_MIN_INTERVAL :: f64 where "RL_CANCEL_MIN_INTERVAL = 1 / 2"
definition RL_QUOTA_HIGH :: int where "RL_QUOTA_HIGH = 500"
definition RL_QUOTA_MEDIUM :: int where "RL_QUOTA_MEDIUM = 50"
definition RL_QUOTA_LOW :: int where "RL_QUOTA_LOW = 10"
definition RL_FREE_SLOT_INTERVAL :: f64 where "RL_FREE_SLOT_INTERVAL = 15"
definition RL_BACKOFF_BASE :: f64 where "RL_BACKOFF_BASE = 15"
definition RL_BACKOFF_MAX :: f64 where "RL_BACKOFF_MAX = 120"
definition RL_BACKOFF_RESET_AFTER :: nat where "RL_BACKOFF_RESET_AFTER = 2"
definition BACKOFF_DECAY_SECS :: f64 where "BACKOFF_DECAY_SECS = 300"
definition BACKOFF_SLEEP_THRESHOLD :: f64 where "BACKOFF_SLEEP_THRESHOLD = 2"
definition WINDOW_SKIP_THRESHOLD :: f64 where "WINDOW_SKIP_THRESHOLD = 30"

text \<open>\<open>f64::MAX\<close>.\<close>

definition F64_MAX :: f64 where "F64_MAX = (2 - 1 / 2 ^ 52) * 2 ^ 1023"

section \<open>Classification of error messages\<close>

definition to_lower_char :: "char \<Rightarrow> char" where
  "to_lower_char c = (if CHR ''A'' \<le> c \<and> c \<le> CHR ''Z'' then char_of (of_char c + (32 :: nat)) else c)"

definition to_lowercase :: "string \<Rightarrow> string" where
  "to_lowercase s = map to_lower_char s"

definition is_quota_error :: "string \<Rightarrow> bool" where
  "is_quota_error msg =
     (let m = to_lowercase msg
      in (str_contains m ''not enough'' \<and> str_contains m ''quota'') \<or>
         (str_contains m ''quota'' \<and> str_contains m ''exhausted''))"

definition quota_adaptive_threshold_bps :: "f64 \<Rightarrow> int option \<Rightarrow> f64" where
  "quota_adaptive_threshold_bps base quota =
     (case quota of
        None \<Rightarrow> base
      | Some q \<Rightarrow> if RL_QUOTA_HIGH \<le> q then base
                  else if RL_QUOTA_MEDIUM \<le> q then base * 2
                  else if RL_QUOTA_LOW \<le> q then base * (35 / 10)
                  else base * 5)"

datatype reject_kind = Quota | RateLimit | Nonce | MakerOnly | Other

text \<open>The apostrophe of \<open>didn't\<close> is character 39.\<close>

definition didnt_use :: string where
  "didnt_use = ''didn'' @ [CHR 0x27] @ ''t use''"

definition classify_reject :: "string \<Rightarrow> reject_kind" where
  "classify_reject msg =
     (let m = to_lowercase msg
      in if str_contains m ''quota'' \<and> \<not> str_contains m ''remained'' \<and> \<not> str_contains m didnt_use then Quota
         else if str_contains m ''429'' \<or> str_contains m ''too many'' then RateLimit
         else if str_contains m ''nonce'' then Nonce
         else if str_contains m ''maker-only api key'' \<or> str_contains m ''maker only api key'' \<or>
                 str_contains m ''0ms delay transactions'' then MakerOnly
         else Other)"

definition is_transient_error :: "string \<Rightarrow> bool" where
  "is_transient_error msg =
     (let m = to_lowercase msg
      in str_contains m ''429'' \<or> str_contains m ''too many'' \<or>
         (str_contains m ''not enough'' \<and> str_contains m ''quota'') \<or> str_contains m ''invalid nonce'')"

section \<open>The limiter\<close>

record rate_limiter =
  rl_window :: "instant list"
  last_send :: "instant option"
  global_backoff_until :: "instant option"
  backoff_level :: nat
  consecutive_successes :: nat
  last_backoff_trigger :: "instant option"
  rl_quota :: "int option"
  default_quote_update_threshold_bps :: f64
  min_send_interval :: f64

definition limiter_new :: "f64 \<Rightarrow> f64 \<Rightarrow> rate_limiter" where
  "limiter_new thr interval =
     \<lparr>rl_window = [], last_send = None, global_backoff_until = None, backoff_level = 0,
      consecutive_successes = 0, last_backoff_trigger = None, rl_quota = None,
      default_quote_update_threshold_bps = thr, min_send_interval = interval\<rparr>"

definition set_quota :: "rate_limiter \<Rightarrow> int option \<Rightarrow> rate_limiter" where
  "set_quota rl v = rl\<lparr>rl_quota := v\<rparr>"

text \<open>\<open>str::trim\<close> and \<open>str::parse::<i64>\<close>.\<close>

definition is_space :: "char \<Rightarrow> bool" where
  "is_space c \<longleftrightarrow> c \<in> {CHR '' '', CHR 0x09, CHR 0x0A, CHR 0x0B, CHR 0x0C, CHR 0x0D}"

definition trim :: "string \<Rightarrow> string" where
  "trim s = rev (dropWhile is_space (rev (dropWhile is_space s)))"

definition digit :: "char \<Rightarrow> int option" where
  "digit c = (if CHR ''0'' \<le> c \<and> c \<le> CHR ''9'' then Some (of_char c - 48) else None)"

fun parse_digits :: "int \<Rightarrow> string \<Rightarrow> int option" where
  "parse_digits acc [] = Some acc"
| "parse_digits acc (c # cs) =
     (case digit c of None \<Rightarrow> None | Some d \<Rightarrow> parse_digits (acc * 10 + d) cs)"

definition parse_i64 :: "string \<Rightarrow> int option" where
  "parse_i64 s =
     (let (neg, ds) = (case s of [] \<Rightarrow> (False, [])
                       | c # cs \<Rightarrow> if c = CHR ''-'' then (True, cs)
                                   else if c = CHR ''+'' then (False, cs) else (False, s))
      in if ds = [] then None
         else case parse_digits 0 ds of
                None \<Rightarrow> None
              | Some v \<Rightarrow> let n = (if neg then - v else v)
                          in if i64_min \<le> n \<and> n \<le> i64_max then Some n else None)"

definition update_volume_quota :: "rate_limiter \<Rightarrow> string option \<Rightarrow> rate_limiter" where
  "update_volume_quota rl raw =
     (case raw of
        None \<Rightarrow> rl
      | Some s \<Rightarrow> if s = ''?'' then rl
                  else case parse_i64 (trim s) of None \<Rightarrow> rl | Some v \<Rightarrow> rl\<lparr>rl_quota := Some v\<rparr>)"

definition update_volume_quota_i64 :: "rate_limiter \<Rightarrow> int \<Rightarrow> rate_limiter" where
  "update_volume_quota_i64 rl v = rl\<lparr>rl_quota := Some v\<rparr>"

definition prune_op_window_at :: "rate_limiter \<Rightarrow> instant \<Rightarrow> nat \<times> rate_limiter" where
  "prune_op_window_at rl now =
     (let cutoff = now - from_secs_f64 RL_WINDOW_SECONDS;
          w = dropWhile (\<lambda>front. front < cutoff) (rl_window rl)
      in (length w, rl\<lparr>rl_window := w\<rparr>))"

definition ops_available_at :: "rate_limiter \<Rightarrow> instant \<Rightarrow> nat \<times> rate_limiter" where
  "ops_available_at rl now =
     (let (used, rl') = prune_op_window_at rl now in (RL_OPS_PER_WINDOW - used, rl'))"

definition time_until_ops_free_at :: "rate_limiter \<Rightarrow> nat \<Rightarrow> instant \<Rightarrow> f64 \<times> rate_limiter" where
  "time_until_ops_free_at rl n now =
     (let (len, rl') = prune_op_window_at rl now
      in if len = 0 \<or> len + n \<le> RL_OPS_PER_WINDOW then (0, rl')
         else let idx = int len - (int RL_OPS_PER_WINDOW - int n)
              in if idx < 0 then (0, rl')
                 else let idx' = (if int len \<le> idx then int len - 1 else idx);
                          expires_at = rl_window rl' ! nat idx' + from_secs_f64 RL_WINDOW_SECONDS
                      in if expires_at \<le> now then (0, rl') else (as_secs_f64 (expires_at - now), rl'))"

definition record_ops_sent_at :: "rate_limiter \<Rightarrow> nat \<Rightarrow> instant \<Rightarrow> rate_limiter" where
  "record_ops_sent_at rl cnt now =
     rl\<lparr>rl_window := rl_window rl @ replicate cnt now, last_send := Some now\<rparr>"

text \<open>The pacing multiplier; \<open>Infinite\<close> is \<open>f64::INFINITY\<close>.\<close>

datatype pace = Finite f64 | Infinite

definition quota_pace_multiplier :: "rate_limiter \<Rightarrow> pace" where
  "quota_pace_multiplier rl =
     (case rl_quota rl of
        None \<Rightarrow> Finite 1
      | Some q \<Rightarrow> if RL_QUOTA_HIGH \<le> q then Finite 1
                  else if RL_QUOTA_MEDIUM \<le> q then Finite (15 / 10)
                  else if RL_QUOTA_LOW \<le> q then Finite 3
                  else Infinite)"

definition adaptive_threshold_bps :: "rate_limiter \<Rightarrow> f64" where
  "adaptive_threshold_bps rl = quota_adaptive_threshold_bps (default_quote_update_threshold_bps rl) (rl_quota rl)"

definition trigger_global_backoff_at :: "rate_limiter \<Rightarrow> instant \<Rightarrow> f64 \<times> rate_limiter" where
  "trigger_global_backoff_at rl now =
     (let lvl = backoff_level rl + 1;
          d = min (RL_BACKOFF_BASE * 2 ^ (lvl - 1)) RL_BACKOFF_MAX
      in (d, rl\<lparr>backoff_level := lvl, consecutive_successes := 0, last_backoff_trigger := Some now,
                global_backoff_until := Some (now + from_secs_f64 d)\<rparr>))"

definition reset_global_backoff_at :: "rate_limiter \<Rightarrow> instant \<Rightarrow> rate_limiter" where
  "reset_global_backoff_at rl now =
     (let rl1 = rl\<lparr>consecutive_successes := consecutive_successes rl + 1\<rparr>;
          cleared = rl1\<lparr>backoff_level := 0, consecutive_successes := 0\<rparr>
      in if backoff_level rl1 = 0 then rl1
         else case last_backoff_trigger rl1 of
                Some trig \<Rightarrow>
                  if BACKOFF_DECAY_SECS < as_secs_f64 (now - trig) then cleared
                  else if RL_BACKOFF_RESET_AFTER \<le> consecutive_successes rl1 then cleared else rl1
              | None \<Rightarrow> if RL_BACKOFF_RESET_AFTER \<le> consecutive_successes rl1 then cleared else rl1)"

definition in_global_backoff_at :: "rate_limiter \<Rightarrow> instant \<Rightarrow> bool" where
  "in_global_backoff_at rl now =
     (case global_backoff_until rl of None \<Rightarrow> False | Some until \<Rightarrow> now < until)"

section \<open>The gate\<close>

definition sleep_secs :: "f64 \<Rightarrow> duration" where
  "sleep_secs secs = (if 0 < secs then from_secs_f64 secs else 0)"

definition elapsed_since_last_send :: "rate_limiter \<Rightarrow> instant \<Rightarrow> f64" where
  "elapsed_since_last_send rl now =
     (case last_send rl of Some t \<Rightarrow> as_secs_f64 (now - t) | None \<Rightarrow> F64_MAX)"

text \<open>
  Each phase starts at the clock reading \<open>now\<close> and returns the next reading, or \<open>None\<close> when
  the cycle is skipped; \<open>e\<close> is the delay added by the scheduler.
\<close>

definition phase_backoff :: "rate_limiter \<Rightarrow> instant \<Rightarrow> duration \<Rightarrow> instant option" where
  "phase_backoff rl now e =
     (case global_backoff_until rl of
        None \<Rightarrow> Some (now + e)
      | Some until \<Rightarrow>
          if now < until
          then let remaining = as_secs_f64 (until - now)
               in if remaining \<le> BACKOFF_SLEEP_THRESHOLD then Some (now + sleep_secs remaining + e) else None
          else Some (now + e))"

definition phase_window ::
  "rate_limiter \<Rightarrow> nat \<Rightarrow> instant \<Rightarrow> duration \<Rightarrow> duration \<Rightarrow> (instant \<times> rate_limiter) option" where
  "phase_window rl op_count now e1 e2 =
     (let (avail, rl1) = ops_available_at rl now
      in if avail < op_count
         then let now' = now + e1;
                  (wait_time, rl2) = time_until_ops_free_at rl1 op_count now'
              in if WINDOW_SKIP_THRESHOLD < wait_time then None
                 else Some (now' + sleep_secs wait_time + e2, rl2)
         else Some (now + e2, rl1))"

definition sleep_until_elapsed :: "rate_limiter \<Rightarrow> f64 \<Rightarrow> instant \<Rightarrow> duration \<Rightarrow> instant" where
  "sleep_until_elapsed rl target now e =
     (let elapsed = elapsed_since_last_send rl now
      in if elapsed < target then now + sleep_secs (target - elapsed) + e else now + e)"

definition send_floor :: "rate_limiter \<Rightarrow> bool \<Rightarrow> f64" where
  "send_floor rl cancel_only = (if cancel_only then RL_CANCEL_MIN_INTERVAL else min_send_interval rl)"

definition phase_quota :: "rate_limiter \<Rightarrow> bool \<Rightarrow> instant \<Rightarrow> duration \<Rightarrow> instant" where
  "phase_quota rl cancel_only now e =
     (if cancel_only then now
      else case quota_pace_multiplier rl of
             Infinite \<Rightarrow> sleep_until_elapsed rl RL_FREE_SLOT_INTERVAL now e
           | Finite mlt \<Rightarrow>
               if 1 < mlt
               then let fl = send_floor rl cancel_only; extra = fl * (mlt - 1)
                    in sleep_until_elapsed rl (fl + extra) now e
               else now)"

text \<open>\<open>write_slot\<close>: \<open>None\<close> is the result \<open>false\<close>, \<open>Some\<close> the result \<open>true\<close> with its end time.\<close>

definition write_slot ::
  "rate_limiter \<Rightarrow> nat \<Rightarrow> bool \<Rightarrow> instant \<Rightarrow> (nat \<Rightarrow> duration) \<Rightarrow> instant option \<times> rate_limiter" where
  "write_slot rl op_count cancel_only now e =
     (case phase_backoff rl now (e 0) of
        None \<Rightarrow> (None, rl)
      | Some t1 \<Rightarrow>
          (case phase_window rl op_count t1 (e 1) (e 2) of
             None \<Rightarrow> (None, snd (time_until_ops_free_at (snd (ops_available_at rl t1)) op_count (t1 + e 1)))
           | Some (t2, rl2) \<Rightarrow>
               let t3 = sleep_until_elapsed rl2 (send_floor rl2 cancel_only) t2 (e 3)
               in (Some (phase_quota rl2 cancel_only t3 (e 4)), rl2)))"

section \<open>The sliding window\<close>

text \<open>The operations that count against the budget at \<open>now\<close>.\<close>

definition in_window :: "rate_limiter \<Rightarrow> instant \<Rightarrow> instant list" where
  "in_window rl now = dropWhile (\<lambda>x. x < now - from_secs_f64 RL_WINDOW_SECONDS) (rl_window rl)"

lemma prune_eq: "prune_op_window_at rl now = (length (in_window rl now), rl\<lparr>rl_window := in_window rl now\<rparr>)"
  by (simp add: prune_op_window_at_def in_window_def Let_def)

lemma in_window_filter:
  "sorted (rl_window rl) \<Longrightarrow> in_window rl now = filter (\<lambda>x. now - from_secs_f64 RL_WINDOW_SECONDS \<le> x) (rl_window rl)"
  unfolding in_window_def
  using filter_eq_dropWhile_sorted [of "rl_window rl" "\<lambda>x. now - from_secs_f64 RL_WINDOW_SECONDS \<le> x"]
  by (simp add: not_le)

lemma in_window_later:
  assumes "sorted (rl_window rl)" and "t \<le> u"
  shows "length (in_window rl u) \<le> length (in_window rl t)"
    and "in_window (rl\<lparr>rl_window := in_window rl t\<rparr>) u = in_window rl u"
proof -
  have s: "sorted (rl_window (rl\<lparr>rl_window := in_window rl t\<rparr>))"
    using assms(1) by (simp add: in_window_filter sorted_filter [where f = "\<lambda>x. x", simplified])
  have f: "filter (\<lambda>x. u - c \<le> x) (filter (\<lambda>x. t - c \<le> x) w) = filter (\<lambda>x. u - c \<le> x) w" for w and c :: int
    using assms(2) by (auto simp: filter_filter intro!: filter_cong)
  have w: "rl_window (rl\<lparr>rl_window := in_window rl t\<rparr>) = in_window rl t" by simp
  show eq: "in_window (rl\<lparr>rl_window := in_window rl t\<rparr>) u = in_window rl u"
    using in_window_filter [OF s, of u, unfolded w] in_window_filter [OF assms(1), of t] in_window_filter [OF assms(1), of u]
    by (simp only: f)
  show "length (in_window rl u) \<le> length (in_window rl t)"
    unfolding eq [symmetric] using in_window_filter [OF s, of u] by simp
qed

lemma dropWhile_beyond:
  assumes "sorted w" "i < length w" "w ! i < (c :: int)"
  shows "length (dropWhile (\<lambda>x. x < c) w) + i + 1 \<le> length w"
proof -
  have all: "x < c" if "x \<in> set (take (Suc i) w)" for x
  proof -
    from that obtain j where "j \<le> i" "x = w ! j" using assms(2) by (auto simp: in_set_conv_nth less_Suc_eq_le)
    with assms show "x < c" using sorted_nth_mono [of w j i] by auto
  qed
  have "dropWhile (\<lambda>x. x < c) (take (Suc i) w @ drop (Suc i) w) = dropWhile (\<lambda>x. x < c) (drop (Suc i) w)"
    by (rule dropWhile_append2) (rule all)
  then have "length (dropWhile (\<lambda>x. x < c) w) \<le> length (drop (Suc i) w)"
    using length_dropWhile_le [of "\<lambda>x. x < c" "drop (Suc i) w"] by simp
  with assms(2) show ?thesis by simp
qed

lemma sorted_in_window: "sorted (rl_window rl) \<Longrightarrow> sorted (in_window rl t)"
  by (simp add: in_window_def sorted_dropWhile)

lemma sleep_secs_as_secs [simp]: "0 \<le> d \<Longrightarrow> sleep_secs (as_secs_f64 d) = d"
  by (auto simp: sleep_secs_def as_secs_f64_def zero_less_divide_iff from_secs_f64_def)

text \<open>Waiting until \<open>n\<close> operations are free does free them.\<close>

lemma time_until_ops_free:
  assumes w: "sorted (rl_window rl)" and n: "n \<le> RL_OPS_PER_WINDOW" and e: "0 < e"
    and t: "time_until_ops_free_at rl n now = (wait, rl')" and T: "now + sleep_secs wait + e \<le> T"
  shows "length (in_window rl T) + n \<le> RL_OPS_PER_WINDOW" and "rl' = rl\<lparr>rl_window := in_window rl now\<rparr>"
    and "0 \<le> sleep_secs wait"
proof -
  let ?w = "in_window rl now" and ?c = "from_secs_f64 RL_WINDOW_SECONDS"
  let ?len = "length ?w"
  have sorted: "sorted ?w" by (rule sorted_in_window [OF w])
  show rl': "rl' = rl\<lparr>rl_window := in_window rl now\<rparr>"
    using t by (auto simp: time_until_ops_free_at_def prune_eq Let_def split: if_splits)
  show pos: "0 \<le> sleep_secs wait" by (simp add: sleep_secs_def from_secs_f64_nonneg)
  have later: "now \<le> T" using T pos e by linarith
  show "length (in_window rl T) + n \<le> RL_OPS_PER_WINDOW"
  proof (cases "?len = 0 \<or> ?len + n \<le> RL_OPS_PER_WINDOW")
    case True
    then show ?thesis using in_window_later(1) [OF w later] n by linarith
  next
    case False
    let ?i = "int ?len - (int RL_OPS_PER_WINDOW - int n)"
    let ?j = "if int ?len \<le> ?i then int ?len - 1 else ?i"
    have "0 < ?len" using False by linarith
    then have j: "nat ?j < ?len" "0 \<le> ?i" using False n by (auto simp: nat_less_iff)
    let ?x = "?w ! nat ?j + ?c"
    have wait: "wait = (if ?x \<le> now then 0 else as_secs_f64 (?x - now))"
      using t False j(2) by (auto simp: time_until_ops_free_at_def prune_eq Let_def split: if_splits)
    have "?x < T"
    proof (cases "?x \<le> now")
      case True
      then show ?thesis using T e by (simp add: wait sleep_secs_def)
    next
      case False
      then have "sleep_secs wait = ?x - now" by (simp only: wait if_False sleep_secs_as_secs)
      then show ?thesis using T e by linarith
    qed
    then have "?w ! nat ?j < T - ?c" by simp
    then have "length (in_window (rl\<lparr>rl_window := ?w\<rparr>) T) + nat ?j + 1 \<le> ?len"
      unfolding in_window_def [of "rl\<lparr>rl_window := ?w\<rparr>"] using dropWhile_beyond [OF sorted j(1)] by simp
    then have left: "length (in_window rl T) + nat ?j + 1 \<le> ?len" using in_window_later(2) [OF w later] by simp
    show ?thesis
    proof (cases "int ?len \<le> ?i")
      case True
      then have "nat ?j = ?len - 1" by simp
      then show ?thesis using left n \<open>0 < ?len\<close> by linarith
    next
      case below: False
      then have "nat ?j = ?len + n - RL_OPS_PER_WINDOW" using n False by simp
      then show ?thesis using left n False by linarith
    qed
  qed
qed

section \<open>The gate\<close>

lemma sleep_secs_nonneg [simp]: "0 \<le> sleep_secs x"
  by (simp add: sleep_secs_def from_secs_f64_nonneg)

lemma sleep_until_elapsed_later: "0 \<le> e \<Longrightarrow> now \<le> sleep_until_elapsed rl tgt now e"
  by (simp add: sleep_until_elapsed_def Let_def add_increasing2)

lemma elapsed_mono: "t \<le> u \<Longrightarrow> elapsed_since_last_send rl t \<le> elapsed_since_last_send rl u"
  by (simp add: elapsed_since_last_send_def as_secs_le_iff split: option.splits)

lemma sleep_secs_lower: "s * 10 ^ 9 \<le> of_int (sleep_secs s) + 1 / 2"
proof (cases "0 < s")
  case True
  have "\<bar>of_int (round_ties_even (s * 10 ^ 9)) - s * 10 ^ 9\<bar> \<le> 1 / 2" by (rule round_ties_even_error)
  then have "s * 10 ^ 9 \<le> of_int (round_ties_even (s * 10 ^ 9)) + 1 / 2" by linarith
  with True show ?thesis by (simp only: sleep_secs_def if_True from_secs_f64_def)
next
  case False
  then show ?thesis by (simp add: sleep_secs_def)
qed

text \<open>One nanosecond of overrun absorbs the rounding of the sleep.\<close>

lemma sleep_until_elapsed_reached:
  assumes "0 < e" and "tgt \<le> F64_MAX" and "sleep_until_elapsed rl tgt now e \<le> T"
  shows "tgt \<le> elapsed_since_last_send rl T"
proof (cases "elapsed_since_last_send rl now < tgt")
  case False
  then have "now \<le> T" using assms(1,3) by (simp add: sleep_until_elapsed_def Let_def)
  then show ?thesis using elapsed_mono [of now T rl] False by linarith
next
  case True
  then obtain s where s: "last_send rl = Some s"
    using assms(2) by (cases "last_send rl") (auto simp: elapsed_since_last_send_def)
  let ?d = "tgt - as_secs_f64 (now - s)"
  have le: "now + sleep_secs ?d + e \<le> T"
    using assms(3) True s by (simp add: sleep_until_elapsed_def elapsed_since_last_send_def Let_def)
  have secs: "as_secs_f64 (now - s) * 10 ^ 9 = of_int (now - s)" by (simp add: as_secs_f64_def)
  have "?d * 10 ^ 9 \<le> of_int (sleep_secs ?d) + 1 / 2" by (rule sleep_secs_lower)
  also have "\<dots> \<le> of_int (sleep_secs ?d + e)" using assms(1) by simp
  also have "\<dots> \<le> of_int (T - now)" using le by linarith
  finally have "tgt * 10 ^ 9 - of_int (now - s) \<le> of_int (T - now)"
    unfolding left_diff_distrib secs .
  then show ?thesis by (simp add: elapsed_since_last_send_def s as_secs_f64_def pos_le_divide_eq)
qed

lemma phase_backoff_end:
  assumes "phase_backoff rl now e = Some t" and "0 \<le> e"
  shows "now \<le> t" and "\<not> in_global_backoff_at rl t"
  using assms
  by (auto simp: phase_backoff_def in_global_backoff_at_def Let_def split: option.splits if_splits)

lemma phase_window_end:
  assumes w: "sorted (rl_window rl)" and n: "0 < n" "n \<le> RL_OPS_PER_WINDOW"
    and e: "0 \<le> e1" "0 < e2" and p: "phase_window rl n now e1 e2 = Some (t, rl')"
  shows "now \<le> t" and "t \<le> T \<Longrightarrow> length (in_window rl T) + n \<le> RL_OPS_PER_WINDOW"
    and "\<exists>u \<le> t. rl' = rl\<lparr>rl_window := in_window rl u\<rparr>"
proof -
  obtain avail rl1 where a: "ops_available_at rl now = (avail, rl1)" by fastforce
  then have avail: "avail = RL_OPS_PER_WINDOW - length (in_window rl now)" and rl1: "rl1 = rl\<lparr>rl_window := in_window rl now\<rparr>"
    by (auto simp: ops_available_at_def prune_eq)
  show "now \<le> t" and "t \<le> T \<Longrightarrow> length (in_window rl T) + n \<le> RL_OPS_PER_WINDOW"
    and "\<exists>u \<le> t. rl' = rl\<lparr>rl_window := in_window rl u\<rparr>"
  proof (atomize (full), cases "avail < n")
    case False
    then have t: "t = now + e2" "rl' = rl1" using p a by (auto simp: phase_window_def)
    have "length (in_window rl now) + n \<le> RL_OPS_PER_WINDOW" using False avail n by linarith
    then have "t \<le> T \<longrightarrow> length (in_window rl T) + n \<le> RL_OPS_PER_WINDOW"
      using in_window_later(1) [OF w, of now T] t e by auto
    then show "now \<le> t \<and> (t \<le> T \<longrightarrow> length (in_window rl T) + n \<le> RL_OPS_PER_WINDOW) \<and>
        (\<exists>u \<le> t. rl' = rl\<lparr>rl_window := in_window rl u\<rparr>)"
      using t rl1 e by (auto intro!: exI [of _ now])
  next
    case True
    obtain wait rl2 where f: "time_until_ops_free_at rl1 n (now + e1) = (wait, rl2)" by fastforce
    have t: "t = now + e1 + sleep_secs wait + e2" "rl' = rl2"
      using p a f True by (auto simp: phase_window_def Let_def split: if_splits)
    have w1: "sorted (rl_window rl1)" using sorted_in_window [OF w] by (simp add: rl1)
    have eq: "in_window rl1 u = in_window rl u" if "now \<le> u" for u using in_window_later(2) [OF w that] by (simp add: rl1)
    have pos: "0 \<le> sleep_secs wait" by simp
    have "length (in_window rl T) + n \<le> RL_OPS_PER_WINDOW" if "t \<le> T"
      using time_until_ops_free(1) [OF w1 n(2) e(2) f, of T] that t eq [of T] pos e by simp
    moreover have "rl2 = rl\<lparr>rl_window := in_window rl (now + e1)\<rparr>"
      using time_until_ops_free(2) [OF w1 n(2) e(2) f order_refl] eq [of "now + e1"] e by (simp add: rl1)
    ultimately show "now \<le> t \<and> (t \<le> T \<longrightarrow> length (in_window rl T) + n \<le> RL_OPS_PER_WINDOW) \<and>
        (\<exists>u \<le> t. rl' = rl\<lparr>rl_window := in_window rl u\<rparr>)"
      using t pos e by (auto intro!: exI [of _ "now + e1"])
  qed
qed

text \<open>
  C31. When the gate lets a batch of \<open>n\<close> operations through, at least one and no more than the
  budget of 40 (each wake-up at least one nanosecond late, as a timer guarantees, and a send interval
  in the range of a double), then at its end time and ever after: the batch fits
  the 40 operations per 60 seconds, the global backoff is over, and at least the minimum send
  interval has passed since the last send; with a critically low volume quota (and not a
  cancel-only batch) at least the 15 seconds of the free slot.
\<close>

theorem write_slot_sound:
  assumes w: "sorted (rl_window rl)" and n: "0 < n" "n \<le> RL_OPS_PER_WINDOW" and e: "\<forall>k. 0 < e k"
    and fin: "min_send_interval rl \<le> F64_MAX"
    and ok: "write_slot rl n cancel_only now e = (Some T, rl')" and U: "T \<le> U"
  shows "length (in_window rl' U) + n \<le> RL_OPS_PER_WINDOW \<and> \<not> in_global_backoff_at rl' U \<and>
    send_floor rl cancel_only \<le> elapsed_since_last_send rl' U \<and>
    (\<not> cancel_only \<and> quota_pace_multiplier rl = Infinite \<longrightarrow>
       RL_FREE_SLOT_INTERVAL \<le> elapsed_since_last_send rl' U)"
proof -
  from ok obtain t1 t2 where p1: "phase_backoff rl now (e 0) = Some t1"
    and p2: "phase_window rl n t1 (e 1) (e 2) = Some (t2, rl')"
    and T: "T = phase_quota rl' cancel_only (sleep_until_elapsed rl' (send_floor rl' cancel_only) t2 (e 3)) (e 4)"
    by (auto simp: write_slot_def Let_def split: option.splits)
  let ?t3 = "sleep_until_elapsed rl' (send_floor rl' cancel_only) t2 (e 3)"
  have e': "0 < e k" "0 \<le> e k" for k using e by (simp_all add: less_imp_le)
  note b = phase_backoff_end [OF p1 e'(2)] and wn = phase_window_end [OF w n e'(2) e'(1) p2]
  obtain u where u: "u \<le> t2" "rl' = rl\<lparr>rl_window := in_window rl u\<rparr>" using wn(3) by blast
  have t23: "t2 \<le> ?t3" by (rule sleep_until_elapsed_later [OF e'(2)])
  have t3T: "?t3 \<le> T"
    unfolding T phase_quota_def by (auto simp: Let_def sleep_until_elapsed_later [OF e'(2)] split: pace.splits)
  have "t2 \<le> U" "u \<le> U" using t23 t3T U u(1) by linarith+
  then have "length (in_window rl' U) + n \<le> RL_OPS_PER_WINDOW"
    using wn(2) [of U] in_window_later(2) [OF w, of u U] u(2) by simp
  moreover have "\<not> in_global_backoff_at rl' U"
    using b(2) wn(1) t23 t3T U u(2) by (auto simp: in_global_backoff_at_def split: option.splits)
  moreover have fl: "send_floor rl' c = send_floor rl c" "quota_pace_multiplier rl' = quota_pace_multiplier rl" for c
    using u(2) by (simp_all add: send_floor_def quota_pace_multiplier_def)
  have mx: "15 \<le> F64_MAX" "1 / 2 \<le> F64_MAX" by (simp_all add: F64_MAX_def)
  have "send_floor rl' cancel_only \<le> elapsed_since_last_send rl' U"
    by (rule sleep_until_elapsed_reached [OF e'(1) [of 3], where now = t2]) (use fin mx t3T U u(2) in \<open>auto simp: send_floor_def RL_CANCEL_MIN_INTERVAL_def\<close>)
  moreover have "RL_FREE_SLOT_INTERVAL \<le> elapsed_since_last_send rl' U"
    if "\<not> cancel_only" "quota_pace_multiplier rl = Infinite"
    by (rule sleep_until_elapsed_reached [OF e'(1) [of 4], where now = ?t3])
      (use that T U mx fl in \<open>auto simp: phase_quota_def RL_FREE_SLOT_INTERVAL_def\<close>)
  ultimately show ?thesis by (auto simp: fl)
qed

theorem write_slot_sound_witness:
  "\<exists>T rl'. write_slot (record_ops_sent_at (limiter_new 8 (1 / 10)) 40 0) 5 False 59000000000 (\<lambda>_. 1) = (Some T, rl') \<and>
     length (in_window rl' T) + 5 \<le> RL_OPS_PER_WINDOW"
proof -
  let ?rl = "record_ops_sent_at (limiter_new 8 (1 / 10)) 40 0"
  have rl: "rl_window ?rl = replicate 40 0" "global_backoff_until ?rl = None" "min_send_interval ?rl = 1 / 10"
    by (simp_all add: record_ops_sent_at_def limiter_new_def)
  have iw: "in_window ?rl 59000000001 = replicate 40 0"
    by (simp add: in_window_def rl RL_WINDOW_SECONDS_def dropWhile_replicate)
  have r40: "replicate 40 (0::int) ! 5 = 0" by simp
  have "fst (write_slot ?rl 5 False 59000000000 (\<lambda>_. 1)) \<noteq> None"
  proof -
    have "phase_backoff ?rl 59000000000 1 = Some 59000000001" by (simp add: phase_backoff_def rl)
    moreover have "phase_window ?rl 5 59000000001 1 1 \<noteq> None"
    proof -
      have "ops_available_at ?rl 59000000001 = (0, ?rl\<lparr>rl_window := replicate 40 0\<rparr>)"
        by (simp add: ops_available_at_def prune_eq iw RL_OPS_PER_WINDOW_def)
      moreover have "fst (time_until_ops_free_at (?rl\<lparr>rl_window := replicate 40 0\<rparr>) 5 59000000002) \<le> 30"
        by (simp add: time_until_ops_free_at_def prune_eq in_window_def dropWhile_replicate RL_WINDOW_SECONDS_def
            RL_OPS_PER_WINDOW_def as_secs_f64_def del: replicate.simps)
      ultimately show ?thesis
        by (auto simp: phase_window_def WINDOW_SKIP_THRESHOLD_def Let_def split: prod.splits)
    qed
    ultimately show ?thesis by (auto simp: write_slot_def Let_def)
  qed
  then obtain T rl' where ok: "write_slot ?rl 5 False 59000000000 (\<lambda>_. 1) = (Some T, rl')"
    by (metis not_None_eq prod.collapse)
  have "length (in_window rl' T) + 5 \<le> RL_OPS_PER_WINDOW"
    using write_slot_sound [OF _ _ _ _ _ ok order_refl]
    by (simp add: rl RL_OPS_PER_WINDOW_def F64_MAX_def)
  with ok show ?thesis by blast
qed

text \<open>
  The bound on the batch is needed: on an empty window outside any backoff the gate lets a batch of
  any size through, also one above the whole budget.
\<close>

lemma oversized_batch_passes:
  assumes "rl_window rl = []" "global_backoff_until rl = None"
  shows "fst (write_slot rl n cancel_only now e) \<noteq> None"
proof -
  have "prune_op_window_at rl t = (0, rl)" for t using assms(1) by (cases rl) (simp add: prune_op_window_at_def)
  then have "phase_window rl n t a b \<noteq> None" for t a b
    by (simp add: phase_window_def ops_available_at_def time_until_ops_free_at_def WINDOW_SKIP_THRESHOLD_def)
  moreover have "phase_backoff rl now (e 0) \<noteq> None" using assms(2) by (simp add: phase_backoff_def)
  ultimately show ?thesis by (fastforce simp: write_slot_def Let_def split: option.splits)
qed

section \<open>Backoff, pacing and classification\<close>

text \<open>\<open>k\<close> rate-limit rejections in a row, at the times of the list.\<close>

definition triggers :: "rate_limiter \<Rightarrow> instant list \<Rightarrow> rate_limiter" where
  "triggers rl ts = foldl (\<lambda>rl t. snd (trigger_global_backoff_at rl t)) rl ts"

lemma backoff_level_triggers: "backoff_level (triggers rl ts) = backoff_level rl + length ts"
  unfolding triggers_def by (induction ts arbitrary: rl) (auto simp: trigger_global_backoff_at_def Let_def)

lemma from_secs_min_numeral: "from_secs_f64 (min (15 * 2 ^ k) 120) = min (15 * 2 ^ k) 120 * 10 ^ 9"
proof -
  have "min (15 * 2 ^ k) 120 * 10 ^ 9 = (of_int (min (15 * 2 ^ k) 120 * 10 ^ 9) :: real)"
    by (simp add: of_int_min)
  then show ?thesis unfolding from_secs_f64_def by (metis round_ties_even_of_int)
qed

text \<open>
  Escalation of the 429 backoff: the \<open>k\<close>-th rejection in a row blocks sending for
  \<open>min (15 * 2 ^ (k - 1)) 120\<close> seconds from its time, two write successes after it (or one
  more than five minutes later) return the level to zero, so the next rejection waits 15 seconds.
\<close>

theorem backoff_escalates_and_resets:
  assumes "backoff_level rl = 0"
  shows "global_backoff_until (triggers rl (ts @ [t])) =
      Some (t + min (15 * 2 ^ length ts) 120 * 10 ^ 9) \<and>
    backoff_level (reset_global_backoff_at (reset_global_backoff_at (triggers rl (ts @ [t])) u) v) = 0 \<and>
    (t + 300 * 10 ^ 9 < u \<longrightarrow> backoff_level (reset_global_backoff_at (triggers rl (ts @ [t])) u) = 0)"
proof -
  let ?r = "triggers rl ts"
  have lvl: "backoff_level ?r = length ts" using assms by (simp add: backoff_level_triggers)
  have r: "triggers rl (ts @ [t]) = snd (trigger_global_backoff_at ?r t)" by (simp add: triggers_def)
  have f: "global_backoff_until (triggers rl (ts @ [t])) = Some (t + min (15 * 2 ^ length ts) 120 * 10 ^ 9)"
    unfolding r by (simp add: trigger_global_backoff_at_def Let_def lvl RL_BACKOFF_BASE_def RL_BACKOFF_MAX_def from_secs_min_numeral)
  have s: "consecutive_successes (triggers rl (ts @ [t])) = 0" "last_backoff_trigger (triggers rl (ts @ [t])) = Some t"
    by (simp_all add: r trigger_global_backoff_at_def Let_def)
  show ?thesis
    using f s by (auto simp: reset_global_backoff_at_def Let_def RL_BACKOFF_RESET_AFTER_def BACKOFF_DECAY_SECS_def as_secs_f64_def)
qed

theorem backoff_escalates_and_resets_witness:
  "global_backoff_until (triggers (limiter_new 8 1) [0, 10, 20, 30, 40]) = Some (40 + 120 * 10 ^ 9)"
  using backoff_escalates_and_resets [of "limiter_new 8 1" "[0, 10, 20, 30]" 40 0 0]
  by (simp add: limiter_new_def)

text \<open>
  Quota pressure only ever slows quoting down: the adaptive threshold lies between the
  base and five times the base and never falls when the remaining quota falls.
\<close>

theorem adaptive_threshold_monotone:
  assumes "0 \<le> base" and "q \<le> q'"
  shows "quota_adaptive_threshold_bps base (Some q') \<le> quota_adaptive_threshold_bps base (Some q) \<and>
    base \<le> quota_adaptive_threshold_bps base (Some q') \<and> quota_adaptive_threshold_bps base (Some q) \<le> 5 * base \<and>
    quota_adaptive_threshold_bps base None = base"
  using assms by (auto simp: quota_adaptive_threshold_bps_def RL_QUOTA_HIGH_def RL_QUOTA_MEDIUM_def RL_QUOTA_LOW_def)

theorem adaptive_threshold_monotone_witness:
  "quota_adaptive_threshold_bps 8 (Some 499) = 16 \<and> quota_adaptive_threshold_bps 8 (Some 499) \<le> quota_adaptive_threshold_bps 8 (Some 9)"
  using adaptive_threshold_monotone [of 8 9 499]
  by (simp add: quota_adaptive_threshold_bps_def RL_QUOTA_HIGH_def RL_QUOTA_MEDIUM_def)

lemma str_contains_iff: "str_contains s pat \<longleftrightarrow> (\<exists>u v. s = u @ pat @ v)"
proof (induction s)
  case (Cons c cs)
  have "take (length pat) (c # cs) = pat \<longleftrightarrow> (\<exists>v. c # cs = pat @ v)"
    by (metis append_eq_conv_conj append_take_drop_id)
  moreover have "(\<exists>u v. c # cs = u @ pat @ v) \<longleftrightarrow> (\<exists>v. c # cs = pat @ v) \<or> (\<exists>u v. cs = u @ pat @ v)"
    by (metis append_Cons append_Nil append_eq_Cons_conv)
  ultimately show ?case using Cons by simp
qed simp

lemma str_contains_trans: "str_contains s t \<Longrightarrow> str_contains t p \<Longrightarrow> str_contains s p"
  unfolding str_contains_iff by (metis append.assoc)

text \<open>
  The two classifiers of error messages agree: a message that counts as transient (and is
  not one of the harmless quota notices) is never classified as a business rejection.
\<close>

theorem transient_is_never_business:
  assumes "is_transient_error msg" and "\<not> str_contains (to_lowercase msg) ''remained''"
    and "\<not> str_contains (to_lowercase msg) didnt_use"
  shows "classify_reject msg \<in> {Quota, RateLimit, Nonce}"
proof -
  have "str_contains m ''nonce''" if "str_contains m ''invalid nonce''" for m
    using that by (rule str_contains_trans) simp
  then show ?thesis using assms by (auto simp: is_transient_error_def classify_reject_def Let_def)
qed

theorem transient_is_never_business_witness:
  "classify_reject ''Invalid Nonce'' \<in> {Quota, RateLimit, Nonce}"
proof -
  have "to_lowercase ''Invalid Nonce'' = ''invalid nonce''"
    by code_simp
  then show ?thesis
    by (intro transient_is_never_business) (simp_all add: is_transient_error_def didnt_use_def)
qed

end
