(* ===== verification/Rolling.thy ===== *)
theory Rolling
  imports Util
begin

text \<open>
  \<^verbatim>\<open>src/src/strategy/rolling.rs\<close>: the fixed-capacity ring buffer with incremental
  (Welford) mean and standard deviation. The abstraction is the list of the last
  \<open>capacity\<close> values in arrival order; the refinement says that the incrementally
  maintained mean, sum of squared deviations and standard deviation are those of that
  list, through any number of evictions.
\<close>

section \<open>Definitions\<close>

record rolling_stats =
  buffer :: "f64 list"
  capacity :: nat
  write_pos :: nat
  rs_count :: nat
  rs_sum :: f64
  m2 :: f64
  cached_mean :: f64
  cached_std :: f64

text \<open>\<open>new\<close> asserts a positive capacity: \<open>None\<close> is the panic.\<close>

definition rolling_new :: "nat \<Rightarrow> rolling_stats option" where
  "rolling_new cap =
     (if 0 < cap
      then Some \<lparr>buffer = replicate cap 0, capacity = cap, write_pos = 0, rs_count = 0,
                 rs_sum = 0, m2 = 0, cached_mean = 0, cached_std = 0\<rparr>
      else None)"

text \<open>The eviction block of \<open>push\<close>, run when the buffer is full.\<close>

definition evict_oldest :: "rolling_stats \<Rightarrow> rolling_stats" where
  "evict_oldest s =
     (let old = buffer s ! write_pos s;
          n = rs_count s;
          old_mean = cached_mean s;
          new_mean = (if 1 < n then old_mean + (old_mean - old) / (of_nat n - 1) else 0);
          m = m2 s - (old - old_mean) * (old - new_mean)
      in s\<lparr>m2 := (if m < 0 then 0 else m), rs_sum := rs_sum s - old,
           rs_count := n - 1, cached_mean := new_mean\<rparr>)"

definition push :: "rolling_stats \<Rightarrow> f64 \<Rightarrow> rolling_stats" where
  "push s value =
     (let idx = write_pos s;
          s1 = (if capacity s \<le> rs_count s then evict_oldest s else s);
          total = rs_sum s1 + value;
          n = rs_count s1 + 1;
          wp = idx + 1;
          old_mean = cached_mean s1;
          new_mean = total / of_nat n;
          m = m2 s1 + (value - old_mean) * (value - new_mean);
          m' = (if m < 0 then 0 else m)
      in s1\<lparr>buffer := (buffer s1)[idx := value], rs_sum := total, rs_count := n,
            write_pos := (if capacity s \<le> wp then 0 else wp), m2 := m',
            cached_mean := new_mean,
            cached_std := (if 2 \<le> n then sqrt (m' / of_nat n) else 0)\<rparr>)"

definition zscore :: "rolling_stats \<Rightarrow> f64 \<Rightarrow> f64" where
  "zscore s value =
     (if cached_std s < 1 / 10 ^ 10 then 0 else (value - cached_mean s) / cached_std s)"

definition is_full :: "rolling_stats \<Rightarrow> bool" where
  "is_full s \<longleftrightarrow> capacity s \<le> rs_count s"

definition rolling_clear :: "rolling_stats \<Rightarrow> rolling_stats" where
  "rolling_clear s =
     s\<lparr>write_pos := 0, rs_count := 0, rs_sum := 0, m2 := 0, cached_mean := 0, cached_std := 0\<rparr>"

section \<open>Specification: statistics of a list\<close>

definition avg :: "f64 list \<Rightarrow> f64" where
  "avg xs = sum_list xs / of_nat (length xs)"

definition sq_dev :: "f64 list \<Rightarrow> f64" where
  "sq_dev xs = (\<Sum>x\<leftarrow>xs. (x - avg xs)\<^sup>2)"

text \<open>Population standard deviation; 0 below two samples.\<close>

definition std_dev :: "f64 list \<Rightarrow> f64" where
  "std_dev xs = (if 2 \<le> length xs then sqrt (sq_dev xs / of_nat (length xs)) else 0)"

text \<open>What a window of capacity \<open>c\<close> holds after \<open>v\<close> arrives.\<close>

definition slide :: "nat \<Rightarrow> f64 list \<Rightarrow> f64 \<Rightarrow> f64 list" where
  "slide c w v = (if c \<le> length w then tl w else w) @ [v]"

definition last_n :: "nat \<Rightarrow> 'a list \<Rightarrow> 'a list" where
  "last_n n xs = drop (length xs - n) xs"

lemma last_n_snoc: "0 < n \<Longrightarrow> last_n n (last_n n xs @ [x]) = last_n n (xs @ [x])"
  by (cases "length xs \<le> n") (auto simp: last_n_def not_le Suc_diff_le)

lemma sq_dev_nonneg: "0 \<le> sq_dev xs"
  unfolding sq_dev_def by (rule sum_list_nonneg) auto

lemma sum_sq_dev_expand:
  fixes c :: f64
  shows "(\<Sum>x\<leftarrow>xs. (x - c)\<^sup>2) = (\<Sum>x\<leftarrow>xs. x\<^sup>2) - 2 * c * sum_list xs + of_nat (length xs) * c\<^sup>2"
  by (induction xs) (simp_all add: power2_eq_square algebra_simps)

lemma sq_dev_eq:
  "sq_dev xs = (\<Sum>x\<leftarrow>xs. x\<^sup>2) - (sum_list xs)\<^sup>2 / of_nat (length xs)"
proof (cases "xs = []")
  case True
  then show ?thesis by (simp add: sq_dev_def)
next
  case False
  then have "(of_nat (length xs) :: real) \<noteq> 0" by simp
  then show ?thesis
    unfolding sq_dev_def sum_sq_dev_expand avg_def by (simp add: power2_eq_square field_simps)
qed

text \<open>Forward Welford: the deviation sum after appending a value.\<close>

lemma sq_dev_snoc: "sq_dev (xs @ [v]) = sq_dev xs + (v - avg xs) * (v - avg (xs @ [v]))"
proof (cases "xs = []")
  case True
  then show ?thesis by (simp add: sq_dev_def avg_def)
next
  case False
  then have n: "(of_nat (length xs) :: real) \<noteq> 0" "(1 + of_nat (length xs) :: real) \<noteq> 0"
    by (simp, metis of_nat_Suc of_nat_eq_0_iff Suc_not_Zero)
  have alg: "q + v\<^sup>2 - (v + S)\<^sup>2 / (1 + n) = q - S\<^sup>2 / n + (v - S / n) * (v - (v + S) / (1 + n))"
    if "n \<noteq> 0" "1 + n \<noteq> 0" for q S n :: real
    using that by (simp add: divide_simps) (simp add: power2_eq_square algebra_simps)
  show ?thesis using alg [OF n, of _ "sum_list xs"] by (simp add: sq_dev_eq avg_def add.commute)
qed

text \<open>Reverse Welford: the mean and the deviation sum after dropping the oldest value.\<close>

lemma avg_evict:
  assumes "xs \<noteq> []"
  shows "avg (x # xs) + (avg (x # xs) - x) / (of_nat (length (x # xs)) - 1) = avg xs"
proof -
  from assms have n: "(of_nat (length xs) :: real) \<noteq> 0" "(1 + of_nat (length xs) :: real) \<noteq> 0"
    by (simp, metis of_nat_Suc of_nat_eq_0_iff Suc_not_Zero)
  then show ?thesis by (simp add: avg_def divide_simps) (simp add: algebra_simps)
qed

lemma sq_dev_evict:
  "sq_dev (x # xs) - (x - avg (x # xs)) * (x - avg xs) = sq_dev xs"
proof (cases "xs = []")
  case True
  then show ?thesis by (simp add: sq_dev_def avg_def)
next
  case False
  then have n: "(of_nat (length xs) :: real) \<noteq> 0" "(1 + of_nat (length xs) :: real) \<noteq> 0"
    by (simp, metis of_nat_Suc of_nat_eq_0_iff Suc_not_Zero)
  have alg: "v\<^sup>2 + q - (v + S)\<^sup>2 / (1 + n) - (v - (v + S) / (1 + n)) * (v - S / n) = q - S\<^sup>2 / n"
    if "n \<noteq> 0" "1 + n \<noteq> 0" for q S n v :: real
    using that by (simp add: divide_simps) (simp add: power2_eq_square algebra_simps)
  show ?thesis using alg [OF n] by (simp add: sq_dev_eq avg_def)
qed

section \<open>Refinement\<close>

definition window :: "rolling_stats \<Rightarrow> f64 list" where
  "window s =
     (if rs_count s < capacity s then take (rs_count s) (buffer s)
      else drop (write_pos s) (buffer s) @ take (write_pos s) (buffer s))"

definition rolling_inv :: "rolling_stats \<Rightarrow> bool" where
  "rolling_inv s \<longleftrightarrow>
     0 < capacity s \<and> length (buffer s) = capacity s \<and> rs_count s \<le> capacity s \<and>
     write_pos s < capacity s \<and> (rs_count s < capacity s \<longrightarrow> write_pos s = rs_count s) \<and>
     rs_sum s = sum_list (window s) \<and> cached_mean s = avg (window s) \<and>
     m2 s = sq_dev (window s) \<and> cached_std s = std_dev (window s)"

lemma length_window: "rolling_inv s \<Longrightarrow> length (window s) = rs_count s"
  by (auto simp: rolling_inv_def window_def)

lemma rolling_new_inv:
  "rolling_new c = Some s \<Longrightarrow> rolling_inv s \<and> window s = [] \<and> capacity s = c"
  by (auto simp: rolling_new_def rolling_inv_def window_def avg_def sq_dev_def std_dev_def
      split: if_splits)

lemma rolling_clear_inv:
  "rolling_inv s \<Longrightarrow> rolling_inv (rolling_clear s) \<and> window (rolling_clear s) = []"
  by (auto simp: rolling_clear_def rolling_inv_def window_def avg_def sq_dev_def std_dev_def)

text \<open>The state between the eviction and the insertion.\<close>

lemma evict_oldest_spec:
  assumes inv: "rolling_inv s" and full: "capacity s \<le> rs_count s"
  defines "w' \<equiv> tl (window s)"
  shows "rs_sum (evict_oldest s) = sum_list w'" and "cached_mean (evict_oldest s) = avg w'"
    and "m2 (evict_oldest s) = sq_dev w'" and "rs_count (evict_oldest s) = length w'"
    and "buffer (evict_oldest s) = buffer s"
proof -
  from inv full have cnt: "rs_count s = capacity s" and wp: "write_pos s < length (buffer s)"
    by (auto simp: rolling_inv_def)
  then have "window s = buffer s ! write_pos s # drop (Suc (write_pos s)) (buffer s) @ take (write_pos s) (buffer s)"
    by (simp add: window_def Cons_nth_drop_Suc)
  then have w: "window s = (buffer s ! write_pos s) # w'" by (simp add: w'_def)
  have n: "rs_count s = Suc (length w')" using length_window [OF inv] w by simp
  let ?old = "buffer s ! write_pos s"
  have stats: "rs_sum s = ?old + sum_list w'" "cached_mean s = avg (?old # w')"
    "m2 s = sq_dev (?old # w')"
    using inv w by (simp_all add: rolling_inv_def)
  have mean: "(if 1 < rs_count s then cached_mean s + (cached_mean s - ?old) / (of_nat (rs_count s) - 1) else 0) = avg w'"
  proof (cases "w' = []")
    case True
    then show ?thesis using n by (simp add: avg_def)
  next
    case False
    then show ?thesis using avg_evict [OF False, of ?old] n stats by simp
  qed
  show "rs_sum (evict_oldest s) = sum_list w'" and "rs_count (evict_oldest s) = length w'"
    and "buffer (evict_oldest s) = buffer s"
    using n stats by (simp_all add: evict_oldest_def Let_def)
  show "cached_mean (evict_oldest s) = avg w'"
    using mean by (simp add: evict_oldest_def Let_def)
  have "m2 s - (?old - cached_mean s) * (?old - avg w') = sq_dev w'"
    using sq_dev_evict [of ?old w'] stats by simp
  then show "m2 (evict_oldest s) = sq_dev w'"
    using mean sq_dev_nonneg [of w'] by (simp add: evict_oldest_def Let_def)
qed

text \<open>The window after a push, by whether the buffer was full.\<close>

lemma window_push:
  assumes inv: "rolling_inv s"
  shows "window (push s v) = slide (capacity s) (window s) v"
proof (cases "rs_count s < capacity s")
  case True
  with inv have wp: "write_pos s = rs_count s" and len: "length (buffer s) = capacity s"
    by (auto simp: rolling_inv_def)
  from True have lw: "length (window s) = rs_count s" using length_window [OF inv] by simp
  have "take (Suc (rs_count s)) ((buffer s)[rs_count s := v]) = take (rs_count s) (buffer s) @ [v]"
    using True len by (simp add: take_Suc_conv_app_nth)
  moreover from this have "Suc (rs_count s) = capacity s \<Longrightarrow> (buffer s)[rs_count s := v] = take (rs_count s) (buffer s) @ [v]"
    using len by (metis length_list_update order_refl take_all)
  ultimately show ?thesis
    using True wp lw by (auto simp: push_def Let_def window_def slide_def)
next
  case False
  with inv have cnt: "rs_count s = capacity s" and len: "length (buffer s) = capacity s"
    and wp: "write_pos s < capacity s" by (auto simp: rolling_inv_def)
  let ?b = "buffer s" and ?i = "write_pos s"
  have w: "window s = drop ?i ?b @ take ?i ?b" using cnt by (simp add: window_def)
  then have tl: "tl (window s) = drop (Suc ?i) ?b @ take ?i ?b"
    using wp len by (simp add: Cons_nth_drop_Suc [symmetric])
  have snoc: "take (Suc ?i) (?b[?i := v]) = take ?i ?b @ [v]"
    using wp len by (simp add: take_Suc_conv_app_nth)
  have len_e: "rs_count (evict_oldest s) = capacity s - 1" "capacity (evict_oldest s) = capacity s"
    "buffer (evict_oldest s) = ?b"
    using cnt by (simp_all add: evict_oldest_def Let_def)
  show ?thesis
  proof (cases "capacity s \<le> Suc ?i")
    case True
    then have last: "Suc ?i = capacity s" using wp by simp
    then have "?b[?i := v] = take ?i ?b @ [v]" using snoc len by (metis length_list_update order_refl take_all)
    moreover have "drop (Suc ?i) ?b = []" using last len by simp
    ultimately show ?thesis
      using cnt len_e last tl w len wp by (simp add: push_def Let_def window_def slide_def)
  next
    case False
    then show ?thesis
      using cnt len_e tl w len wp snoc by (simp add: push_def Let_def window_def slide_def)
  qed
qed

lemma push_inv [inv_intros]:
  assumes inv: "rolling_inv s"
  shows "rolling_inv (push s v)"
proof -
  let ?w = "if capacity s \<le> rs_count s then tl (window s) else window s"
  let ?s1 = "if capacity s \<le> rs_count s then evict_oldest s else s"
  have s1: "rs_sum ?s1 = sum_list ?w" "cached_mean ?s1 = avg ?w" "m2 ?s1 = sq_dev ?w"
    "rs_count ?s1 = length ?w" "buffer ?s1 = buffer s" "capacity ?s1 = capacity s"
    using evict_oldest_spec [OF inv] inv length_window [OF inv]
    by (auto simp: rolling_inv_def) (simp add: evict_oldest_def Let_def)
  have win: "window (push s v) = ?w @ [v]"
    using window_push [OF inv] length_window [OF inv] by (simp add: slide_def)
  have total: "rs_sum (push s v) = sum_list (?w @ [v])"
    and cnt: "rs_count (push s v) = length (?w @ [v])"
    and mean: "cached_mean (push s v) = avg (?w @ [v])"
    using s1 by (simp_all add: push_def Let_def avg_def add.commute)
  have "m2 ?s1 + (v - cached_mean ?s1) * (v - avg (?w @ [v])) = sq_dev (?w @ [v])"
    using s1 sq_dev_snoc [of ?w v] by simp
  moreover have "(rs_sum ?s1 + v) / of_nat (rs_count ?s1 + 1) = avg (?w @ [v])"
    using s1 by (simp add: avg_def add.commute)
  ultimately have dev: "m2 (push s v) = sq_dev (?w @ [v])"
    using sq_dev_nonneg [of "?w @ [v]"] by (simp only: push_def Let_def) simp
  have std: "cached_std (push s v) = std_dev (?w @ [v])"
    using dev cnt by (simp add: push_def Let_def std_dev_def)
  have shape: "length (buffer (push s v)) = capacity s" "capacity (push s v) = capacity s"
    "rs_count (push s v) \<le> capacity s" "write_pos (push s v) < capacity s"
    "rs_count (push s v) < capacity s \<longrightarrow> write_pos (push s v) = rs_count (push s v)"
    using inv by (auto simp: rolling_inv_def push_def evict_oldest_def Let_def)
  show ?thesis
    using shape total mean dev std win inv by (simp add: rolling_inv_def)
qed

section \<open>The interface of a sliding window\<close>

text \<open>
  What the quote engine and the Binance alpha calculator rely on: pushing keeps the last
  \<open>cap\<close> values, and the reported mean and standard deviation are those of the contents.
\<close>

locale sliding_window =
  fixes push :: "'s \<Rightarrow> f64 \<Rightarrow> 's"
    and clear :: "'s \<Rightarrow> 's"
    and cap :: "'s \<Rightarrow> nat"
    and contents :: "'s \<Rightarrow> f64 list"
    and inv :: "'s \<Rightarrow> bool"
    and mean :: "'s \<Rightarrow> f64"
    and std :: "'s \<Rightarrow> f64"
  assumes inv_push: "inv s \<Longrightarrow> inv (push s v)"
    and cap_push: "cap (push s v) = cap s"
    and contents_push: "inv s \<Longrightarrow> contents (push s v) = slide (cap s) (contents s) v"
    and inv_clear: "inv s \<Longrightarrow> inv (clear s)"
    and contents_clear: "inv s \<Longrightarrow> contents (clear s) = []"
    and mean_contents: "inv s \<Longrightarrow> mean s = avg (contents s)"
    and std_contents: "inv s \<Longrightarrow> std s = std_dev (contents s)"
    and length_contents: "inv s \<Longrightarrow> length (contents s) \<le> cap s"
    and cap_pos: "inv s \<Longrightarrow> 0 < cap s"
begin

lemma slide_last_n: "0 < c \<Longrightarrow> length w \<le> c \<Longrightarrow> slide c w v = last_n c (w @ [v])"
  by (cases w) (auto simp: slide_def last_n_def)

lemma inv_run: "inv s \<Longrightarrow> inv (foldl push s xs)"
  by (induction xs arbitrary: s) (simp_all add: inv_push)

lemma cap_run: "cap (foldl push s xs) = cap s"
  by (induction xs arbitrary: s) (simp_all add: cap_push)

lemma contents_run: "inv s \<Longrightarrow> contents (foldl push s xs) = last_n (cap s) (contents s @ xs)"
proof (induction xs rule: rev_induct)
  case Nil
  then show ?case using length_contents [of s] by (simp add: last_n_def)
next
  case (snoc x xs)
  let ?s = "foldl push s xs"
  have inv: "inv ?s" using snoc.prems by (rule inv_run)
  have "contents (push ?s x) = last_n (cap s) (contents ?s @ [x])"
    using contents_push [OF inv] slide_last_n [OF cap_pos [OF inv] length_contents [OF inv], of x]
    by (simp add: cap_run)
  also have "\<dots> = last_n (cap s) ((contents s @ xs) @ [x])"
    unfolding snoc.IH [OF snoc.prems] by (rule last_n_snoc) (rule cap_pos [OF snoc.prems])
  finally show ?case by simp
qed

lemma stats_run:
  assumes "inv s" and "contents s = []"
  shows "mean (foldl push s xs) = avg (last_n (cap s) xs)"
    and "std (foldl push s xs) = std_dev (last_n (cap s) xs)"
  using assms mean_contents [OF inv_run] std_contents [OF inv_run] contents_run by simp_all

end

lemma capacity_push [simp, frame_simps]: "capacity (push s v) = capacity s"
  by (simp add: push_def evict_oldest_def Let_def)

lemma capacity_rolling_clear [simp, frame_simps]: "capacity (rolling_clear s) = capacity s"
  by (simp add: rolling_clear_def)

interpretation roll: sliding_window push rolling_clear capacity window rolling_inv cached_mean cached_std
proof
  fix s v
  show "capacity (push s v) = capacity s" by simp
  assume inv: "rolling_inv s"
  show "rolling_inv (push s v)" using inv by (rule push_inv)
  show "window (push s v) = slide (capacity s) (window s) v" using inv by (rule window_push)
  show "rolling_inv (rolling_clear s)" and "window (rolling_clear s) = []"
    using rolling_clear_inv [OF inv] by simp_all
  show "cached_mean s = avg (window s)" and "cached_std s = std_dev (window s)" and "0 < capacity s"
    using inv by (simp_all add: rolling_inv_def)
  show "length (window s) \<le> capacity s"
    using inv length_window [OF inv] by (simp add: rolling_inv_def)
qed

lemma std_dev_nonneg: "0 \<le> std_dev xs"
  by (simp add: std_dev_def sq_dev_nonneg)

text \<open>
  C34. Ring buffer and Welford updates together compute the statistics of the last
  \<open>c\<close> values pushed: for every sequence of pushes into a fresh window, the count, the
  mean and the population standard deviation are those of that suffix, so the reverse
  Welford eviction loses nothing (in exact arithmetic) however long the window runs.
\<close>

theorem rolling_stats_of_last_values:
  assumes "rolling_new c = Some s0"
  shows "rs_count (foldl push s0 xs) = min c (length xs)
       \<and> cached_mean (foldl push s0 xs) = avg (last_n c xs)
       \<and> cached_std (foldl push s0 xs) = std_dev (last_n c xs)"
proof -
  have s0: "rolling_inv s0" "window s0 = []" "capacity s0 = c"
    using rolling_new_inv [OF assms] by simp_all
  have "rs_count (foldl push s0 xs) = length (last_n c xs)"
    using length_window [OF roll.inv_run [OF s0(1)], of xs] roll.contents_run [OF s0(1), of xs] s0
    by simp
  then show ?thesis
    using roll.stats_run [OF s0(1,2), of xs] s0(3) by (simp add: last_n_def)
qed

theorem rolling_stats_of_last_values_witness:
  "\<exists>s0. rolling_new 3 = Some s0 \<and> cached_mean (foldl push s0 [1, 2, 3, 4, 5]) = 4"
proof -
  obtain s0 where s0: "rolling_new 3 = Some s0" by (simp add: rolling_new_def)
  have "cached_mean (foldl push s0 [1, 2, 3, 4, 5]) = avg (last_n 3 [1, 2, 3, 4, 5])"
    using rolling_stats_of_last_values [OF s0, of "[1, 2, 3, 4, 5]"] by blast
  also have "\<dots> = 4" by (simp add: last_n_def avg_def)
  finally show ?thesis using s0 by blast
qed

end
