(* ===== verification/Local_Book.thy ===== *)
theory Local_Book
  imports Types
begin

text \<open>
  \<^verbatim>\<open>src/src/book/local_book.rs\<close>: one side of the order book as two parallel vectors sorted
  by price, and the two-sided book. A side abstracts to a finite map from price to size;
  \<open>upsert\<close> is map update or deletion, the range sums are sums over the map's levels, and
  the best prices are its extreme keys.
\<close>

section \<open>Binary search\<close>

text \<open>\<open>slice::partition_point\<close>: binary search for the first element that fails \<open>P\<close>.\<close>

function partition_loop :: "('a \<Rightarrow> bool) \<Rightarrow> 'a list \<Rightarrow> nat \<Rightarrow> nat \<Rightarrow> nat" where
  "partition_loop P xs lo hi =
     (if lo < hi
      then let mid = lo + (hi - lo) div 2
           in if P (xs ! mid) then partition_loop P xs (mid + 1) hi else partition_loop P xs lo mid
      else lo)"
  by pat_completeness auto
termination
  by (relation "measure (\<lambda>(P, xs, lo, hi). hi - lo)") auto

declare partition_loop.simps [simp del]

definition partition_point :: "('a \<Rightarrow> bool) \<Rightarrow> 'a list \<Rightarrow> nat" where
  "partition_point P xs = partition_loop P xs 0 (length xs)"

section \<open>One side of the book\<close>

record book_side =
  prices :: "f64 list"
  sizes :: "f64 list"

definition side_new :: book_side where
  "side_new = \<lparr>prices = [], sizes = []\<rparr>"

definition side_len :: "book_side \<Rightarrow> nat" where
  "side_len s = length (prices s)"

definition side_clear :: "book_side \<Rightarrow> book_side" where
  "side_clear s = s\<lparr>prices := [], sizes := []\<rparr>"

definition bisect_left :: "book_side \<Rightarrow> f64 \<Rightarrow> nat" where
  "bisect_left s price = partition_point (\<lambda>p. p < price) (prices s)"

definition bisect_right :: "book_side \<Rightarrow> f64 \<Rightarrow> nat" where
  "bisect_right s price = partition_point (\<lambda>p. p \<le> price) (prices s)"

text \<open>\<open>Vec::insert\<close> and \<open>Vec::remove\<close>.\<close>

definition vec_insert :: "nat \<Rightarrow> 'a \<Rightarrow> 'a list \<Rightarrow> 'a list" where
  "vec_insert i x xs = take i xs @ x # drop i xs"

definition vec_remove :: "nat \<Rightarrow> 'a list \<Rightarrow> 'a list" where
  "vec_remove i xs = take i xs @ drop (Suc i) xs"

definition upsert :: "book_side \<Rightarrow> f64 \<Rightarrow> f64 \<Rightarrow> book_side" where
  "upsert s price sz =
     (let idx = bisect_left s price;
          present = (idx < length (prices s) \<and> prices s ! idx = price)
      in if present then
           (if sz = 0
            then s\<lparr>prices := vec_remove idx (prices s), sizes := vec_remove idx (sizes s)\<rparr>
            else s\<lparr>sizes := (sizes s)[idx := sz]\<rparr>)
         else if sz \<noteq> 0
         then s\<lparr>prices := vec_insert idx price (prices s), sizes := vec_insert idx sz (sizes s)\<rparr>
         else s)"

definition lowest :: "book_side \<Rightarrow> (f64 \<times> f64) option" where
  "lowest s = (if prices s = [] then None else Some (prices s ! 0, sizes s ! 0))"

definition highest :: "book_side \<Rightarrow> (f64 \<times> f64) option" where
  "highest s =
     (let n = length (prices s)
      in if n = 0 then None else Some (prices s ! (n - 1), sizes s ! (n - 1)))"

definition sum_sizes_from :: "book_side \<Rightarrow> f64 \<Rightarrow> f64" where
  "sum_sizes_from s min_price = foldl (+) 0 (drop (bisect_left s min_price) (sizes s))"

definition sum_sizes_to :: "book_side \<Rightarrow> f64 \<Rightarrow> f64" where
  "sum_sizes_to s max_price = foldl (+) 0 (take (bisect_right s max_price) (sizes s))"

definition side_apply_snapshot :: "book_side \<Rightarrow> (f64 \<times> f64) list \<Rightarrow> book_side" where
  "side_apply_snapshot s levels =
     (let kept = sort_key fst (filter (\<lambda>(_, q). q \<noteq> 0) levels)
      in (side_clear s)\<lparr>prices := map fst kept, sizes := map snd kept\<rparr>)"

section \<open>The two-sided book\<close>

record local_book =
  bids :: book_side
  asks :: book_side
  initialized :: bool
  last_offset :: "nat option"
  last_nonce :: "int option"

definition book_new :: local_book where
  "book_new = \<lparr>bids = side_new, asks = side_new, initialized = False,
               last_offset = None, last_nonce = None\<rparr>"

definition book_reset :: "local_book \<Rightarrow> local_book" where
  "book_reset b = b\<lparr>bids := side_clear (bids b), asks := side_clear (asks b),
                    initialized := False, last_offset := None, last_nonce := None\<rparr>"

definition best_bid :: "local_book \<Rightarrow> f64 option" where
  "best_bid b = map_option fst (highest (bids b))"

definition best_ask :: "local_book \<Rightarrow> f64 option" where
  "best_ask b = map_option fst (lowest (asks b))"

definition book_mid :: "local_book \<Rightarrow> f64 option" where
  "book_mid b = (case (best_bid b, best_ask b) of
                   (Some x, Some y) \<Rightarrow> Some ((x + y) * (1 / 2))
                 | _ \<Rightarrow> None)"

definition apply_snapshot ::
  "local_book \<Rightarrow> (f64 \<times> f64) list \<Rightarrow> (f64 \<times> f64) list \<Rightarrow> local_book" where
  "apply_snapshot b bs as' =
     b\<lparr>bids := side_apply_snapshot (bids b) bs, asks := side_apply_snapshot (asks b) as',
       initialized := True\<rparr>"

definition side_apply_delta :: "book_side \<Rightarrow> (f64 \<times> f64) list \<Rightarrow> book_side" where
  "side_apply_delta s ds = foldl (\<lambda>t (p, q). upsert t p q) s ds"

definition apply_delta ::
  "local_book \<Rightarrow> (f64 \<times> f64) list \<Rightarrow> (f64 \<times> f64) list \<Rightarrow> local_book" where
  "apply_delta b bs as' =
     b\<lparr>bids := side_apply_delta (bids b) bs, asks := side_apply_delta (asks b) as'\<rparr>"

section \<open>Correctness of the binary search\<close>

lemma partition_loop_bounds:
  "lo \<le> hi \<Longrightarrow> lo \<le> partition_loop P xs lo hi \<and> partition_loop P xs lo hi \<le> hi"
proof (induction P xs lo hi rule: partition_loop.induct)
  case (1 P xs lo hi)
  show ?case
  proof (cases "lo < hi")
    case True
    let ?m = "lo + (hi - lo) div 2"
    from True have m: "lo \<le> ?m" "?m < hi" by auto
    from "1.IH"(1) [OF True refl] "1.IH"(2) [OF True refl] m True show ?thesis
      by (subst (1 2) partition_loop.simps) (auto simp: Let_def)
  next
    case False
    with "1.prems" show ?thesis by (subst (1 2) partition_loop.simps) simp
  qed
qed

lemma partition_loop_spec:
  assumes part: "\<And>i j. i \<le> j \<Longrightarrow> j < length xs \<Longrightarrow> P (xs ! j) \<Longrightarrow> P (xs ! i)"
  shows "lo \<le> hi \<Longrightarrow> hi \<le> length xs \<Longrightarrow> (\<And>i. i < lo \<Longrightarrow> P (xs ! i)) \<Longrightarrow>
    (\<And>i. hi \<le> i \<Longrightarrow> i < length xs \<Longrightarrow> \<not> P (xs ! i)) \<Longrightarrow>
    (\<forall>i < partition_loop P xs lo hi. P (xs ! i)) \<and>
    (\<forall>i. partition_loop P xs lo hi \<le> i \<longrightarrow> i < length xs \<longrightarrow> \<not> P (xs ! i))"
  using part
proof (induction P xs lo hi rule: partition_loop.induct)
  case (1 P xs lo hi)
  show ?case
  proof (cases "lo < hi")
    case False
    with "1.prems" show ?thesis by (subst (1 2) partition_loop.simps) auto
  next
    case True
    let ?m = "lo + (hi - lo) div 2"
    from True have m: "lo \<le> ?m" "?m < hi" by auto
    show ?thesis
    proof (cases "P (xs ! ?m)")
      case left: True
      have below: "P (xs ! i)" if "i < ?m + 1" for i
        using "1.prems"(5) [of i ?m] that left m "1.prems"(2) by auto
      have "partition_loop P xs lo hi = partition_loop P xs (?m + 1) hi"
        using True left by (subst partition_loop.simps) (simp add: Let_def)
      with "1.IH"(1) [OF True refl left] below m "1.prems" show ?thesis by auto
    next
      case right: False
      have above: "\<not> P (xs ! i)" if "?m \<le> i" "i < length xs" for i
        using "1.prems"(5) [of ?m i] that right by auto
      have "partition_loop P xs lo hi = partition_loop P xs lo ?m"
        using True right by (subst partition_loop.simps) (simp add: Let_def)
      with "1.IH"(2) [OF True refl right] above m "1.prems" show ?thesis by auto
    qed
  qed
qed

lemma partition_point_takeWhile:
  assumes "\<And>i j. i \<le> j \<Longrightarrow> j < length xs \<Longrightarrow> P (xs ! j) \<Longrightarrow> P (xs ! i)"
  shows "partition_point P xs = length (takeWhile P xs)"
proof -
  let ?r = "partition_point P xs"
  have le: "?r \<le> length xs"
    unfolding partition_point_def using partition_loop_bounds [of 0 "length xs"] by simp
  have spec: "\<forall>i < ?r. P (xs ! i)" "\<forall>i. ?r \<le> i \<longrightarrow> i < length xs \<longrightarrow> \<not> P (xs ! i)"
    unfolding partition_point_def using partition_loop_spec [of xs P 0 "length xs"] assms by auto
  have "takeWhile P xs = take ?r xs"
    using le spec by (intro takeWhile_eq_take_P_nth) auto
  with le show ?thesis by simp
qed

lemma bisect_takeWhile:
  assumes "sorted (prices s)"
  shows "bisect_left s p = length (takeWhile (\<lambda>x. x < p) (prices s))"
    and "bisect_right s p = length (takeWhile (\<lambda>x. x \<le> p) (prices s))"
proof -
  have mono: "prices s ! i \<le> prices s ! j" if "i \<le> j" "j < length (prices s)" for i j
    using assms that by (simp add: sorted_nth_mono)
  show "bisect_left s p = length (takeWhile (\<lambda>x. x < p) (prices s))"
    unfolding bisect_left_def
    by (rule partition_point_takeWhile) (meson mono order_le_less_trans)
  show "bisect_right s p = length (takeWhile (\<lambda>x. x \<le> p) (prices s))"
    unfolding bisect_right_def
    by (rule partition_point_takeWhile) (meson mono order_trans)
qed

section \<open>Abstraction to price levels\<close>

definition levels :: "book_side \<Rightarrow> (f64 \<times> f64) list" where
  "levels s = zip (prices s) (sizes s)"

definition level_map :: "book_side \<Rightarrow> f64 \<rightharpoonup> f64" where
  "level_map s = map_of (levels s)"

definition side_inv :: "book_side \<Rightarrow> bool" where
  "side_inv s \<longleftrightarrow> sorted_wrt (<) (prices s) \<and> length (sizes s) = length (prices s) \<and> 0 \<notin> set (sizes s)"

lemma side_inv_fst: "side_inv s \<Longrightarrow> map fst (levels s) = prices s"
  and side_inv_snd: "side_inv s \<Longrightarrow> map snd (levels s) = sizes s"
  by (simp_all add: side_inv_def levels_def)

lemma side_inv_sorted: "side_inv s \<Longrightarrow> sorted (prices s)"
  by (simp add: side_inv_def strict_sorted_iff)

lemma side_inv_distinct: "side_inv s \<Longrightarrow> distinct (prices s)"
  by (simp add: side_inv_def strict_sorted_iff)

lemma length_levels: "side_inv s \<Longrightarrow> length (levels s) = length (prices s)"
  by (simp add: side_inv_def levels_def)

text \<open>A strictly sorted list of levels, cut at a price.\<close>

abbreviation sorted_levels :: "(f64 \<times> f64) list \<Rightarrow> bool" where
  "sorted_levels L \<equiv> sorted_wrt (<) (map fst L)"

lemma sorted_levels_split:
  "sorted_levels L \<Longrightarrow>
   L = filter (\<lambda>l. fst l < p) L @ filter (\<lambda>l. fst l = p) L @ filter (\<lambda>l. p < fst l) L"
proof (induction L)
  case Nil
  then show ?case by simp
next
  case (Cons l L)
  then have "\<forall>x \<in> set L. fst l < fst x" by simp
  then have "p \<le> fst l \<Longrightarrow> filter (\<lambda>l. fst l < p) L = []" "p < fst l \<Longrightarrow> filter (\<lambda>l. fst l = p) L = []"
    by (auto simp: filter_empty_conv)
  with Cons show ?case by auto
qed

lemma sorted_levels_at:
  assumes "sorted_levels L"
  obtains "filter (\<lambda>l. fst l = p) L = []" | q where "filter (\<lambda>l. fst l = p) L = [(p, q)]"
proof -
  let ?E = "filter (\<lambda>l. fst l = p) L"
  have dist: "distinct (map fst ?E)"
    using assms by (simp add: strict_sorted_iff distinct_map_filter)
  have at: "fst l = p" if "l \<in> set ?E" for l using that by simp
  show ?thesis
  proof (cases ?E)
    case Nil
    then show ?thesis by (rule that(1))
  next
    case (Cons e E)
    have "E = []"
    proof (rule ccontr)
      assume "E \<noteq> []"
      then have "hd E \<in> set E" by simp
      moreover from this have "fst (hd E) = fst e" using at [of e] at [of "hd E"] Cons by simp
      ultimately have "fst e \<in> fst ` set E" by (metis imageI)
      then show False using dist Cons by simp
    qed
    then show ?thesis using Cons at [of e] that(2) [of "snd e"] by (cases e) auto
  qed
qed

lemma sorted_levels_below:
  assumes "sorted_levels L"
  shows "length (takeWhile (\<lambda>x. x < p) (map fst L)) = length (filter (\<lambda>l. fst l < p) L)"
proof -
  have "sorted (map fst L)" using assms by (simp add: strict_sorted_iff)
  then have "takeWhile (\<lambda>x. x < p) (map fst L) = filter (\<lambda>x. x < p) (map fst L)"
    by (rule filter_eq_takeWhile_sorted [symmetric]) auto
  then show ?thesis by (simp add: filter_map comp_def)
qed

lemma side_inv_levels: "side_inv s \<Longrightarrow> sorted_levels (levels s)"
  using side_inv_fst by (simp add: side_inv_def)

lemma bisect_left_levels:
  "side_inv s \<Longrightarrow> bisect_left s p = length (filter (\<lambda>l. fst l < p) (levels s))"
  using bisect_takeWhile(1) [OF side_inv_sorted] sorted_levels_below [OF side_inv_levels]
  by (simp add: side_inv_fst)

lemma vec_insert_at [simp]: "length xs = n \<Longrightarrow> vec_insert n x (xs @ ys) = xs @ x # ys"
  and vec_remove_at [simp]: "length xs = n \<Longrightarrow> vec_remove n (xs @ x # ys) = xs @ ys"
  by (simp_all add: vec_insert_def vec_remove_def)

lemma levels_update [simp]:
  "levels (s\<lparr>prices := P, sizes := S\<rparr>) = zip P S" "levels (s\<lparr>sizes := S\<rparr>) = zip (prices s) S"
  by (simp_all add: levels_def)

text \<open>
  One equation for the three effects of \<open>upsert\<close>: the levels below the price, then the
  new level unless its size is zero, then the levels strictly above.
\<close>

lemma levels_upsert:
  assumes inv: "side_inv s"
  shows "levels (upsert s p q) =
    filter (\<lambda>l. fst l < p) (levels s) @ (if q = 0 then [] else [(p, q)]) @
    filter (\<lambda>l. p < fst l) (levels s)" (is "_ = ?A @ _ @ ?B")
proof -
  let ?E = "filter (\<lambda>l. fst l = p) (levels s)"
  have L: "levels s = ?A @ ?E @ ?B" by (rule sorted_levels_split [OF side_inv_levels [OF inv]])
  have ps: "prices s = map fst ?A @ map fst ?E @ map fst ?B"
    and ss: "sizes s = map snd ?A @ map snd ?E @ map snd ?B"
    using side_inv_fst [OF inv] side_inv_snd [OF inv] L by (metis map_append)+
  have i: "bisect_left s p = length (map fst ?A)" "bisect_left s p = length (map snd ?A)"
    using bisect_left_levels [OF inv] by simp_all
  show ?thesis
  proof (cases rule: sorted_levels_at [OF side_inv_levels [OF inv], of p])
    case 1
    have absent: "\<not> (bisect_left s p < length (prices s) \<and> prices s ! bisect_left s p = p)"
    proof
      assume "bisect_left s p < length (prices s) \<and> prices s ! bisect_left s p = p"
      then have B: "?B \<noteq> []" "fst (?B ! 0) = p" using ps i 1 by (auto simp: nth_append)
      then have "?B ! 0 \<in> set ?B" by (metis length_greater_0_conv nth_mem)
      then show False using B(2) by simp
    qed
    have "levels (upsert s p q) = (if q = 0 then levels s else ?A @ (p, q) # ?B)"
      unfolding upsert_def Let_def if_not_P [OF absent] using i ps ss 1 by (simp add: zip_map_fst_snd)
    then show ?thesis using L 1 by simp
  next
    case (2 q')
    have present: "bisect_left s p < length (prices s) \<and> prices s ! bisect_left s p = p"
      using ps i 2 by (simp add: nth_append)
    have "levels (upsert s p q) = (if q = 0 then ?A @ ?B else ?A @ (p, q) # ?B)"
      unfolding upsert_def Let_def if_P [OF present]
      using i ps ss 2 by (simp add: zip_map_fst_snd list_update_append)
    then show ?thesis by simp
  qed
qed

lemma side_inv_iff:
  "side_inv s \<longleftrightarrow>
   length (sizes s) = length (prices s) \<and> sorted_levels (levels s) \<and> 0 \<notin> snd ` set (levels s)"
proof (cases "length (sizes s) = length (prices s)")
  case True
  then have "map fst (levels s) = prices s" "snd ` set (levels s) = set (sizes s)"
    by (simp_all add: levels_def flip: set_map)
  with True show ?thesis by (simp add: side_inv_def)
qed (simp add: side_inv_def)

lemma upsert_lengths:
  "length (sizes s) = length (prices s) \<Longrightarrow>
   length (sizes (upsert s p q)) = length (prices (upsert s p q))"
  by (simp add: upsert_def Let_def vec_insert_def vec_remove_def)

lemma side_inv_upsert [inv_intros]:
  assumes inv: "side_inv s"
  shows "side_inv (upsert s p q)"
proof -
  have "sorted_levels (filter P (levels s))" for P
    using side_inv_levels [OF inv] by (simp add: sorted_wrt_map sorted_wrt_filter)
  then have "sorted_levels (levels (upsert s p q))"
    unfolding levels_upsert [OF inv] by (auto simp: sorted_wrt_append)
  moreover have "0 \<notin> snd ` set (levels (upsert s p q))"
    using inv unfolding levels_upsert [OF inv] side_inv_iff by auto
  moreover have "length (sizes (upsert s p q)) = length (prices (upsert s p q))"
    using inv upsert_lengths by (simp add: side_inv_def)
  ultimately show ?thesis by (simp add: side_inv_iff)
qed

lemma map_of_filter_key: "map_of (filter (\<lambda>l. P (fst l)) L) x = (if P x then map_of L x else None)"
  by (induction L) auto

lemma level_map_upsert:
  assumes "side_inv s"
  shows "level_map (upsert s p q) = (level_map s)(p := if q = 0 then None else Some q)"
proof
  fix x
  show "level_map (upsert s p q) x = ((level_map s)(p := if q = 0 then None else Some q)) x"
    unfolding level_map_def levels_upsert [OF assms]
    using map_of_filter_key [of "\<lambda>y. y < p" "levels s" x] map_of_filter_key [of "\<lambda>y. p < y" "levels s" x]
    by (auto simp: map_add_def split: option.splits)
qed

section \<open>Range sums and extreme prices\<close>

lemma foldl_plus: "foldl (+) (a :: 'a :: comm_monoid_add) xs = a + sum_list xs"
  by (induction xs arbitrary: a) (auto simp: add.assoc)

lemma sum_levels:
  "distinct (map fst L) \<Longrightarrow> sum_list (map snd L) = (\<Sum>p \<in> fst ` set L. the (map_of L p))"
proof (induction L)
  case Nil
  then show ?case by simp
next
  case (Cons l L)
  have "(\<Sum>p \<in> fst ` set L. the (map_of (l # L) p)) = (\<Sum>p \<in> fst ` set L. the (map_of L p))"
    using Cons.prems by (intro sum.cong) (auto simp: image_iff)
  with Cons show ?case by (cases l) simp
qed

text \<open>Total size of the levels whose price satisfies \<open>P\<close>.\<close>

definition depth_where :: "(f64 \<rightharpoonup> f64) \<Rightarrow> (f64 \<Rightarrow> bool) \<Rightarrow> f64" where
  "depth_where m P = (\<Sum>p | p \<in> dom m \<and> P p. the (m p))"

lemma depth_where_levels:
  assumes "side_inv s"
  shows "depth_where (level_map s) P = sum_list (map snd (filter (\<lambda>l. P (fst l)) (levels s)))"
proof -
  let ?F = "filter (\<lambda>l. P (fst l)) (levels s)"
  have "distinct (map fst (levels s))" using side_inv_levels [OF assms] by (simp add: strict_sorted_iff)
  then have "sum_list (map snd ?F) = (\<Sum>p \<in> fst ` set ?F. the (map_of ?F p))"
    by (intro sum_levels) (rule distinct_map_filter)
  also have "\<dots> = (\<Sum>p \<in> fst ` set ?F. the (map_of (levels s) p))"
    by (rule sum.cong) (auto simp: map_of_filter_key)
  also have "fst ` set ?F = {p. p \<in> dom (level_map s) \<and> P p}"
    by (auto simp: level_map_def dom_map_of_conv_image_fst)
  finally show ?thesis by (simp add: depth_where_def level_map_def)
qed

lemma sorted_levels_drop:
  "sorted_levels L \<Longrightarrow>
   drop (length (filter (\<lambda>l. fst l < m) L)) L = filter (\<lambda>l. m \<le> fst l) L"
proof (induction L)
  case (Cons l L)
  then have "\<forall>x \<in> set L. fst l < fst x" by simp
  then have "m \<le> fst l \<Longrightarrow> filter (\<lambda>l. fst l < m) L = [] \<and> filter (\<lambda>l. m \<le> fst l) L = L"
    by (fastforce simp: filter_empty_conv filter_id_conv)
  with Cons show ?case by (cases "fst l < m") auto
qed simp

lemma sorted_levels_take:
  "sorted_levels L \<Longrightarrow>
   take (length (filter (\<lambda>l. fst l \<le> m) L)) L = filter (\<lambda>l. fst l \<le> m) L"
proof (induction L)
  case (Cons l L)
  then have "\<forall>x \<in> set L. fst l < fst x" by simp
  then have "m < fst l \<Longrightarrow> filter (\<lambda>l. fst l \<le> m) L = []"
    by (fastforce simp: filter_empty_conv)
  with Cons show ?case by (cases "fst l \<le> m") auto
qed simp

lemma bisect_right_levels:
  assumes "side_inv s"
  shows "bisect_right s p = length (filter (\<lambda>l. fst l \<le> p) (levels s))"
proof -
  have "takeWhile (\<lambda>x. x \<le> p) (prices s) = filter (\<lambda>x. x \<le> p) (prices s)"
    using side_inv_sorted [OF assms] by (rule filter_eq_takeWhile_sorted [symmetric]) auto
  also have "\<dots> = map fst (filter (\<lambda>l. fst l \<le> p) (levels s))"
    unfolding side_inv_fst [OF assms, symmetric] by (simp add: filter_map comp_def)
  finally show ?thesis using bisect_takeWhile(2) [OF side_inv_sorted [OF assms]] by simp
qed

lemma sum_sizes_depth:
  assumes inv: "side_inv s"
  shows "sum_sizes_from s m = depth_where (level_map s) (\<lambda>p. m \<le> p)"
    and "sum_sizes_to s m = depth_where (level_map s) (\<lambda>p. p \<le> m)"
proof -
  note cut = sorted_levels_drop [OF side_inv_levels [OF inv], of m] sorted_levels_take [OF side_inv_levels [OF inv], of m]
  have "drop (bisect_left s m) (sizes s) = map snd (filter (\<lambda>l. m \<le> fst l) (levels s))"
    unfolding side_inv_snd [OF inv, symmetric] bisect_left_levels [OF inv] drop_map cut ..
  then show "sum_sizes_from s m = depth_where (level_map s) (\<lambda>p. m \<le> p)"
    by (simp add: sum_sizes_from_def foldl_plus depth_where_levels [OF inv])
  have "take (bisect_right s m) (sizes s) = map snd (filter (\<lambda>l. fst l \<le> m) (levels s))"
    unfolding side_inv_snd [OF inv, symmetric] bisect_right_levels [OF inv] take_map cut ..
  then show "sum_sizes_to s m = depth_where (level_map s) (\<lambda>p. p \<le> m)"
    by (simp add: sum_sizes_to_def foldl_plus depth_where_levels [OF inv])
qed

lemma sorted_levels_extreme:
  assumes "sorted_levels L" and "L \<noteq> []"
  shows "p \<in> fst ` set L \<Longrightarrow> p \<le> fst (last L)" and "p \<in> fst ` set L \<Longrightarrow> fst (hd L) \<le> p"
proof -
  from assms(1) have "sorted (map fst L)" by (simp add: strict_sorted_iff)
  then show "p \<in> fst ` set L \<Longrightarrow> p \<le> fst (last L)" "p \<in> fst ` set L \<Longrightarrow> fst (hd L) \<le> p"
    using assms(2) by (induction L) (auto split: if_splits)
qed

lemma highest_levels:
  assumes inv: "side_inv s"
  shows "highest s = (if levels s = [] then None else Some (last (levels s)))"
    and "lowest s = (if levels s = [] then None else Some (hd (levels s)))"
proof -
  have len: "length (sizes s) = length (prices s)" using inv by (simp add: side_inv_def)
  show "highest s = (if levels s = [] then None else Some (last (levels s)))"
    using len by (auto simp: highest_def Let_def levels_def last_conv_nth)
  show "lowest s = (if levels s = [] then None else Some (hd (levels s)))"
    using len by (auto simp: lowest_def levels_def hd_conv_nth)
qed

lemma level_map_entry:
  assumes "side_inv s" and "l \<in> set (levels s)"
  shows "level_map s (fst l) = Some (snd l)"
  using side_inv_levels [OF assms(1)] assms(2)
  by (simp add: level_map_def strict_sorted_iff map_of_eq_Some_iff)

lemma highest_spec:
  assumes inv: "side_inv s"
  shows "highest s = None \<longleftrightarrow> dom (level_map s) = {}"
    and "highest s = Some (p, q) \<Longrightarrow> level_map s p = Some q \<and> (\<forall>x \<in> dom (level_map s). x \<le> p)"
    and "lowest s = None \<longleftrightarrow> dom (level_map s) = {}"
    and "lowest s = Some (p, q) \<Longrightarrow> level_map s p = Some q \<and> (\<forall>x \<in> dom (level_map s). p \<le> x)"
proof -
  have dom: "dom (level_map s) = fst ` set (levels s)"
    by (simp add: level_map_def dom_map_of_conv_image_fst)
  note ext = sorted_levels_extreme [OF side_inv_levels [OF inv]]
  show "highest s = None \<longleftrightarrow> dom (level_map s) = {}" "lowest s = None \<longleftrightarrow> dom (level_map s) = {}"
    by (simp_all add: highest_levels [OF inv] dom)
  show "highest s = Some (p, q) \<Longrightarrow> level_map s p = Some q \<and> (\<forall>x \<in> dom (level_map s). x \<le> p)"
    using level_map_entry [OF inv, of "(p, q)"] ext(1)
    by (auto simp: highest_levels [OF inv] dom split: if_splits) (metis fst_conv last_in_set snd_conv)+
  show "lowest s = Some (p, q) \<Longrightarrow> level_map s p = Some q \<and> (\<forall>x \<in> dom (level_map s). p \<le> x)"
    using level_map_entry [OF inv, of "(p, q)"] ext(2)
    by (auto simp: highest_levels [OF inv] dom split: if_splits) (metis fst_conv list.set_sel(1) snd_conv)+
qed

section \<open>Snapshots\<close>

lemma levels_snapshot: "levels (side_apply_snapshot s ls) = sort_key fst (filter (\<lambda>(_, q). q \<noteq> 0) ls)"
  by (simp add: side_apply_snapshot_def Let_def zip_map_fst_snd)

lemma distinct_kept:
  assumes "distinct (map fst ls)"
  shows "distinct (map fst (sort_key fst (filter P ls)))" and "distinct (map fst (filter P ls))"
  using assms by (simp_all add: distinct_map_sort_key distinct_map_filter)

lemma side_inv_snapshot [inv_intros]:
  assumes "distinct (map fst ls)"
  shows "side_inv (side_apply_snapshot s ls)"
proof -
  have "sorted_levels (sort_key fst (filter (\<lambda>(_, q). q \<noteq> 0) ls))"
    unfolding strict_sorted_iff using distinct_kept(1) [OF assms] by simp
  moreover have "length (sizes (side_apply_snapshot s ls)) = length (prices (side_apply_snapshot s ls))"
    by (simp add: side_apply_snapshot_def Let_def)
  ultimately show ?thesis unfolding side_inv_iff levels_snapshot by auto
qed

lemma level_map_snapshot:
  assumes "distinct (map fst ls)"
  shows "level_map (side_apply_snapshot s ls) = map_of (filter (\<lambda>(_, q). q \<noteq> 0) ls)"
proof -
  have "map_of (sort_key fst (filter (\<lambda>(_, q). q \<noteq> 0) ls)) = map_of (filter (\<lambda>(_, q). q \<noteq> 0) ls)"
    using distinct_kept [OF assms] by (subst map_of_inject_set) simp_all
  then show ?thesis by (simp add: level_map_def levels_snapshot)
qed

section \<open>The interface of a price-level store\<close>

text \<open>
  What the clients of a book side rely on: \<open>put\<close> keeps the invariant and changes the level
  map at one price only, deleting the level when the size is \<open>absent\<close>.
\<close>

locale price_levels =
  fixes put :: "'s \<Rightarrow> 'p \<Rightarrow> 'q \<Rightarrow> 's"
    and view :: "'s \<Rightarrow> 'p \<rightharpoonup> 'q"
    and ok :: "'s \<Rightarrow> bool"
    and absent :: "'q \<Rightarrow> bool"
  assumes put_ok: "ok s \<Longrightarrow> ok (put s p q)"
    and view_put: "ok s \<Longrightarrow> view (put s p q) = (view s)(p := if absent q then None else Some q)"
begin

lemma puts_ok: "ok s \<Longrightarrow> ok (foldl (\<lambda>t (p, q). put t p q) s ds)"
  by (induction ds arbitrary: s) (auto intro: put_ok)

text \<open>Of several writes to one price, the last decides; other prices keep their level.\<close>

lemma puts_last_write:
  "ok s \<Longrightarrow> view (foldl (\<lambda>t (p, q). put t p q) s ds) x =
    (case map_of (rev ds) x of
       None \<Rightarrow> view s x
     | Some q \<Rightarrow> if absent q then None else Some q)"
proof (induction ds arbitrary: s)
  case (Cons d ds)
  obtain p q where d: "d = (p, q)" by (cases d)
  show ?case using Cons.IH [of "put s p q"] Cons.prems
    by (auto simp: d put_ok view_put map_add_def split: option.splits)
qed simp

end

interpretation side_levels: price_levels upsert level_map side_inv "\<lambda>q. q = 0"
  by unfold_locales (auto intro: side_inv_upsert simp: level_map_upsert)

section \<open>Properties of the book\<close>

definition book_inv :: "local_book \<Rightarrow> bool" where
  "book_inv b \<longleftrightarrow> side_inv (bids b) \<and> side_inv (asks b)"

text \<open>The level a sequence of writes leaves at a price: the last write, none if it is zero.\<close>

definition last_write :: "(f64 \<times> f64) list \<Rightarrow> f64 \<rightharpoonup> f64" where
  "last_write ds x = (case map_of (rev ds) x of None \<Rightarrow> None | Some q \<Rightarrow> if q = 0 then None else Some q)"

lemma side_inv_delta [inv_intros]: "side_inv s \<Longrightarrow> side_inv (side_apply_delta s ds)"
  unfolding side_apply_delta_def by (rule side_levels.puts_ok)

lemma last_write_snapshot:
  assumes "distinct (map fst ls)"
  shows "level_map (side_apply_snapshot s ls) = last_write ls"
proof
  fix x
  have "map_of (rev ls) = map_of ls" using assms by (subst map_of_inject_set) (simp_all add: rev_map [symmetric])
  moreover have "map_of (filter (\<lambda>(_, q). q \<noteq> 0) ls) x =
      (case map_of ls x of None \<Rightarrow> None | Some q \<Rightarrow> if q = 0 then None else Some q)"
    using assms
  proof (induction ls)
    case (Cons l ls)
    have "map_of ls (fst l) = None" using Cons.prems by (simp add: map_of_eq_None_iff)
    then show ?case using Cons by (cases l) auto
  qed simp
  ultimately show "level_map (side_apply_snapshot s ls) x = last_write ls x"
    by (simp add: level_map_snapshot [OF assms] last_write_def)
qed

lemma last_write_delta:
  assumes "side_inv s" and "level_map s = last_write ds"
  shows "level_map (side_apply_delta s es) = last_write (ds @ es)"
proof
  fix x
  show "level_map (side_apply_delta s es) x = last_write (ds @ es) x"
    using side_levels.puts_last_write [OF assms(1), of es x]
    by (simp add: side_apply_delta_def assms(2) last_write_def map_add_def split: option.splits)
qed

definition apply_deltas :: "local_book \<Rightarrow> ((f64 \<times> f64) list \<times> (f64 \<times> f64) list) list \<Rightarrow> local_book" where
  "apply_deltas b us = foldl (\<lambda>b (db, da). apply_delta b db da) b us"

lemma apply_deltas_replay:
  assumes "book_inv b" and "level_map (bids b) = last_write B" and "level_map (asks b) = last_write A"
  shows "book_inv (apply_deltas b us) \<and>
    level_map (bids (apply_deltas b us)) = last_write (B @ concat (map fst us)) \<and>
    level_map (asks (apply_deltas b us)) = last_write (A @ concat (map snd us))"
  using assms
proof (induction us arbitrary: b B A)
  case (Cons u us)
  obtain db da where u: "u = (db, da)" by (cases u)
  let ?b = "apply_delta b db da"
  have "book_inv ?b" using Cons.prems(1) by (auto simp: book_inv_def apply_delta_def intro: side_inv_delta)
  moreover have "level_map (bids ?b) = last_write (B @ db)" "level_map (asks ?b) = last_write (A @ da)"
    using Cons.prems by (auto simp: book_inv_def apply_delta_def last_write_delta)
  ultimately show ?case using Cons.IH [of ?b "B @ db" "A @ da"] by (simp add: u apply_deltas_def)
qed (simp add: apply_deltas_def)

text \<open>
  C30. Replaying a snapshot that names each price at most once per side (a price named twice
  would be kept twice) and any stream of deltas, which may repeat prices: both sides stay sorted with
  parallel, zero-free vectors, and each price holds exactly what the last message naming it said, so
  the optimised binary-search representation implements the price-to-size map of the feed.
\<close>

theorem book_replays_feed:
  assumes "distinct (map fst bs)" and "distinct (map fst as')"
  shows "book_inv (apply_deltas (apply_snapshot b bs as') us) \<and>
    level_map (bids (apply_deltas (apply_snapshot b bs as') us)) = last_write (bs @ concat (map fst us)) \<and>
    level_map (asks (apply_deltas (apply_snapshot b bs as') us)) = last_write (as' @ concat (map snd us))"
  using assms
  by (intro apply_deltas_replay)
    (simp_all add: apply_snapshot_def book_inv_def side_inv_snapshot last_write_snapshot)

theorem book_replays_feed_witness:
  "level_map (bids (apply_deltas (apply_snapshot book_new [(100, 5), (99, 3)] [(101, 4)])
     [([(100, 0), (98, 7)], []), ([(98, 2)], [(101, 1)])])) 98 = Some 2"
proof -
  have "distinct (map fst [(100, 5), (99, 3) :: f64 \<times> f64])" "distinct (map fst [(101, 4) :: f64 \<times> f64])"
    by simp_all
  from book_replays_feed [OF this, of book_new "[([(100, 0), (98, 7)], []), ([(98, 2)], [(101, 1)])]"]
  show ?thesis by (simp add: last_write_def)
qed

text \<open>
  On a well-formed book the best bid and ask are the extreme prices of the two level maps
  (absent exactly when the side is empty), and the range sums the alpha computation uses are
  the total size of the levels in the range.
\<close>

theorem book_queries_correct:
  assumes "book_inv b"
  shows "(best_bid b = None \<longleftrightarrow> dom (level_map (bids b)) = {}) \<and>
    (best_ask b = None \<longleftrightarrow> dom (level_map (asks b)) = {}) \<and>
    (\<forall>p. best_bid b = Some p \<longrightarrow> p \<in> dom (level_map (bids b)) \<and> (\<forall>x \<in> dom (level_map (bids b)). x \<le> p)) \<and>
    (\<forall>p. best_ask b = Some p \<longrightarrow> p \<in> dom (level_map (asks b)) \<and> (\<forall>x \<in> dom (level_map (asks b)). p \<le> x)) \<and>
    sum_sizes_from (bids b) m = depth_where (level_map (bids b)) (\<lambda>p. m \<le> p) \<and>
    sum_sizes_to (asks b) m = depth_where (level_map (asks b)) (\<lambda>p. p \<le> m)"
proof -
  have inv: "side_inv (bids b)" "side_inv (asks b)" using assms by (simp_all add: book_inv_def)
  have "(\<forall>p. best_bid b = Some p \<longrightarrow> p \<in> dom (level_map (bids b)) \<and> (\<forall>x \<in> dom (level_map (bids b)). x \<le> p))"
    using highest_spec(2) [OF inv(1)] unfolding best_bid_def by fastforce
  moreover have "(\<forall>p. best_ask b = Some p \<longrightarrow> p \<in> dom (level_map (asks b)) \<and> (\<forall>x \<in> dom (level_map (asks b)). p \<le> x))"
    using highest_spec(4) [OF inv(2)] unfolding best_ask_def by fastforce
  moreover have "best_bid b = None \<longleftrightarrow> dom (level_map (bids b)) = {}" "best_ask b = None \<longleftrightarrow> dom (level_map (asks b)) = {}"
    using highest_spec(1) [OF inv(1)] highest_spec(3) [OF inv(2)] by (simp_all add: best_bid_def best_ask_def)
  ultimately show ?thesis using sum_sizes_depth(1) [OF inv(1)] sum_sizes_depth(2) [OF inv(2)] by simp
qed

theorem book_queries_correct_witness:
  "sum_sizes_from (bids (apply_snapshot book_new [(100, 5), (99, 3)] [(101, 4)])) 100 =
   depth_where (level_map (bids (apply_snapshot book_new [(100, 5), (99, 3)] [(101, 4)]))) (\<lambda>p. 100 \<le> p)"
proof -
  have "book_inv (apply_snapshot book_new [(100, 5), (99, 3)] [(101, 4)])"
    by (simp add: book_inv_def apply_snapshot_def side_inv_snapshot)
  from book_queries_correct [OF this, of 100] show ?thesis by simp
qed

end
