(* ===== verification/Vol_Obi.thy ===== *)
theory Vol_Obi
  imports Rolling Local_Book
begin

text \<open>
  \<^verbatim>\<open>src/src/strategy/vol_obi.rs\<close>: the quote engine. Book updates are sampled on the
  \<open>step_ns\<close> clock into two rolling windows (mid changes and order-book imbalance);
  \<open>quote\<close> turns volatility, alpha and inventory into a bid and an ask on the tick grid.
  The lemmas show what the windows hold after any feed, how far apart the samples are, and
  what every quote satisfies.
\<close>

section \<open>Definitions\<close>

record vol_obi_config =
  cfg_window_steps :: nat
  cfg_step_ns :: int
  cfg_vol_to_half_spread :: f64
  cfg_min_half_spread_bps :: f64
  cfg_c1_ticks :: f64
  cfg_c1 :: f64
  cfg_skew :: f64
  cfg_looking_depth :: f64
  cfg_min_warmup_samples :: int

definition default_vol_obi_config :: vol_obi_config where
  "default_vol_obi_config =
     \<lparr>cfg_window_steps = 6000, cfg_step_ns = 100000000, cfg_vol_to_half_spread = 8 / 10,
      cfg_min_half_spread_bps = 2, cfg_c1_ticks = 160, cfg_c1 = 0, cfg_skew = 1,
      cfg_looking_depth = 25 / 1000, cfg_min_warmup_samples = 100\<rparr>"

record vol_obi_calculator =
  mid_stats :: rolling_stats
  imb_stats :: rolling_stats
  prev_mid :: f64
  has_prev_mid :: bool
  volatility :: f64
  alpha :: f64
  local_alpha :: f64
  alpha_override :: f64
  has_alpha_override :: bool
  warmed_up :: bool
  total_samples :: int
  tick_size :: f64
  step_ns :: int
  last_sample_ns :: int
  vol_scale :: f64
  vol_to_half_spread :: f64
  min_half_spread_bps :: f64
  c1 :: f64
  skew :: f64
  looking_depth :: f64
  min_warmup_samples :: int
  max_position_dollar :: f64

text \<open>
  \<open>new\<close> asserts a positive tick, and the two windows a positive capacity: \<open>None\<close> is the panic. For a
  configured step that is not positive the source's scale is infinite or NaN, which a real cannot be:
  \<open>vol_scale\<close> is the source's for a positive \<open>cfg_step_ns\<close> only.
\<close>

definition calculator_new :: "vol_obi_config \<Rightarrow> f64 \<Rightarrow> f64 \<Rightarrow> vol_obi_calculator option" where
  "calculator_new cfg tick max_pos =
     (if \<not> 0 < tick then None
      else case rolling_new (cfg_window_steps cfg) of
        None \<Rightarrow> None
      | Some rs \<Rightarrow> Some
          \<lparr>mid_stats = rs, imb_stats = rs, prev_mid = 0, has_prev_mid = False,
           volatility = 0, alpha = 0, local_alpha = 0, alpha_override = 0,
           has_alpha_override = False, warmed_up = False, total_samples = 0,
           tick_size = tick, step_ns = max (cfg_step_ns cfg) 1, last_sample_ns = 0,
           vol_scale = sqrt (10 ^ 9 / of_int (cfg_step_ns cfg)),
           vol_to_half_spread = cfg_vol_to_half_spread cfg,
           min_half_spread_bps = cfg_min_half_spread_bps cfg,
           c1 = (if 0 < cfg_c1 cfg then cfg_c1 cfg else cfg_c1_ticks cfg * tick),
           skew = cfg_skew cfg, looking_depth = cfg_looking_depth cfg,
           min_warmup_samples = cfg_min_warmup_samples cfg, max_position_dollar = max_pos\<rparr>)"

definition sample_due :: "vol_obi_calculator \<Rightarrow> int \<Rightarrow> bool" where
  "sample_due c now_ns \<longleftrightarrow> last_sample_ns c = 0 \<or> step_ns c \<le> now_ns - last_sample_ns c"

definition book_imbalance :: "f64 \<Rightarrow> f64 \<Rightarrow> book_side \<Rightarrow> book_side \<Rightarrow> f64" where
  "book_imbalance depth mid bs as' =
     (let lower = mid * (1 - depth); upper = mid * (1 + depth)
      in sum_sizes_from bs lower - sum_sizes_to as' upper)"

text \<open>The three numbered steps of \<open>on_book_update\<close>.\<close>

definition sample_mid :: "vol_obi_calculator \<Rightarrow> int \<Rightarrow> f64 \<Rightarrow> vol_obi_calculator" where
  "sample_mid c now_ns mid =
     (let c1 = (if has_prev_mid c
                then c\<lparr>mid_stats := push (mid_stats c) (mid - prev_mid c),
                       total_samples := total_samples c + 1\<rparr>
                else c)
      in c1\<lparr>prev_mid := mid, has_prev_mid := True, last_sample_ns := now_ns\<rparr>)"

definition refresh_signals :: "vol_obi_calculator \<Rightarrow> bool \<Rightarrow> f64 \<Rightarrow> vol_obi_calculator" where
  "refresh_signals c due imbalance =
     (if min_warmup_samples c \<le> total_samples c
      then let la = zscore (imb_stats c) imbalance
           in c\<lparr>warmed_up := True,
                volatility := (if due then cached_std (mid_stats c) * vol_scale c else volatility c),
                local_alpha := la,
                alpha := (if has_alpha_override c then alpha_override c else la)\<rparr>
      else c)"

definition on_book_update ::
  "vol_obi_calculator \<Rightarrow> int \<Rightarrow> f64 \<Rightarrow> book_side \<Rightarrow> book_side \<Rightarrow> vol_obi_calculator" where
  "on_book_update c now_ns mid bs as' =
     (let due = sample_due c now_ns;
          c1 = (if due then sample_mid c now_ns mid else c);
          imbalance = book_imbalance (looking_depth c) mid bs as';
          c2 = (if due then c1\<lparr>imb_stats := push (imb_stats c1) imbalance\<rparr> else c1)
      in refresh_signals c2 due imbalance)"

definition norm_pos :: "vol_obi_calculator \<Rightarrow> f64 \<Rightarrow> f64 \<Rightarrow> f64" where
  "norm_pos c mid position =
     (if 0 < max_position_dollar c
      then clamp ((position * mid) / max_position_dollar c) (- 1) 1
      else 0)"

definition raw_quote :: "vol_obi_calculator \<Rightarrow> f64 \<Rightarrow> f64 \<Rightarrow> f64 \<times> f64" where
  "raw_quote c mid position =
     (let tick = tick_size c;
          half_spread_tick = volatility c * vol_to_half_spread c / tick;
          fair_price = mid + c1 c * alpha c;
          np = norm_pos c mid position;
          bid_depth = max 0 (half_spread_tick * (1 + skew c * np));
          ask_depth = max 0 (half_spread_tick * (1 - skew c * np));
          raw_bid = fair_price - bid_depth * tick;
          raw_ask = fair_price + ask_depth * tick
      in if 0 < min_half_spread_bps c
         then (min raw_bid (mid * (1 - min_half_spread_bps c / 10000)),
               max raw_ask (mid * (1 + min_half_spread_bps c / 10000)))
         else (raw_bid, raw_ask))"

definition quote :: "vol_obi_calculator \<Rightarrow> f64 \<Rightarrow> f64 \<Rightarrow> (f64 \<times> f64) option" where
  "quote c mid position =
     (if \<not> warmed_up c then None
      else let (raw_bid, raw_ask) = raw_quote c mid position;
               bid = of_int \<lfloor>raw_bid / tick_size c\<rfloor> * tick_size c;
               ask = of_int \<lceil>raw_ask / tick_size c\<rceil> * tick_size c
           in if ask \<le> bid then None else Some (bid, ask))"

definition set_alpha_override :: "vol_obi_calculator \<Rightarrow> f64 option \<Rightarrow> vol_obi_calculator" where
  "set_alpha_override c a =
     (case a of
        None \<Rightarrow> c\<lparr>has_alpha_override := False,
                  alpha := (if warmed_up c then local_alpha c else alpha c)\<rparr>
      | Some x \<Rightarrow> c\<lparr>has_alpha_override := True, alpha_override := x,
                    alpha := (if warmed_up c then x else alpha c)\<rparr>)"

definition set_max_position_dollar :: "vol_obi_calculator \<Rightarrow> f64 \<Rightarrow> vol_obi_calculator" where
  "set_max_position_dollar c v = c\<lparr>max_position_dollar := (if 0 < v then v else 0)\<rparr>"

definition calculator_reset :: "vol_obi_calculator \<Rightarrow> vol_obi_calculator" where
  "calculator_reset c =
     c\<lparr>mid_stats := rolling_clear (mid_stats c), imb_stats := rolling_clear (imb_stats c),
       prev_mid := 0, has_prev_mid := False, volatility := 0, alpha := 0, local_alpha := 0,
       has_alpha_override := False, warmed_up := False, total_samples := 0, last_sample_ns := 0\<rparr>"

section \<open>Sampling\<close>

record book_tick =
  t_now :: int
  t_mid :: f64
  t_bids :: book_side
  t_asks :: book_side

definition feed_tick :: "vol_obi_calculator \<Rightarrow> book_tick \<Rightarrow> vol_obi_calculator" where
  "feed_tick c t = on_book_update c (t_now t) (t_mid t) (t_bids t) (t_asks t)"

text \<open>
  The specification of the sampling clock: a tick is taken when it is the first one or
  arrives at least one step after the last one taken.
\<close>

definition take_tick :: "int \<Rightarrow> book_tick list \<Rightarrow> book_tick \<Rightarrow> book_tick list" where
  "take_tick step S t = (if S = [] \<or> step \<le> t_now t - t_now (last S) then S @ [t] else S)"

definition sampled :: "int \<Rightarrow> book_tick list \<Rightarrow> book_tick list" where
  "sampled step ts = foldl (take_tick step) [] ts"

fun changes :: "f64 list \<Rightarrow> f64 list" where
  "changes (x # y # zs) = (y - x) # changes (y # zs)"
| "changes _ = []"

lemma changes_snoc: "xs \<noteq> [] \<Longrightarrow> changes (xs @ [y]) = changes xs @ [y - last xs]"
  by (induction xs rule: changes.induct) auto

lemma length_changes: "length (changes xs) = length xs - 1"
  by (induction xs rule: changes.induct) auto

definition tick_imbalance :: "vol_obi_calculator \<Rightarrow> book_tick \<Rightarrow> f64" where
  "tick_imbalance c t = book_imbalance (looking_depth c) (t_mid t) (t_bids t) (t_asks t)"

text \<open>What the calculator knows after the samples \<open>S\<close> were taken, started from \<open>c0\<close>.\<close>

definition tracks :: "vol_obi_calculator \<Rightarrow> vol_obi_calculator \<Rightarrow> book_tick list \<Rightarrow> bool" where
  "tracks c0 c S \<longleftrightarrow>
     mid_stats c = foldl push (mid_stats c0) (changes (map t_mid S)) \<and>
     imb_stats c = foldl push (imb_stats c0) (map (tick_imbalance c0) S) \<and>
     has_prev_mid c = (S \<noteq> []) \<and> (S \<noteq> [] \<longrightarrow> prev_mid c = t_mid (last S)) \<and>
     last_sample_ns c = (if S = [] then 0 else t_now (last S)) \<and>
     total_samples c = int (length (changes (map t_mid S))) \<and>
     warmed_up c = (S \<noteq> [] \<and> min_warmup_samples c0 \<le> total_samples c) \<and>
     (warmed_up c \<longrightarrow> volatility c = cached_std (mid_stats c) * vol_scale c0) \<and>
     step_ns c = step_ns c0 \<and> looking_depth c = looking_depth c0 \<and> vol_scale c = vol_scale c0 \<and>
     min_warmup_samples c = min_warmup_samples c0 \<and> tick_size c = tick_size c0"

lemma tracks_feed:
  assumes tr: "tracks c0 c S" and pos: "\<forall>s \<in> set S. 0 < t_now s"
  shows "tracks c0 (feed_tick c t) (take_tick (step_ns c0) S t)"
proof (cases "S = [] \<or> step_ns c0 \<le> t_now t - t_now (last S)")
  case True
  with tr have due: "sample_due c (t_now t)" by (auto simp: sample_due_def tracks_def)
  from True have S: "take_tick (step_ns c0) S t = S @ [t]" by (simp add: take_tick_def)
  have ch: "changes (map t_mid (S @ [t])) =
      changes (map t_mid S) @ (if S = [] then [] else [t_mid t - t_mid (last S)])"
    using changes_snoc [of "map t_mid S"] by (simp add: last_map)
  show ?thesis
    using tr unfolding tracks_def S ch feed_tick_def on_book_update_def Let_def if_P [OF due]
    by (simp add: due sample_mid_def refresh_signals_def Let_def tick_imbalance_def)
next
  case False
  moreover from False pos have "t_now (last S) \<noteq> 0" by (metis last_in_set less_irrefl)
  ultimately have due: "\<not> sample_due c (t_now t)" using tr by (auto simp: sample_due_def tracks_def)
  from False have S: "take_tick (step_ns c0) S t = S" by (auto simp: take_tick_def)
  show ?thesis
    using tr False unfolding tracks_def S feed_tick_def on_book_update_def Let_def if_not_P [OF due]
    by (auto simp: due refresh_signals_def Let_def)
qed

lemma take_tick_set: "set (take_tick step S t) \<subseteq> insert t (set S)"
  by (auto simp: take_tick_def)

lemma tracks_run:
  assumes "tracks c0 c S" and "\<forall>s \<in> set S \<union> set ts. 0 < t_now s"
  shows "tracks c0 (foldl feed_tick c ts) (foldl (take_tick (step_ns c0)) S ts)"
  using assms
proof (induction ts arbitrary: c S)
  case (Cons t ts)
  have "tracks c0 (feed_tick c t) (take_tick (step_ns c0) S t)"
    using Cons.prems by (intro tracks_feed) auto
  moreover have "\<forall>s \<in> set (take_tick (step_ns c0) S t) \<union> set ts. 0 < t_now s"
    using Cons.prems(2) take_tick_set [of "step_ns c0" S t] by auto
  ultimately show ?case using Cons.IH by simp
qed simp

lemma calculator_new_tracks:
  assumes "calculator_new cfg tick mp = Some c0"
  shows "tracks c0 c0 []" "rolling_new (cfg_window_steps cfg) = Some (mid_stats c0)"
    and "step_ns c0 = max (cfg_step_ns cfg) 1" "0 < tick" "tick_size c0 = tick"
    and "vol_scale c0 = sqrt (10 ^ 9 / of_int (cfg_step_ns cfg))"
    and "min_warmup_samples c0 = cfg_min_warmup_samples cfg"
  using assms by (auto simp: calculator_new_def tracks_def split: if_splits option.splits)

lemma sampled_spacing_run:
  "successively (\<lambda>a b. step \<le> t_now b - t_now a) S \<Longrightarrow>
   successively (\<lambda>a b. step \<le> t_now b - t_now a) (foldl (take_tick step) S ts)"
proof (induction ts arbitrary: S)
  case (Cons t ts)
  have "successively (\<lambda>a b. step \<le> t_now b - t_now a) (take_tick step S t)"
    using Cons.prems by (auto simp: take_tick_def successively_append_iff)
  then show ?case using Cons.IH by simp
qed simp

lemma sampled_Nil_iff: "sampled step ts = [] \<longleftrightarrow> ts = []"
proof (cases ts)
  case (Cons t us)
  have "S \<noteq> [] \<Longrightarrow> foldl (take_tick step) S us \<noteq> []" for S
    by (induction us arbitrary: S) (auto simp: take_tick_def)
  then show ?thesis by (simp add: Cons sampled_def take_tick_def)
qed (simp add: sampled_def)

lemma sampled_all:
  assumes "successively (\<lambda>a b. step \<le> t_now b - t_now a) ts"
  shows "sampled step ts = ts"
proof -
  have "foldl (take_tick step) S us = S @ us" if "successively (\<lambda>a b. step \<le> t_now b - t_now a) (S @ us)" for S us
    using that
  proof (induction us arbitrary: S)
    case (Cons u us)
    then have "take_tick step S u = S @ [u]" by (auto simp: take_tick_def successively_append_iff)
    with Cons.IH [of "S @ [u]"] Cons.prems show ?case by simp
  qed simp
  from this [of "[]" ts] assms show ?thesis by (simp add: sampled_def)
qed

lemma feed_keeps_spread: "min_half_spread_bps (foldl feed_tick c ts) = min_half_spread_bps c"
  by (induction ts arbitrary: c)
    (simp_all add: feed_tick_def on_book_update_def sample_mid_def refresh_signals_def Let_def)

text \<open>
  After any feed of ticks with positive timestamps, the samples kept are at least one
  step apart, the calculator is warm exactly when enough mid changes were sampled, and its
  volatility is then \<open>vol_scale\<close> times the standard deviation of the last
  \<open>window_steps\<close> sampled mid changes, whatever the rate of the raw messages.
\<close>

theorem volatility_of_sampled_changes:
  assumes new: "calculator_new cfg tick mp = Some c0" and pos: "\<forall>t \<in> set ts. 0 < t_now t"
  shows "let S = sampled (max (cfg_step_ns cfg) 1) ts; c = foldl feed_tick c0 ts
    in successively (\<lambda>a b. cfg_step_ns cfg \<le> t_now b - t_now a) S \<and>
       (warmed_up c \<longleftrightarrow> ts \<noteq> [] \<and> cfg_min_warmup_samples cfg \<le> int (length S - 1)) \<and>
       (warmed_up c \<longrightarrow> volatility c =
          std_dev (last_n (cfg_window_steps cfg) (changes (map t_mid S))) *
          sqrt (10 ^ 9 / of_int (cfg_step_ns cfg)))"
proof -
  note n = calculator_new_tracks [OF new]
  let ?S = "sampled (max (cfg_step_ns cfg) 1) ts" and ?c = "foldl feed_tick c0 ts"
  have tr: "tracks c0 ?c ?S"
    using tracks_run [OF n(1), of ts] pos by (simp add: sampled_def n(3))
  have "successively (\<lambda>a b. max (cfg_step_ns cfg) 1 \<le> t_now b - t_now a) ?S"
    unfolding sampled_def by (rule sampled_spacing_run) simp
  then have "successively (\<lambda>a b. cfg_step_ns cfg \<le> t_now b - t_now a) ?S"
    by (rule successively_mono) auto
  moreover have "warmed_up ?c \<longleftrightarrow> ts \<noteq> [] \<and> cfg_min_warmup_samples cfg \<le> int (length ?S - 1)"
    using tr sampled_Nil_iff by (auto simp: tracks_def n(7) length_changes)
  moreover have "cached_std (foldl push (mid_stats c0) xs) = std_dev (last_n (cfg_window_steps cfg) xs)" for xs
    using rolling_new_inv [OF n(2)] roll.stats_run(2) [of "mid_stats c0" xs] by simp
  then have "warmed_up ?c \<Longrightarrow> volatility ?c =
      std_dev (last_n (cfg_window_steps cfg) (changes (map t_mid ?S))) * sqrt (10 ^ 9 / of_int (cfg_step_ns cfg))"
    using tr by (simp add: tracks_def n(6))
  ultimately show ?thesis by (simp add: Let_def)
qed

theorem volatility_of_sampled_changes_witness:
  "\<exists>c0. calculator_new default_vol_obi_config 1 1000 = Some c0 \<and>
    successively (\<lambda>a b. (100000000 :: int) \<le> t_now b - t_now a)
      (sampled 100000000 [\<lparr>t_now = 5, t_mid = 100, t_bids = side_new, t_asks = side_new\<rparr>,
                          \<lparr>t_now = 9, t_mid = 101, t_bids = side_new, t_asks = side_new\<rparr>]) \<and>
    \<not> warmed_up (foldl feed_tick c0 [\<lparr>t_now = 5, t_mid = 100, t_bids = side_new, t_asks = side_new\<rparr>,
                          \<lparr>t_now = 9, t_mid = 101, t_bids = side_new, t_asks = side_new\<rparr>])"
proof -
  let ?ts = "[\<lparr>t_now = 5, t_mid = 100, t_bids = side_new, t_asks = side_new\<rparr>,
              \<lparr>t_now = 9, t_mid = 101, t_bids = side_new, t_asks = side_new\<rparr>]"
  obtain c0 where c0: "calculator_new default_vol_obi_config 1 1000 = Some c0"
    by (simp add: calculator_new_def default_vol_obi_config_def rolling_new_def)
  have "\<forall>t \<in> set ?ts. 0 < t_now t" by simp
  from volatility_of_sampled_changes [OF c0 this] c0 show ?thesis
    by (auto simp: Let_def default_vol_obi_config_def sampled_def take_tick_def)
qed

section \<open>Quotes\<close>

lemma quote_snapped:
  "quote c mid pos =
   (let (rb, ra) = raw_quote c mid pos;
        b = floor_to_tick rb (tick_size c); a = ceil_to_tick ra (tick_size c)
    in if warmed_up c \<and> b < a then Some (b, a) else None)"
  by (auto simp: quote_def floor_to_tick_def ceil_to_tick_def Let_def split: prod.splits)

lemma raw_quote_floor:
  assumes "0 < min_half_spread_bps c"
  shows "fst (raw_quote c mid pos) \<le> mid * (1 - min_half_spread_bps c / 10000)"
    and "mid * (1 + min_half_spread_bps c / 10000) \<le> snd (raw_quote c mid pos)"
  using assms by (simp_all add: raw_quote_def Let_def)

lemma quote_of_warm:
  assumes "warmed_up c" "0 < tick_size c" "0 < min_half_spread_bps c" "0 < mid"
  shows "quote c mid pos = Some (floor_to_tick (fst (raw_quote c mid pos)) (tick_size c), ceil_to_tick (snd (raw_quote c mid pos)) (tick_size c))"
    and "floor_to_tick (fst (raw_quote c mid pos)) (tick_size c) < ceil_to_tick (snd (raw_quote c mid pos)) (tick_size c)"
proof -
  obtain rb ra where r: "raw_quote c mid pos = (rb, ra)" by (cases "raw_quote c mid pos")
  have "mid * (1 - min_half_spread_bps c / 10000) < mid * (1 + min_half_spread_bps c / 10000)"
    using assms(3,4) by (intro mult_strict_left_mono) auto
  then have "floor_to_tick rb (tick_size c) < ceil_to_tick ra (tick_size c)"
    using raw_quote_floor [OF assms(3), of mid pos] floor_to_tick_bounds [OF assms(2), of rb] ceil_to_tick_bounds [OF assms(2), of ra]
    by (simp add: r)
  then show "floor_to_tick (fst (raw_quote c mid pos)) (tick_size c) < ceil_to_tick (snd (raw_quote c mid pos)) (tick_size c)"
    and "quote c mid pos = Some (floor_to_tick (fst (raw_quote c mid pos)) (tick_size c), ceil_to_tick (snd (raw_quote c mid pos)) (tick_size c))"
    using assms(1) by (simp_all add: quote_snapped r)
qed

text \<open>
  C38. A warm calculator with a positive tick and a positive minimum half spread quotes every
  positive mid, and the quote is safe to send: both prices lie on the tick grid, the bid is
  below the ask, each side keeps at least the minimum half spread from the mid, and each
  is less than one tick away from the unrounded model price.
\<close>

theorem quote_total_and_safe:
  assumes "warmed_up c" and tick: "0 < tick_size c" and bps: "0 < min_half_spread_bps c" and mid: "0 < mid"
  shows "\<exists>b a. quote c mid pos = Some (b, a) \<and> b < a \<and>
    (\<exists>k::int. b = of_int k * tick_size c) \<and> (\<exists>k::int. a = of_int k * tick_size c) \<and>
    b \<le> mid * (1 - min_half_spread_bps c / 10000) \<and> mid * (1 + min_half_spread_bps c / 10000) \<le> a \<and>
    fst (raw_quote c mid pos) - b < tick_size c \<and> a - snd (raw_quote c mid pos) < tick_size c"
proof -
  let ?b = "floor_to_tick (fst (raw_quote c mid pos)) (tick_size c)" and ?a = "ceil_to_tick (snd (raw_quote c mid pos)) (tick_size c)"
  have b: "?b \<le> fst (raw_quote c mid pos)" "fst (raw_quote c mid pos) < ?b + tick_size c" by (rule floor_to_tick_bounds [OF tick])+
  have a: "snd (raw_quote c mid pos) \<le> ?a" "?a - tick_size c < snd (raw_quote c mid pos)" by (rule ceil_to_tick_bounds [OF tick])+
  have "\<exists>k::int. ?b = of_int k * tick_size c" "\<exists>k::int. ?a = of_int k * tick_size c"
    by (rule floor_grid.on_grid [OF tick], rule ceil_grid.on_grid [OF tick])
  with quote_of_warm [OF assms] raw_quote_floor [OF bps, of mid pos] a b show ?thesis
    by (intro exI [of _ ?b] exI [of _ ?a]) simp
qed

theorem quote_total_and_safe_witness:
  "\<exists>c0 b a. calculator_new (default_vol_obi_config\<lparr>cfg_min_warmup_samples := 0\<rparr>) 1 1000 = Some c0 \<and>
     quote (on_book_update c0 1 100 side_new side_new) 100 2 = Some (b, a) \<and> b < a"
proof -
  let ?cfg = "default_vol_obi_config\<lparr>cfg_min_warmup_samples := 0\<rparr>"
  obtain c0 where c0: "calculator_new ?cfg 1 1000 = Some c0"
    by (simp add: calculator_new_def default_vol_obi_config_def rolling_new_def)
  let ?c = "on_book_update c0 1 100 side_new side_new"
  have w: "warmed_up ?c" "tick_size ?c = 1" "min_half_spread_bps ?c = 2"
    using c0 by (auto simp: calculator_new_def default_vol_obi_config_def rolling_new_def
        on_book_update_def sample_due_def sample_mid_def refresh_signals_def Let_def)
  from quote_total_and_safe [of ?c 100 2] w obtain b a where "quote ?c 100 2 = Some (b, a)" "b < a"
    by auto
  with c0 show ?thesis by blast
qed

lemma norm_pos_mono: "0 \<le> mid \<Longrightarrow> p \<le> p' \<Longrightarrow> norm_pos c mid p \<le> norm_pos c mid p'"
  unfolding norm_pos_def by (auto intro!: clamp_mono divide_right_mono mult_right_mono)

lemma raw_quote_mono:
  assumes "0 < tick_size c" "0 \<le> volatility c * vol_to_half_spread c" "0 \<le> skew c"
    and "norm_pos c mid p \<le> norm_pos c mid p'"
  shows "fst (raw_quote c mid p') \<le> fst (raw_quote c mid p)"
    and "snd (raw_quote c mid p') \<le> snd (raw_quote c mid p)"
proof -
  let ?h = "volatility c * vol_to_half_spread c / tick_size c"
  have h: "0 \<le> ?h" using assms by simp
  have s: "skew c * norm_pos c mid p \<le> skew c * norm_pos c mid p'" using assms by (simp add: mult_left_mono)
  have "max 0 (?h * (1 + skew c * norm_pos c mid p)) \<le> max 0 (?h * (1 + skew c * norm_pos c mid p'))"
    using s h by (intro max.mono mult_left_mono) auto
  then have "max 0 (?h * (1 + skew c * norm_pos c mid p)) * tick_size c \<le> max 0 (?h * (1 + skew c * norm_pos c mid p')) * tick_size c"
    using assms(1) by (intro mult_right_mono) auto
  then show "fst (raw_quote c mid p') \<le> fst (raw_quote c mid p)"
    by (simp add: raw_quote_def Let_def min.coboundedI1)
  have "max 0 (?h * (1 - skew c * norm_pos c mid p')) \<le> max 0 (?h * (1 - skew c * norm_pos c mid p))"
    using s h by (intro max.mono mult_left_mono) auto
  then have "max 0 (?h * (1 - skew c * norm_pos c mid p')) * tick_size c \<le> max 0 (?h * (1 - skew c * norm_pos c mid p)) * tick_size c"
    using assms(1) by (intro mult_right_mono) auto
  then show "snd (raw_quote c mid p') \<le> snd (raw_quote c mid p)"
    by (simp add: raw_quote_def Let_def max.coboundedI1)
qed

text \<open>
  Inventory skew leans against the position: with non-negative volatility, spread factor
  and skew, a larger position never raises the bid or the ask.
\<close>

theorem quote_skew_monotone:
  assumes "0 < tick_size c" "0 \<le> volatility c * vol_to_half_spread c" "0 \<le> skew c" "0 \<le> mid" "p \<le> p'"
    and "quote c mid p = Some (b, a)" "quote c mid p' = Some (b', a')"
  shows "b' \<le> b \<and> a' \<le> a"
proof -
  note m = raw_quote_mono [OF assms(1-3) norm_pos_mono [OF assms(4,5)]]
  from assms(6) have "b = floor_to_tick (fst (raw_quote c mid p)) (tick_size c)"
    "a = ceil_to_tick (snd (raw_quote c mid p)) (tick_size c)"
    by (auto simp: quote_snapped Let_def split: prod.splits if_splits)
  moreover from assms(7) have "b' = floor_to_tick (fst (raw_quote c mid p')) (tick_size c)"
    "a' = ceil_to_tick (snd (raw_quote c mid p')) (tick_size c)"
    by (auto simp: quote_snapped Let_def split: prod.splits if_splits)
  ultimately show ?thesis using floor_grid.mono [OF assms(1) m(1)] ceil_grid.mono [OF assms(1) m(2)] by simp
qed

theorem quote_skew_monotone_witness:
  "\<exists>c. quote c 100 0 = Some (90, 110) \<and> quote c 100 5 = Some (85, 105) \<and> (85 :: f64) \<le> 90 \<and> (105 :: f64) \<le> 110"
proof -
  let ?c = "(the (calculator_new (default_vol_obi_config\<lparr>cfg_vol_to_half_spread := 1\<rparr>) 1 1000))
              \<lparr>volatility := 10, warmed_up := True\<rparr>"
  have q: "quote ?c 100 0 = Some (90, 110)" "quote ?c 100 5 = Some (85, 105)"
    by (simp_all add: calculator_new_def default_vol_obi_config_def rolling_new_def quote_def
        raw_quote_def norm_pos_def clamp_def Let_def)
  have "0 < tick_size ?c" "0 \<le> volatility ?c * vol_to_half_spread ?c" "0 \<le> skew ?c"
    by (simp_all add: calculator_new_def default_vol_obi_config_def rolling_new_def)
  from quote_skew_monotone [OF this _ _ q] q show ?thesis by (intro exI [of _ ?c]) simp
qed

end
