(* ===== verification/Config.thy ===== *)
theory Config
  imports Rate_Limit Quotes Vol_Obi
begin

text \<open>
  \<^verbatim>\<open>src/src/config.rs\<close> and the start-up decisions of \<^verbatim>\<open>src/src/main.rs\<close>: the configuration
  records with their serde defaults (every missing key takes the default of its section), the
  check a live run depends on, the credentials read from the environment, and the choice of
  mode and configuration from the command line. Reading and parsing the file is the parameter
  \<open>load\<close>, given in \<open>Json_Files\<close>; the environment is a map.
\<close>

section \<open>The configuration\<close>

record vol_obi_cfg =
  vo_window_steps :: nat
  vo_step_ns :: int
  vo_vol_to_half_spread :: f64
  vo_min_half_spread_bps :: f64
  vo_c1_ticks :: f64
  vo_skew :: f64
  vo_looking_depth :: f64
  vo_min_warmup_samples :: int
  vo_warmup_seconds :: f64

definition default_vol_obi_cfg :: vol_obi_cfg where
  "default_vol_obi_cfg =
     \<lparr>vo_window_steps = 6000, vo_step_ns = 100000000, vo_vol_to_half_spread = 8 / 10,
      vo_min_half_spread_bps = 2, vo_c1_ticks = 160, vo_skew = 1, vo_looking_depth = 25 / 1000,
      vo_min_warmup_samples = 100, vo_warmup_seconds = 600\<rparr>"

record alpha_cfg =
  al_source :: string
  al_stale_seconds :: f64
  al_window_size :: nat
  al_min_samples :: nat
  al_looking_depth :: f64
  al_bbo_min_samples :: nat
  al_bbo_stale_seconds :: f64
  al_depth_snapshot_limit :: nat

definition default_alpha_cfg :: alpha_cfg where
  "default_alpha_cfg =
     \<lparr>al_source = ''binance'', al_stale_seconds = 5, al_window_size = 6000, al_min_samples = 150,
      al_looking_depth = 25 / 1000, al_bbo_min_samples = 10, al_bbo_stale_seconds = 5,
      al_depth_snapshot_limit = 1000\<rparr>"

record live_quality =
  lq_markout_horizons_sec :: "f64 list"
  lq_window_seconds :: f64
  lq_adaptive_enabled :: bool
  lq_adaptive_horizon_sec :: f64
  lq_adverse_threshold_bps :: f64
  lq_spread_widen_per_adverse_bps :: f64
  lq_max_spread_multiplier :: f64
  lq_size_reduce_per_adverse_bps :: f64
  lq_min_size_multiplier :: f64
  lq_metrics_flush_seconds :: f64

definition default_live_quality :: live_quality where
  "default_live_quality =
     \<lparr>lq_markout_horizons_sec = [5, 30, 60], lq_window_seconds = 3600, lq_adaptive_enabled = True,
      lq_adaptive_horizon_sec = 30, lq_adverse_threshold_bps = 2,
      lq_spread_widen_per_adverse_bps = 5 / 100, lq_max_spread_multiplier = 3 / 2,
      lq_size_reduce_per_adverse_bps = 6 / 100, lq_min_size_multiplier = 55 / 100,
      lq_metrics_flush_seconds = 10\<rparr>"

definition default_inventory_exit_bias :: inventory_exit_bias where
  "default_inventory_exit_bias =
     \<lparr>enabled = True, min_ratio = 5 / 100, exit_tighten_per_ratio = 45 / 100,
      add_widen_per_ratio = 75 / 100, max_exit_tighten = 35 / 100, max_add_widen = 65 / 100,
      adverse_boost_per_bps = 3 / 100\<rparr>"

record trading =
  leverage :: int
  margin_mode :: string
  levels_per_side :: nat
  tr_base_amount :: f64
  capital_usage_percent :: f64
  tr_default_quote_update_threshold_bps :: f64
  spread_factor_level1 :: f64
  order_timeout_seconds :: f64
  position_value_threshold_usd :: f64
  min_order_value_usd :: f64
  maker_fee_rate :: f64
  quote_engine :: string
  set_leverage_on_startup :: bool
  tr_live_quality :: live_quality
  tr_inventory_exit_bias :: inventory_exit_bias
  tr_vol_obi :: vol_obi_cfg
  tr_alpha :: alpha_cfg

definition default_trading :: trading where
  "default_trading =
     \<lparr>leverage = 0, margin_mode = [], levels_per_side = 0, tr_base_amount = 0, capital_usage_percent = 0,
      tr_default_quote_update_threshold_bps = 0, spread_factor_level1 = 0, order_timeout_seconds = 0,
      position_value_threshold_usd = 0, min_order_value_usd = 0, maker_fee_rate = 0, quote_engine = [],
      set_leverage_on_startup = True, tr_live_quality = default_live_quality,
      tr_inventory_exit_bias = default_inventory_exit_bias, tr_vol_obi = default_vol_obi_cfg,
      tr_alpha = default_alpha_cfg\<rparr>"

record performance =
  min_loop_interval :: f64
  rate_limit_send_interval :: f64
  pin_hot_core :: "nat option"

definition default_performance :: performance where
  "default_performance = \<lparr>min_loop_interval = 1 / 10, rate_limit_send_interval = 15 / 100, pin_hot_core = None\<rparr>"

record websocket_cfg =
  ping_interval :: f64
  recv_timeout :: f64
  account_recv_timeout :: f64
  reconnect_base_delay :: f64
  reconnect_max_delay :: f64

definition default_websocket_cfg :: websocket_cfg where
  "default_websocket_cfg = \<lparr>ping_interval = 20, recv_timeout = 30, account_recv_timeout = 1800,
     reconnect_base_delay = 5, reconnect_max_delay = 60\<rparr>"

record safety =
  stale_order_poller_interval_sec :: f64
  stale_order_debounce_count :: u32
  sf_max_consecutive_order_rejections :: u32
  sf_circuit_breaker_cooldown_sec :: f64
  order_reconcile_timeout_sec :: f64
  max_live_orders_per_market :: nat
  panic_close_on_startup :: bool
  panic_close_on_shutdown :: bool
  md_deadman_sec :: f64
  book_sanity_divergence_bps :: f64
  position_change_hold_sec :: f64

definition default_safety :: safety where
  "default_safety =
     \<lparr>stale_order_poller_interval_sec = 3, stale_order_debounce_count = 2,
      sf_max_consecutive_order_rejections = 5, sf_circuit_breaker_cooldown_sec = 60,
      order_reconcile_timeout_sec = 2, max_live_orders_per_market = 4, panic_close_on_startup = False,
      panic_close_on_shutdown = False, md_deadman_sec = 10, book_sanity_divergence_bps = 50,
      position_change_hold_sec = 3\<rparr>"

record pnl_cfg =
  pnl_enabled :: bool
  snapshot_interval_seconds :: f64
  persist_dir :: string
  include_unattributed_account_fills :: bool

definition default_pnl_cfg :: pnl_cfg where
  "default_pnl_cfg = \<lparr>pnl_enabled = True, snapshot_interval_seconds = 60, persist_dir = ''logs'',
     include_unattributed_account_fills = False\<rparr>"

record config =
  cfg_trading :: trading
  cfg_performance :: performance
  cfg_websocket :: websocket_cfg
  cfg_safety :: safety
  cfg_pnl :: pnl_cfg

text \<open>What the empty object \<open>{}\<close> deserialises to.\<close>

definition default_config :: config where
  "default_config = \<lparr>cfg_trading = default_trading, cfg_performance = default_performance,
     cfg_websocket = default_websocket_cfg, cfg_safety = default_safety, cfg_pnl = default_pnl_cfg\<rparr>"

section \<open>Validation\<close>

datatype config_error =
    Bad_Quote_Engine string
  | Bad_Leverage int
  | Bad_Levels nat
  | Bad_Capital_Usage f64
  | Bad_Spread_Factor f64

definition eq_ignore_ascii_case :: "string \<Rightarrow> string \<Rightarrow> bool" where
  "eq_ignore_ascii_case a b \<longleftrightarrow> to_lowercase a = to_lowercase b"

definition validate_live :: "config \<Rightarrow> config_error + unit" where
  "validate_live c =
     (let t = cfg_trading c
      in if \<not> eq_ignore_ascii_case (quote_engine t) ''vol_obi'' then Inl (Bad_Quote_Engine (quote_engine t))
         else if leverage t < 1 then Inl (Bad_Leverage (leverage t))
         else if levels_per_side t < 1 then Inl (Bad_Levels (levels_per_side t))
         else if capital_usage_percent t \<le> 0 then Inl (Bad_Capital_Usage (capital_usage_percent t))
         else if spread_factor_level1 t \<le> 0 then Inl (Bad_Spread_Factor (spread_factor_level1 t))
         else Inr ())"

section \<open>Credentials\<close>

record credentials =
  api_key_private_key :: string
  cr_api_key_index :: int
  cr_account_index :: int
  wallet_address :: string
  market_symbol :: string

datatype credential_error = Missing_Private_Key | Bad_Api_Key_Index | Bad_Account_Index

abbreviation i32_min :: int where "i32_min \<equiv> - (2 ^ 31)"
abbreviation i32_max :: int where "i32_max \<equiv> 2 ^ 31 - 1"

text \<open>\<open>str::parse::<i32>\<close>: the digits of an \<open>i64\<close> within the narrower range.\<close>

definition parse_i32 :: "string \<Rightarrow> int option" where
  "parse_i32 s = (case parse_i64 s of None \<Rightarrow> None
                  | Some n \<Rightarrow> if i32_min \<le> n \<and> n \<le> i32_max then Some n else None)"

definition env_or :: "(string \<rightharpoonup> string) \<Rightarrow> string \<Rightarrow> string \<Rightarrow> string" where
  "env_or env k d = (case env k of None \<Rightarrow> d | Some v \<Rightarrow> v)"

definition from_env :: "(string \<rightharpoonup> string) \<Rightarrow> credential_error + credentials" where
  "from_env env =
     (case env ''API_KEY_PRIVATE_KEY'' of
        None \<Rightarrow> Inl Missing_Private_Key
      | Some key \<Rightarrow>
          (case parse_i32 (trim (env_or env ''API_KEY_INDEX'' ''0'')) of
             None \<Rightarrow> Inl Bad_Api_Key_Index
           | Some aki \<Rightarrow>
               (case parse_i64 (trim (env_or env ''ACCOUNT_INDEX'' ''0'')) of
                  None \<Rightarrow> Inl Bad_Account_Index
                | Some acct \<Rightarrow> Inr \<lparr>api_key_private_key = key, cr_api_key_index = aki, cr_account_index = acct,
                    wallet_address = env_or env ''WALLET_ADDRESS'' [],
                    market_symbol = env_or env ''MARKET_SYMBOL'' ''BTC''\<rparr>)))"

section \<open>Start-up\<close>

datatype mode = DryRun | Live_Mode

record cli =
  cli_symbol :: "string option"
  config_path :: string
  cli_mode :: mode

text \<open>The loop over the arguments; \<open>--symbol\<close> and \<open>--config\<close> consume the next one.\<close>

fun parse_args :: "cli \<Rightarrow> string list \<Rightarrow> cli" where
  "parse_args c [] = c"
| "parse_args c [a] =
     (if a = ''--symbol'' then c\<lparr>cli_symbol := None\<rparr>
      else if a = ''--dry-run'' \<or> a = ''--shadow'' then c\<lparr>cli_mode := DryRun\<rparr>
      else if a = ''--live'' then c\<lparr>cli_mode := Live_Mode\<rparr>
      else c)"
| "parse_args c (a # b # as) =
     (if a = ''--symbol'' then parse_args (c\<lparr>cli_symbol := Some b\<rparr>) as
      else if a = ''--config'' then parse_args (c\<lparr>config_path := b\<rparr>) as
      else if a = ''--dry-run'' \<or> a = ''--shadow'' then parse_args (c\<lparr>cli_mode := DryRun\<rparr>) (b # as)
      else if a = ''--live'' then parse_args (c\<lparr>cli_mode := Live_Mode\<rparr>) (b # as)
      else parse_args c (b # as))"

definition cli_default :: cli where
  "cli_default = \<lparr>cli_symbol = None, config_path = ''config.json'', cli_mode = DryRun\<rparr>"

datatype startup_error = Config_Unusable string | Config_Invalid config_error

text \<open>From the command line to the mode, the configuration and the credentials of the run.\<close>

definition startup ::
  "(string \<Rightarrow> string + config) \<Rightarrow> (string \<Rightarrow> bool) \<Rightarrow> (string \<rightharpoonup> string) \<Rightarrow> string list
   \<Rightarrow> startup_error + (mode \<times> config \<times> credentials)" where
  "startup load exists env args =
     (let c = parse_args cli_default args;
          chosen = (case load (config_path c) of
                      Inr cfg \<Rightarrow> Inr cfg
                    | Inl e \<Rightarrow> if cli_mode c = Live_Mode \<or> exists (config_path c)
                               then Inl (Config_Unusable e) else Inr default_config)
      in case chosen of
           Inl e \<Rightarrow> Inl e
         | Inr cfg \<Rightarrow>
             (case (if cli_mode c = Live_Mode then validate_live cfg else Inr ()) of
                Inl e \<Rightarrow> Inl (Config_Invalid e)
              | Inr _ \<Rightarrow>
                  let creds = (case from_env env of
                                 Inr cr \<Rightarrow> cr
                               | Inl _ \<Rightarrow> \<lparr>api_key_private_key = [], cr_api_key_index = 0, cr_account_index = 0,
                                           wallet_address = [], market_symbol = ''BTC''\<rparr>);
                      creds' = (case cli_symbol c of None \<Rightarrow> creds | Some s \<Rightarrow> creds\<lparr>market_symbol := s\<rparr>)
                  in Inr (cli_mode c, cfg, creds')))"

section \<open>Correctness\<close>

lemma validate_live_ok:
  "validate_live c = Inr () \<longleftrightarrow>
     eq_ignore_ascii_case (quote_engine (cfg_trading c)) ''vol_obi'' \<and> 1 \<le> leverage (cfg_trading c) \<and>
     1 \<le> levels_per_side (cfg_trading c) \<and> 0 < capital_usage_percent (cfg_trading c) \<and>
     0 < spread_factor_level1 (cfg_trading c)"
  by (auto simp: validate_live_def Let_def)

lemma default_config_invalid: "validate_live default_config = Inl (Bad_Quote_Engine [])"
  by (simp add: validate_live_def default_config_def default_trading_def eq_ignore_ascii_case_def to_lowercase_def)

text \<open>
  What a command line asks for, apart from how it is read: its flags with the values of those that
  take one, the mode flags among them, and the configuration file named last.
\<close>

fun flags :: "string list \<Rightarrow> (string \<times> string option) list" where
  "flags [] = []"
| "flags [a] = [(a, None)]"
| "flags (a # b # as) = (if a \<in> {''--symbol'', ''--config''} then (a, Some b) # flags as else (a, None) # flags (b # as))"

definition mode_flags :: "string list \<Rightarrow> string list" where
  "mode_flags args = filter (\<lambda>a. a \<in> {''--live'', ''--dry-run'', ''--shadow''}) (map fst (flags args))"

definition config_files :: "string list \<Rightarrow> string list" where
  "config_files args = List.map_filter (\<lambda>(a, v). if a = ''--config'' then v else None) (flags args)"

definition asks_live :: "string list \<Rightarrow> bool" where
  "asks_live args \<longleftrightarrow> mode_flags args \<noteq> [] \<and> last (mode_flags args) = ''--live''"

definition named_config :: "string list \<Rightarrow> string" where
  "named_config args = last (''config.json'' # config_files args)"

lemma parse_args_mode:
  "cli_mode (parse_args c args) =
     (if mode_flags args = [] then cli_mode c else if last (mode_flags args) = ''--live'' then Live_Mode else DryRun)"
  by (induction c args rule: parse_args.induct) (auto simp: mode_flags_def)

lemma parse_args_config: "config_path (parse_args c args) = last (config_path c # config_files args)"
  by (induction c args rule: parse_args.induct) (auto simp: config_files_def List.map_filter_def)

lemma command_line:
  "cli_mode (parse_args cli_default args) = (if asks_live args then Live_Mode else DryRun)"
  "config_path (parse_args cli_default args) = named_config args"
  by (simp_all add: parse_args_mode parse_args_config asks_live_def named_config_def cli_default_def)

text \<open>
  A live run never starts on defaults. When start-up yields a live run, its configuration is
  the one loaded from the file named on the command line, and it names the \<open>vol_obi\<close> engine with
  leverage at least one, at least one level and positive sizes and spreads; the all-defaults
  configuration is never one of these. A configuration file that exists but does not parse stops
  both modes.
\<close>

theorem live_start_needs_valid_config:
  assumes "startup load exists env args = Inr (md, cfg, creds)"
  shows "(md = Live_Mode \<longrightarrow>
       load (config_path (parse_args cli_default args)) = Inr cfg \<and> cfg \<noteq> default_config \<and>
       eq_ignore_ascii_case (quote_engine (cfg_trading cfg)) ''vol_obi'' \<and> 1 \<le> leverage (cfg_trading cfg) \<and>
       1 \<le> levels_per_side (cfg_trading cfg) \<and> 0 < capital_usage_percent (cfg_trading cfg) \<and>
       0 < spread_factor_level1 (cfg_trading cfg)) \<and>
    (exists (config_path (parse_args cli_default args)) \<longrightarrow> load (config_path (parse_args cli_default args)) = Inr cfg)"
  using assms default_config_invalid validate_live_ok [of cfg]
  by (auto simp: startup_def Let_def split: sum.splits if_splits)

definition sample_config :: config where
  "sample_config = default_config\<lparr>cfg_trading := default_trading\<lparr>quote_engine := ''VOL_OBI'', leverage := 5,
     levels_per_side := 2, capital_usage_percent := 1 / 10, spread_factor_level1 := 3 / 2\<rparr>\<rparr>"

theorem live_start_needs_valid_config_witness:
  "\<exists>creds. startup (\<lambda>_. Inr sample_config) (\<lambda>_. True) (\<lambda>_. None) [''--live'', ''--config'', ''live.json''] =
      Inr (Live_Mode, sample_config, creds) \<and> sample_config \<noteq> default_config"
proof -
  let ?args = "[''--live'', ''--config'', ''live.json'']"
  have "eq_ignore_ascii_case ''VOL_OBI'' ''vol_obi''" by code_simp
  then have "validate_live sample_config = Inr ()" by (simp add: validate_live_ok sample_config_def)
  then obtain creds where st: "startup (\<lambda>_. Inr sample_config) (\<lambda>_. True) (\<lambda>_. None) ?args = Inr (Live_Mode, sample_config, creds)"
    by (simp add: startup_def cli_default_def Let_def)
  from live_start_needs_valid_config [OF st] st show ?thesis by blast
qed

end
