(* ===== verification/Shared.thy ===== *)
theory Shared
  imports Prelude
begin

text \<open>
  \<^verbatim>\<open>src/src/shared.rs\<close>: the lock-free cells shared between tasks. A cell is a record of its
  atomics and every method reads or writes them in the order of the source, one method at a
  time; the wall clock (milliseconds since the epoch) is an argument. An \<open>f64\<close> is stored by
  its bits and read back unchanged, so the cell holds the number; the volume quota is kept in
  its 64-bit encoding.
\<close>

definition U64_MAX :: nat where
  "U64_MAX = 2 ^ 64 - 1"

section \<open>The external alpha\<close>

record shared_alpha =
  sa_alpha :: f64
  sa_sample_count :: nat
  sa_last_update_ms :: nat
  sa_min_samples :: nat

definition alpha_new :: "nat \<Rightarrow> shared_alpha" where
  "alpha_new min_samples =
     \<lparr>sa_alpha = 0, sa_sample_count = 0, sa_last_update_ms = 0, sa_min_samples = min_samples\<rparr>"

definition alpha_update :: "shared_alpha \<Rightarrow> nat \<Rightarrow> f64 \<Rightarrow> shared_alpha" where
  "alpha_update s now_ms a =
     s\<lparr>sa_alpha := a, sa_last_update_ms := now_ms, sa_sample_count := sa_sample_count s + 1\<rparr>"

definition alpha_age_ms :: "shared_alpha \<Rightarrow> nat \<Rightarrow> nat" where
  "alpha_age_ms s now_ms = (if sa_last_update_ms s = 0 then U64_MAX else now_ms - sa_last_update_ms s)"

definition alpha_warmed_up :: "shared_alpha \<Rightarrow> bool" where
  "alpha_warmed_up s \<longleftrightarrow> sa_min_samples s \<le> sa_sample_count s"

definition alpha_is_stale :: "shared_alpha \<Rightarrow> nat \<Rightarrow> nat \<Rightarrow> bool" where
  "alpha_is_stale s now_ms threshold \<longleftrightarrow>
     sa_last_update_ms s = 0 \<or> threshold < now_ms - sa_last_update_ms s"

definition alpha_reset :: "shared_alpha \<Rightarrow> shared_alpha" where
  "alpha_reset s = s\<lparr>sa_alpha := 0, sa_last_update_ms := 0, sa_sample_count := 0\<rparr>"

definition usable_alpha :: "shared_alpha \<Rightarrow> nat \<Rightarrow> nat \<Rightarrow> f64 option" where
  "usable_alpha s now_ms stale_ms =
     (if alpha_warmed_up s \<and> \<not> alpha_is_stale s now_ms stale_ms then Some (sa_alpha s) else None)"

section \<open>The external best bid and offer\<close>

record shared_bbo =
  sb_best_bid :: f64
  sb_best_ask :: f64
  sb_bid_qty :: f64
  sb_ask_qty :: f64
  sb_sample_count :: nat
  sb_last_update_ms :: nat
  sb_min_samples :: nat

definition bbo_new :: "nat \<Rightarrow> shared_bbo" where
  "bbo_new min_samples =
     \<lparr>sb_best_bid = 0, sb_best_ask = 0, sb_bid_qty = 0, sb_ask_qty = 0, sb_sample_count = 0,
      sb_last_update_ms = 0, sb_min_samples = min_samples\<rparr>"

definition bbo_update :: "shared_bbo \<Rightarrow> nat \<Rightarrow> f64 \<Rightarrow> f64 \<Rightarrow> f64 \<Rightarrow> f64 \<Rightarrow> shared_bbo" where
  "bbo_update s now_ms bid ask bq aq =
     s\<lparr>sb_best_bid := bid, sb_best_ask := ask, sb_bid_qty := bq, sb_ask_qty := aq,
       sb_last_update_ms := now_ms, sb_sample_count := sb_sample_count s + 1\<rparr>"

definition bbo_mid :: "shared_bbo \<Rightarrow> f64" where
  "bbo_mid s = (sb_best_bid s + sb_best_ask s) * (1 / 2)"

definition bbo_warmed_up :: "shared_bbo \<Rightarrow> bool" where
  "bbo_warmed_up s \<longleftrightarrow> sb_min_samples s \<le> sb_sample_count s"

definition bbo_age_ms :: "shared_bbo \<Rightarrow> nat \<Rightarrow> nat" where
  "bbo_age_ms s now_ms = (if sb_last_update_ms s = 0 then U64_MAX else now_ms - sb_last_update_ms s)"

definition bbo_is_stale :: "shared_bbo \<Rightarrow> nat \<Rightarrow> nat \<Rightarrow> bool" where
  "bbo_is_stale s now_ms threshold \<longleftrightarrow>
     sb_last_update_ms s = 0 \<or> threshold < now_ms - sb_last_update_ms s"

definition bbo_reset :: "shared_bbo \<Rightarrow> shared_bbo" where
  "bbo_reset s = s\<lparr>sb_best_bid := 0, sb_best_ask := 0, sb_bid_qty := 0, sb_ask_qty := 0,
                   sb_last_update_ms := 0, sb_sample_count := 0\<rparr>"

section \<open>Position and derived parameters\<close>

record shared_position =
  sp_position :: f64
  sp_last_update_ms :: nat

definition position_new :: shared_position where
  "position_new = \<lparr>sp_position = 0, sp_last_update_ms = 0\<rparr>"

definition position_set :: "shared_position \<Rightarrow> nat \<Rightarrow> f64 \<Rightarrow> shared_position" where
  "position_set s now_ms pos = s\<lparr>sp_position := pos, sp_last_update_ms := now_ms\<rparr>"

definition position_age_ms :: "shared_position \<Rightarrow> nat \<Rightarrow> nat" where
  "position_age_ms s now_ms = (if sp_last_update_ms s = 0 then U64_MAX else now_ms - sp_last_update_ms s)"

record derived =
  d_base_amount :: f64
  d_max_pos_usd :: f64
  d_available_capital :: f64
  d_quota_remaining :: u64
  d_last_md_ms :: nat
  d_mid :: f64

definition derived_new :: derived where
  "derived_new = \<lparr>d_base_amount = 0, d_max_pos_usd = 0, d_available_capital = 0,
                  d_quota_remaining = - 1, d_last_md_ms = 0, d_mid = 0\<rparr>"

definition set_md_now :: "derived \<Rightarrow> nat \<Rightarrow> derived" where
  "set_md_now d now_ms = d\<lparr>d_last_md_ms := now_ms\<rparr>"

definition set_mid :: "derived \<Rightarrow> f64 \<Rightarrow> derived" where
  "set_mid d m = d\<lparr>d_mid := m\<rparr>"

definition md_age_ms :: "derived \<Rightarrow> nat \<Rightarrow> nat" where
  "md_age_ms d now_ms = (if d_last_md_ms d = 0 then U64_MAX else now_ms - d_last_md_ms d)"

definition set_base_amount :: "derived \<Rightarrow> f64 \<Rightarrow> derived" where
  "set_base_amount d v = d\<lparr>d_base_amount := v\<rparr>"

definition set_max_pos_usd :: "derived \<Rightarrow> f64 \<Rightarrow> derived" where
  "set_max_pos_usd d v = d\<lparr>d_max_pos_usd := v\<rparr>"

definition set_capital :: "derived \<Rightarrow> f64 \<Rightarrow> derived" where
  "set_capital d v = d\<lparr>d_available_capital := v\<rparr>"

text \<open>\<open>u64::MAX\<close>, the word of all ones, stands for an unknown quota; \<open>as u64\<close> and \<open>as i64\<close> keep the bits.\<close>

definition derived_set_quota :: "derived \<Rightarrow> int option \<Rightarrow> derived" where
  "derived_set_quota d q =
     d\<lparr>d_quota_remaining := (case q of Some x \<Rightarrow> word_of_int x | None \<Rightarrow> - 1)\<rparr>"

definition derived_quota :: "derived \<Rightarrow> int option" where
  "derived_quota d =
     (let v = d_quota_remaining d in if v = - 1 then None else Some (sint v))"

section \<open>Feeds that warm up and go stale\<close>

text \<open>
  The contract the two external feeds share: an update stores its value, its time and one more
  sample; a reset forgets samples and time.
\<close>

datatype 'v feed_event = Put nat 'v | Reset

fun feed_step :: "('s \<Rightarrow> nat \<Rightarrow> 'v \<Rightarrow> 's) \<Rightarrow> ('s \<Rightarrow> 's) \<Rightarrow> 's \<Rightarrow> 'v feed_event \<Rightarrow> 's" where
  "feed_step put forget s (Put t v) = put s t v"
| "feed_step put forget s Reset = forget s"

text \<open>The updates since the last reset, newest first, of a history given newest first.\<close>

fun since_reset :: "'v feed_event list \<Rightarrow> (nat \<times> 'v) list" where
  "since_reset [] = []"
| "since_reset (Put t v # es) = (t, v) # since_reset es"
| "since_reset (Reset # es) = []"

locale sampled_feed =
  fixes put :: "'s \<Rightarrow> nat \<Rightarrow> 'v \<Rightarrow> 's" and forget :: "'s \<Rightarrow> 's"
    and samples :: "'s \<Rightarrow> nat" and stamp :: "'s \<Rightarrow> nat" and val :: "'s \<Rightarrow> 'v"
  assumes samples_put: "samples (put s t v) = Suc (samples s)"
    and stamp_put: "stamp (put s t v) = t" and val_put: "val (put s t v) = v"
    and samples_forget: "samples (forget s) = 0" and stamp_forget: "stamp (forget s) = 0"
begin

lemma feed_history:
  assumes "samples s0 = 0" "stamp s0 = 0"
  shows "samples (foldl (feed_step put forget) s0 es) = length (since_reset (rev es)) \<and>
    (case since_reset (rev es) of
       [] \<Rightarrow> stamp (foldl (feed_step put forget) s0 es) = 0
     | (t, v) # _ \<Rightarrow> stamp (foldl (feed_step put forget) s0 es) = t \<and> val (foldl (feed_step put forget) s0 es) = v)"
proof (induction es rule: rev_induct)
  case (snoc e es)
  then show ?case
    by (cases e) (auto simp: samples_put stamp_put val_put samples_forget stamp_forget)
qed (simp add: assms)

end

interpretation alpha_feed: sampled_feed alpha_update alpha_reset sa_sample_count sa_last_update_ms sa_alpha
  by unfold_locales (simp_all add: alpha_update_def alpha_reset_def)

interpretation bbo_feed: sampled_feed "\<lambda>s t (b, a, bq, aq). bbo_update s t b a bq aq" bbo_reset
  sb_sample_count sb_last_update_ms "\<lambda>s. (sb_best_bid s, sb_best_ask s, sb_bid_qty s, sb_ask_qty s)"
  by unfold_locales (auto simp: bbo_update_def bbo_reset_def split: prod.splits)

lemma min_samples_run: "sa_min_samples (foldl (feed_step alpha_update alpha_reset) s es) = sa_min_samples s"
proof (induction es arbitrary: s)
  case (Cons e es)
  have "sa_min_samples (feed_step alpha_update alpha_reset s e) = sa_min_samples s"
    by (cases e) (simp_all add: alpha_update_def alpha_reset_def)
  with Cons show ?case by simp
qed simp

text \<open>
  The external alpha is used only while it is trustworthy: after any history of updates
  (at positive times) and resets, an override is offered exactly when at least
  \<open>min_samples > 0\<close> updates have arrived since the last reset and the newest is no older than
  the threshold, and it is then the newest value. A reset therefore always withdraws it.
\<close>

theorem usable_alpha_exact:
  assumes "0 < n" and "\<forall>t v. Put t v \<in> set es \<longrightarrow> 0 < t"
  shows "usable_alpha (foldl (feed_step alpha_update alpha_reset) (alpha_new n) es) now stale =
    (case since_reset (rev es) of
       [] \<Rightarrow> None
     | (t, v) # h \<Rightarrow> if n \<le> Suc (length h) \<and> now - t \<le> stale then Some v else None)"
proof -
  let ?s = "foldl (feed_step alpha_update alpha_reset) (alpha_new n) es"
  have h: "sa_sample_count ?s = length (since_reset (rev es))"
    "case since_reset (rev es) of [] \<Rightarrow> sa_last_update_ms ?s = 0
     | (t, v) # _ \<Rightarrow> sa_last_update_ms ?s = t \<and> sa_alpha ?s = v"
    using alpha_feed.feed_history [of "alpha_new n" es] by (simp_all add: alpha_new_def)
  have m: "sa_min_samples ?s = n" by (simp add: min_samples_run alpha_new_def)
  have mem: "(t, v) \<in> set (since_reset es) \<Longrightarrow> Put t v \<in> set es" for es t v
    by (induction es rule: since_reset.induct) auto
  show ?thesis
  proof (cases "since_reset (rev es)")
    case Nil
    then show ?thesis using h m assms(1) by (simp add: usable_alpha_def alpha_warmed_up_def)
  next
    case (Cons tv hs)
    obtain t v where tv: "tv = (t, v)" by (cases tv)
    have "Put t v \<in> set (rev es)" using Cons tv by (intro mem) simp
    then have "0 < t" using assms(2) by auto
    then show ?thesis using h m Cons tv
      by (auto simp: usable_alpha_def alpha_warmed_up_def alpha_is_stale_def)
  qed
qed

theorem usable_alpha_exact_witness:
  "usable_alpha (foldl (feed_step alpha_update alpha_reset) (alpha_new 2) [Put 5 1, Reset, Put 6 2, Put 7 3]) 10 60 = Some 3"
proof -
  have "\<forall>t v. Put t v \<in> set [Put 5 1, Reset, Put 6 2, Put 7 (3 :: f64)] \<longrightarrow> 0 < t" by auto
  from usable_alpha_exact [OF _ this, of 2 10 60] show ?thesis by simp
qed

text \<open>
  The quota cell returns what was stored for every 64-bit quota except -1: storing -1
  (whose encoding is the sentinel) reads back as unknown, which the pacing treats as full speed.
\<close>

theorem quota_cell_roundtrip:
  assumes "- (2 ^ 63) \<le> q" and "q < 2 ^ 63"
  shows "derived_quota (derived_set_quota d (Some q)) = (if q = - 1 then None else Some q) \<and>
    derived_quota (derived_set_quota d None) = None"
proof -
  have s: "sint (word_of_int q :: 64 word) = q"
    using assms by (subst signed_of_int) (simp add: signed_take_bit_int_eq_self)
  then have "(word_of_int q :: 64 word) = - 1 \<longleftrightarrow> q = - 1"
    by (metis sint_n1 word_of_int_neg_1 of_int_minus of_int_1)
  with s show ?thesis by (simp add: derived_quota_def derived_set_quota_def)
qed

theorem quota_cell_roundtrip_witness:
  "derived_quota (derived_set_quota derived_new (Some (- 1))) = None \<and>
   derived_quota (derived_set_quota derived_new (Some 42)) = Some 42"
  using quota_cell_roundtrip [of "- 1" derived_new] quota_cell_roundtrip [of 42 derived_new] by simp

end
