(* ===== verification/Hot_Task.thy ===== *)
theory Hot_Task
  imports Order_Manager Config Shared "HOL-Library.Monad_Syntax"
begin

text \<open>
  The decision task of \<^verbatim>\<open>src/src/orchestrator.rs\<close> (\<open>HotTask\<close>): it owns the book, the signal
  calculator and the order manager, and turns market-data messages into batches of order
  operations. The task is single threaded, so a handler is a state transformer; the shared
  cells it reads and writes are fields of its record, as is everything it sends: the batches
  published to the mailbox (oldest first), the wake-ups of the websocket and of the reconcile
  poller, and the client ids published for the poller. One message sees one reading \<open>t\<close> of the
  monotonic clock and one reading \<open>ms\<close> of the wall clock. A panic (an index out of range) is
  \<open>None\<close>. The scratch buffers, which only avoid allocation, have no counterpart.
\<close>

section \<open>State\<close>

definition SANITY_TICKER_FRESH :: duration where "SANITY_TICKER_FRESH = 5 * 10 ^ 9"
definition SANITY_STREAK_TRIP :: nat where "SANITY_STREAK_TRIP = 10"

record hot_task =
  h_market :: market_config
  h_book :: local_book
  h_calc :: vol_obi_calculator
  h_om :: order_manager
  h_base_amount :: f64
  h_num_levels :: nat
  h_factors :: "f64 list"
  h_alpha_stale_ms :: nat
  h_fallback_bps :: f64
  h_min_loop_interval :: f64
  h_adverse_threshold_bps :: f64
  h_quote_threshold_bps :: f64
  h_inv_bias :: inventory_exit_bias
  h_capital_usage_percent :: f64
  h_min_order_value_usd :: f64
  h_position_dust_usd :: f64
  h_step_ns :: int
  h_cadence_start :: "instant option"
  h_cadence_count :: nat
  h_warmup_seconds :: f64
  h_loop_start :: "instant option"
  h_reset_flag :: bool
  h_shared_alpha :: shared_alpha
  h_shared_pos :: shared_position
  h_derived :: derived
  h_ops :: "batch_op list list"
  h_events :: "order_event list"
  h_reconcile_swap :: "remote_order list option"
  h_tracked_ids :: "int list"
  h_reconcile_notify :: "nat option"
  h_leverage :: int
  h_mode :: mode
  h_last_quote :: "instant option"
  h_last_seen_position :: "f64 option"
  h_position_hold_until :: "instant option"
  h_position_hold :: duration
  h_mid :: f64
  h_md_reconnect :: nat
  h_awaiting_resnapshot :: bool
  h_last_tracked :: "int list"
  h_ticker_bbo :: "(f64 \<times> f64 \<times> instant) option"
  h_sanity_streak :: nat
  h_sanity_bps :: f64

text \<open>\<open>f64 as u64\<close> truncates and saturates.\<close>

definition cast_u64 :: "f64 \<Rightarrow> nat" where
  "cast_u64 x = min (nat \<lfloor>x\<rfloor>) U64_MAX"

definition hot_new ::
  "instant \<Rightarrow> market_config \<Rightarrow> config \<Rightarrow> f64 \<Rightarrow> shared_alpha \<Rightarrow> shared_position \<Rightarrow> derived
   \<Rightarrow> nat option \<Rightarrow> mode \<Rightarrow> hot_task option" where
  "hot_new now market config base sa sp der notify md =
     (let t = cfg_trading config;
          vo = tr_vol_obi t;
          cfg = \<lparr>cfg_window_steps = vo_window_steps vo, cfg_step_ns = vo_step_ns vo,
                 cfg_vol_to_half_spread = vo_vol_to_half_spread vo,
                 cfg_min_half_spread_bps = vo_min_half_spread_bps vo, cfg_c1_ticks = vo_c1_ticks vo,
                 cfg_c1 = 0, cfg_skew = vo_skew vo, cfg_looking_depth = vo_looking_depth vo,
                 cfg_min_warmup_samples = vo_min_warmup_samples vo\<rparr>;
          n = max (levels_per_side t) 1
      in do {
        calc \<leftarrow> calculator_new cfg (price_tick market) (d_max_pos_usd der);
        Some \<lparr>h_market = market, h_book = book_new, h_calc = calc,
              h_om = manager_new now n (amount_tick market), h_base_amount = base, h_num_levels = n,
              h_factors = spread_factors (spread_factor_level1 t) n,
              h_alpha_stale_ms = cast_u64 (al_stale_seconds (tr_alpha t) * 1000),
              h_fallback_bps = max (vo_min_half_spread_bps vo) 1,
              h_min_loop_interval = min_loop_interval (cfg_performance config),
              h_adverse_threshold_bps = lq_adverse_threshold_bps (tr_live_quality t),
              h_quote_threshold_bps = tr_default_quote_update_threshold_bps t,
              h_inv_bias = tr_inventory_exit_bias t, h_capital_usage_percent = capital_usage_percent t,
              h_min_order_value_usd = min_order_value_usd t,
              h_position_dust_usd = max (position_value_threshold_usd t) 0,
              h_step_ns = max (vo_step_ns vo) 1, h_cadence_start = None, h_cadence_count = 0,
              h_warmup_seconds = vo_warmup_seconds vo, h_loop_start = None, h_reset_flag = False,
              h_shared_alpha = sa, h_shared_pos = sp, h_derived = der, h_ops = [], h_events = [],
              h_reconcile_swap = None, h_tracked_ids = [], h_reconcile_notify = notify,
              h_leverage = leverage t, h_mode = md, h_last_quote = None, h_last_seen_position = None,
              h_position_hold_until = None,
              h_position_hold = from_secs_f64 (max (position_change_hold_sec (cfg_safety config)) 0),
              h_mid = 0, h_md_reconnect = 0, h_awaiting_resnapshot = False, h_last_tracked = [],
              h_ticker_bbo = None, h_sanity_streak = 0,
              h_sanity_bps = book_sanity_divergence_bps (cfg_safety config)\<rparr>
      })"

text \<open>\<open>ops_tx.send\<close>: the mailbox keeps the last batch published.\<close>

definition publish :: "batch_op list \<Rightarrow> hot_task \<Rightarrow> hot_task" where
  "publish ops h = h\<lparr>h_ops := h_ops h @ [ops]\<rparr>"

section \<open>Safety checks\<close>

definition request_resnapshot :: "hot_task \<Rightarrow> hot_task" where
  "request_resnapshot h =
     publish [] (h\<lparr>h_awaiting_resnapshot := True, h_sanity_streak := 0, h_md_reconnect := h_md_reconnect h + 1\<rparr>)"

definition book_sanity_diverged :: "hot_task \<Rightarrow> instant \<Rightarrow> f64 \<Rightarrow> bool \<times> hot_task" where
  "book_sanity_diverged h t mid =
     (if h_sanity_bps h \<le> 0 then (False, h)
      else case h_ticker_bbo h of
        None \<Rightarrow> (False, h)
      | Some (b, a, seen) \<Rightarrow>
          if SANITY_TICKER_FRESH < t - seen then (False, h)
          else let tmid = (b + a) * (1 / 2)
               in if tmid \<le> 0 then (False, h)
                  else let dev_bps = \<bar>mid - tmid\<bar> / tmid * 10000
                       in if h_sanity_bps h < dev_bps
                          then let h1 = h\<lparr>h_sanity_streak := h_sanity_streak h + 1\<rparr>
                               in (SANITY_STREAK_TRIP \<le> h_sanity_streak h1, h1)
                          else (False, h\<lparr>h_sanity_streak := 0\<rparr>))"

definition hold_quotes_for_position_reconcile :: "hot_task \<Rightarrow> f64 \<Rightarrow> instant \<Rightarrow> bool \<times> hot_task" where
  "hold_quotes_for_position_reconcile h position t =
     (if h_mode h \<noteq> Live_Mode then (False, h)
      else let changed = (case h_last_seen_position h of None \<Rightarrow> False | Some prev \<Rightarrow> EPSILON \<le> \<bar>position - prev\<bar>);
               h1 = (if changed then h\<lparr>h_position_hold_until := Some (t + h_position_hold h),
                                       h_reconcile_notify := map_option Suc (h_reconcile_notify h)\<rparr> else h);
               h2 = h1\<lparr>h_last_seen_position := Some position\<rparr>
           in case h_position_hold_until h2 of
                None \<Rightarrow> (False, h2)
              | Some until \<Rightarrow> if t < until then (True, h2) else (False, h2\<lparr>h_position_hold_until := None\<rparr>))"

section \<open>The quote cycle\<close>

fun apply_events :: "order_manager \<Rightarrow> instant \<Rightarrow> order_event list \<Rightarrow> order_manager option" where
  "apply_events m t [] = Some m"
| "apply_events m t (e # es) = do { m' \<leftarrow> apply_event m t e; apply_events m' t es }"

text \<open>Events first, then the latest reconcile snapshot; done on every tick.\<close>

definition drain :: "(string \<Rightarrow> f64 option) \<Rightarrow> hot_task \<Rightarrow> instant \<Rightarrow> hot_task option" where
  "drain fp h t =
     do {
       m \<leftarrow> apply_events (h_om h) t (h_events h);
       let m' = (case h_reconcile_swap h of None \<Rightarrow> m | Some orders \<Rightarrow> process_reconcile fp m t orders);
       Some (h\<lparr>h_om := m', h_events := [], h_reconcile_swap := None\<rparr>)
     }"

definition count_cadence :: "hot_task \<Rightarrow> instant \<Rightarrow> hot_task" where
  "count_cadence h t =
     (let h1 = h\<lparr>h_cadence_count := h_cadence_count h + 1\<rparr>
      in case h_cadence_start h1 of
           None \<Rightarrow> h1\<lparr>h_cadence_start := Some t\<rparr>
         | Some t0 \<Rightarrow> if 60 \<le> as_secs_f64 (max 0 (t - t0))
                      then h1\<lparr>h_cadence_start := Some t, h_cadence_count := 0\<rparr> else h1)"

definition throttled :: "hot_task \<Rightarrow> instant \<Rightarrow> bool" where
  "throttled h t =
     (case h_last_quote h of
        None \<Rightarrow> False
      | Some t0 \<Rightarrow> as_secs_f64 (max 0 (t - t0)) < h_min_loop_interval h)"

definition feeds_missing :: "hot_task \<Rightarrow> nat \<Rightarrow> bool" where
  "feeds_missing h ms \<longleftrightarrow>
     h_mode h = Live_Mode \<and> (d_available_capital (h_derived h) \<le> 0 \<or> position_age_ms (h_shared_pos h) ms = U64_MAX)"

text \<open>The gate's action: pull whatever rests.\<close>

definition pull_ladder :: "hot_task \<Rightarrow> instant \<Rightarrow> hot_task option" where
  "pull_ladder h t =
     (let cancels = collect_cancel_ops (h_om h)
      in do { m \<leftarrow> mark_all (h_om h) t cancels; Some (publish cancels (h\<lparr>h_om := m\<rparr>)) })"

definition quoted_position :: "hot_task \<Rightarrow> f64" where
  "quoted_position h =
     (let raw = sp_position (h_shared_pos h)
      in if \<bar>raw\<bar> * h_mid h < h_position_dust_usd h then 0 else raw)"

definition min_quote :: "hot_task \<Rightarrow> f64" where
  "min_quote h = max (min_quote_amount (h_market h)) (h_min_order_value_usd h)"

definition normalized :: "hot_task \<Rightarrow> f64 \<Rightarrow> f64" where
  "normalized h raw =
     normalize_live_order_size raw (h_mid h) (amount_tick (h_market h)) (min_base_amount (h_market h)) (min_quote h)"

definition order_size :: "hot_task \<Rightarrow> f64" where
  "order_size h =
     (let capital = d_available_capital (h_derived h)
      in if 0 < capital
         then normalized h (capital * h_capital_usage_percent h * of_int (h_leverage h) / h_mid h)
         else h_base_amount h)"

definition max_position :: "hot_task \<Rightarrow> f64 \<Rightarrow> f64 \<times> hot_task" where
  "max_position h sz =
     (let capital = d_available_capital (h_derived h)
      in if 0 < capital
         then let mp = dynamic_max_position (h_mid h) capital (h_leverage h) sz (int (h_num_levels h))
              in (mp, h\<lparr>h_derived := set_max_pos_usd (h_derived h) mp\<rparr>)
         else (d_max_pos_usd (h_derived h), h))"

definition not_ready :: "hot_task \<Rightarrow> instant \<Rightarrow> bool" where
  "not_ready h t \<longleftrightarrow>
     \<not> warmed_up (h_calc h) \<or>
     h_mode h = Live_Mode \<and>
       (case h_loop_start h of None \<Rightarrow> True | Some s \<Rightarrow> as_secs_f64 (max 0 (t - s)) < h_warmup_seconds h)"

text \<open>
  The ladder to quote and the size per order. The outer option is a panic; the inner one is
  \<open>None\<close> when nothing is to be quoted (flat and not ready).
\<close>

definition plan_levels ::
  "hot_task \<Rightarrow> instant \<Rightarrow> f64 \<Rightarrow> f64 \<Rightarrow> f64 \<Rightarrow> (level list \<times> f64) option option" where
  "plan_levels h t position sz max_pos =
     (let mid = h_mid h; tick = price_tick (h_market h); n = h_num_levels h
      in if not_ready h t
         then if EPSILON \<le> \<bar>position\<bar>
              then do {
                ls \<leftarrow> fallback_reduce_only mid position tick (h_fallback_bps h) n;
                Some (Some (ls, normalized h (min sz \<bar>position\<bar>)))
              }
              else Some None
         else do {
           ls \<leftarrow> build_quote_levels (quote (h_calc h) mid position) mid position max_pos tick n
                   (h_factors h) (h_fallback_bps h);
           let ls1 = apply_quality_spread_multiplier ls mid 1 tick;
           let ls2 = apply_inventory_exit_bias ls1 mid position max_pos 0 (h_adverse_threshold_bps h) (h_inv_bias h) tick;
           Some (Some (ls2, sz))
         })"

definition dry_run_event :: "batch_op \<Rightarrow> order_event" where
  "dry_run_event op =
     (case op_action op of
        Cancel \<Rightarrow> ClearLive (op_side op) (op_level op) (op_client_order_id op)
      | _ \<Rightarrow> BindLive (op_side op) (op_level op) (op_client_order_id op)
               (Some (case op_exchange_id op of None \<Rightarrow> op_client_order_id op | Some e \<Rightarrow> e))
               (op_price op) (op_size op))"

definition publish_tracked :: "hot_task \<Rightarrow> hot_task" where
  "publish_tracked h =
     (if tracked_ids_equal (h_om h) (h_last_tracked h) then h
      else let ids = tracked_client_ids (h_om h) in h\<lparr>h_tracked_ids := ids, h_last_tracked := ids\<rparr>)"

text \<open>Mark the batch, publish the tracked ids, then hand the batch over (or simulate it).\<close>

definition emit_batch :: "hot_task \<Rightarrow> instant \<Rightarrow> batch_op list \<Rightarrow> hot_task option" where
  "emit_batch h t ops =
     do {
       m \<leftarrow> mark_all (h_om h) t ops;
       let h1 = publish_tracked (h\<lparr>h_om := m\<rparr>);
       case h_mode h of
         DryRun \<Rightarrow> do {
           m' \<leftarrow> apply_events (h_om h1) t (map dry_run_event ops);
           Some (h1\<lparr>h_om := m'\<rparr>)
         }
       | Live_Mode \<Rightarrow> Some (if ops = [] then h1 else publish ops h1)
     }"

definition quote_cycle :: "hot_task \<Rightarrow> instant \<Rightarrow> nat \<Rightarrow> hot_task option" where
  "quote_cycle h t ms =
     (let position = quoted_position h;
          (hold, h1) = hold_quotes_for_position_reconcile h (sp_position (h_shared_pos h)) t;
          sz = order_size h1;
          (max_pos, h2) = max_position h1 sz;
          h3 = h2\<lparr>h_calc := set_max_position_dollar (h_calc h2) max_pos\<rparr>;
          now_ns = int ms * 1000000;
          thr = quota_adaptive_threshold_bps (h_quote_threshold_bps h3) (derived_quota (h_derived h3))
      in do {
        plan \<leftarrow> plan_levels h3 t position sz max_pos;
        case plan of
          None \<Rightarrow> Some (publish [] h3)
        | Some (ls, quote_size) \<Rightarrow> do {
            (ops, m) \<leftarrow> collect_order_operations (h_om h3) ls quote_size position thr now_ns hold;
            emit_batch (h3\<lparr>h_om := m\<rparr>) t ops
          }
      })"

definition maybe_quote :: "(string \<Rightarrow> f64 option) \<Rightarrow> hot_task \<Rightarrow> instant \<Rightarrow> nat \<Rightarrow> hot_task option" where
  "maybe_quote fp h t ms =
     do {
       h0 \<leftarrow> drain fp h t;
       let h1 = count_cadence h0 t;
       if throttled h1 t then Some h1
       else (let h2 = h1\<lparr>h_last_quote := Some t,
                        h_calc := set_alpha_override (h_calc h1)
                          (usable_alpha (h_shared_alpha h1) ms (h_alpha_stale_ms h1))\<rparr>
             in if feeds_missing h2 ms then pull_ladder h2 t else quote_cycle h2 t ms)
     }"

section \<open>Messages\<close>

definition on_disconnect :: "hot_task \<Rightarrow> hot_task" where
  "on_disconnect h = h\<lparr>h_reset_flag := True\<rparr>"

definition take_reset :: "hot_task \<Rightarrow> hot_task" where
  "take_reset h =
     (if h_reset_flag h
      then h\<lparr>h_reset_flag := False, h_book := book_new, h_calc := calculator_reset (h_calc h),
             h_awaiting_resnapshot := False, h_sanity_streak := 0\<rparr>
      else h)"

datatype verdict = Ignore | Gap | Use

text \<open>What becomes of a message: a delta can be ignored, or reveal a gap.\<close>

definition judge :: "hot_task \<Rightarrow> order_book_msg \<Rightarrow> verdict" where
  "judge h msg =
     (if is_snapshot msg then Use
      else if h_awaiting_resnapshot h then Ignore
      else if (case (effective_offset msg, last_offset (h_book h)) of
                 (Some off, Some lst) \<Rightarrow> initialized (h_book h) \<and> off \<le> lst
               | _ \<Rightarrow> False) then Ignore
      else if initialized (h_book h) \<and>
              (case (effective_begin_nonce msg, last_nonce (h_book h)) of
                 (Some bn, Some lst) \<Rightarrow> bn \<noteq> lst
               | _ \<Rightarrow> False) then Gap
      else Use)"

definition update_book :: "hot_task \<Rightarrow> order_book_msg \<Rightarrow> hot_task" where
  "update_book h msg =
     (let bs = pl_bids (order_book msg); as' = pl_asks (order_book msg);
          h1 = (if is_snapshot msg \<or> \<not> initialized (h_book h)
                then h\<lparr>h_book := apply_snapshot (h_book h) bs as',
                       h_calc := (if initialized (h_book h) then h_calc h else calculator_reset (h_calc h))\<rparr>
                else h\<lparr>h_book := apply_delta (h_book h) bs as'\<rparr>)
      in h1\<lparr>h_book := (h_book h1)\<lparr>last_offset := option_or (effective_offset msg) (last_offset (h_book h1)),
                                  last_nonce := option_or (effective_nonce msg) (last_nonce (h_book h1))\<rparr>\<rparr>)"

definition on_orderbook ::
  "(string \<Rightarrow> f64 option) \<Rightarrow> hot_task \<Rightarrow> order_book_msg \<Rightarrow> instant \<Rightarrow> nat \<Rightarrow> hot_task option" where
  "on_orderbook fp h msg t ms =
     (let h1 = take_reset h;
          h2 = (if is_snapshot msg then h1\<lparr>h_awaiting_resnapshot := False\<rparr> else h1)
      in case judge h2 msg of
           Ignore \<Rightarrow> Some h2
         | Gap \<Rightarrow> Some (request_resnapshot h2)
         | Use \<Rightarrow>
             (let h3 = update_book h2 msg;
                  h4 = h3\<lparr>h_derived := set_md_now (h_derived h3) ms\<rparr>
              in case book_mid (h_book h4) of
                   None \<Rightarrow> Some h4
                 | Some mid \<Rightarrow>
                     (let (diverged, h5) = book_sanity_diverged h4 t mid
                      in if diverged then Some (request_resnapshot h5)
                         else maybe_quote fp
                                (h5\<lparr>h_mid := mid, h_derived := set_mid (h_derived h5) mid,
                                    h_calc := on_book_update (h_calc h5) (int ms * 1000000) mid
                                                (bids (h_book h5)) (asks (h_book h5))\<rparr>) t ms)))"

definition on_ticker :: "(string \<Rightarrow> f64 option) \<Rightarrow> hot_task \<Rightarrow> ticker_msg \<Rightarrow> instant \<Rightarrow> hot_task" where
  "on_ticker fp h msg t =
     (case (ticker_best_bid fp msg, ticker_best_ask fp msg) of
        (Some b, Some a) \<Rightarrow> if 0 < b \<and> b < a then h\<lparr>h_ticker_bbo := Some (b, a, t)\<rparr> else h
      | _ \<Rightarrow> h)"

text \<open>The entry point; the JSON decoders are parameters and a decoding error drops the message.\<close>

definition on_message ::
  "(string \<Rightarrow> f64 option) \<Rightarrow> (string \<Rightarrow> order_book_msg option) \<Rightarrow> (string \<Rightarrow> ticker_msg option)
   \<Rightarrow> hot_task \<Rightarrow> string \<Rightarrow> string \<Rightarrow> instant \<Rightarrow> nat \<Rightarrow> hot_task option" where
  "on_message fp dec_book dec_ticker h mtype raw t ms =
     (if str_contains mtype ''order_book''
      then (case dec_book raw of None \<Rightarrow> Some h | Some msg \<Rightarrow> on_orderbook fp h msg t ms)
      else if str_contains mtype ''ticker''
      then (case dec_ticker raw of None \<Rightarrow> Some h | Some msg \<Rightarrow> Some (on_ticker fp h msg t))
      else Some h)"

section \<open>The order manager under the task\<close>

definition event_fits :: "nat \<Rightarrow> order_event \<Rightarrow> bool" where
  "event_fits n e = (case e of BindLive _ lvl _ _ _ _ \<Rightarrow> lvl < n | ClearLive _ lvl _ \<Rightarrow> lvl < n | _ \<Rightarrow> True)"

lemma event_fits_ok: "event_fits (num_levels m) e \<Longrightarrow> om_step_ok (Some m) (Event t e)"
  by (cases e) (simp_all add: event_fits_def om_step_ok_def)

lemma apply_events_wf:
  assumes "om_wf m" "\<forall>e \<in> set es. event_fits (num_levels m) e"
  shows "\<exists>m'. apply_events m t es = Some m' \<and> om_wf m' \<and> num_levels m' = num_levels m"
  using assms
proof (induction es arbitrary: m)
  case (Cons e es)
  from om_wf_event [OF Cons.prems(1) event_fits_ok, of e t] Cons.prems(2)
  obtain m1 where m1: "apply_event m t e = Some m1" "om_wf m1" "num_levels m1 = num_levels m" by auto
  with Cons.IH [of m1] Cons.prems(2) show ?case by auto
qed simp

text \<open>After a collected batch is marked, each of its slots holds the operation's order.\<close>

lemma collect_mark_ids:
  assumes wf: "om_wf m" and c: "collect_order_operations m ls base pos thr ns hold = Some (ops, m1)"
    and len: "length ls \<le> num_levels m"
  shows "\<exists>m2. mark_all m1 t ops = Some m2 \<and> om_wf m2 \<and> num_levels m2 = num_levels m \<and>
    (\<forall>op \<in> set ops. op_level op < num_levels m \<and> order_id (slot m2 (op_side op) (op_level op)) = Some (op_client_order_id op))"
proof -
  from collect_levels_batch [OF c [unfolded collect_order_operations_def]] obtain i
    where m1: "m1 = m\<lparr>last_client_order_index := i\<rparr>"
      and b: "sorted_wrt (<) (map op_key ops)" "\<forall>op \<in> set ops. op_level op < num_levels m \<and> justified m op"
    using len by (force simp: batch_ok_def op_ok_def)
  have "\<forall>op \<in> set ops. op_level op < num_levels m1 \<and> (op_action op = Create \<or> order_id (slot m1 (op_side op) (op_level op)) \<noteq> None)"
    using b(2) justified_pending m1 by auto
  from mark_all_spec [OF collect_levels_wf [OF c [unfolded collect_order_operations_def] wf] b(1) this, of t]
  obtain m2 where m2: "mark_all m1 t ops = Some m2" "om_wf m2" "num_levels m2 = num_levels m1"
    "\<forall>op \<in> set ops. slot m2 (op_side op) (op_level op) = pending_slot t op (slot m1 (op_side op) (op_level op))" by blast
  have "order_id (pending_slot t op (slot m (op_side op) (op_level op))) = Some (op_client_order_id op)" if "justified m op" for op
    using that by (cases "op_action op") (simp_all add: pending_slot_def justified_def)
  then show ?thesis using m2 b(2) m1 by auto
qed

text \<open>The price of a create or modify is the price its level asks for on that side.\<close>

definition level_price :: "level list \<Rightarrow> side \<Rightarrow> nat \<Rightarrow> f64 option" where
  "level_price ls s i = (case s of Buy \<Rightarrow> fst (ls ! i) | Sell \<Rightarrow> snd (ls ! i))"

lemma collect_levels_price:
  "collect_levels a m lvl ls = Some (ops, m') \<Longrightarrow> op \<in> set ops \<Longrightarrow> op_action op \<noteq> Cancel \<Longrightarrow>
   lvl \<le> op_level op \<and> op_level op < lvl + length ls \<and> level_price ls (op_side op) (op_level op - lvl) = Some (op_price op)"
proof (induction a m lvl ls arbitrary: ops m' rule: collect_levels.induct)
  case (2 a m lvl bp sp ls)
  obtain o1 m1 where c1: "collect_slot a m lvl Buy bp = (o1, m1)" by fastforce
  obtain o2 m2 where c2: "collect_slot a m1 lvl Sell sp = (o2, m2)" by fastforce
  from 2(2) c1 c2 obtain o3 where rest: "collect_levels a m2 (lvl + 1) ls = Some (o3, m')" and ops: "ops = o1 @ o2 @ o3"
    and rng: "\<not> (length (om_bids m) \<le> lvl \<or> length (om_asks m) \<le> lvl)"
    by (auto split: if_splits option.splits)
  consider "op \<in> set o1" | "op \<in> set o2" | "op \<in> set o3" using 2(3) ops by auto
  then show ?case
  proof cases
    case 1
    then show ?thesis using collect_slot_spec(2) [OF c1] 2(4) by (auto simp: level_price_def)
  next
    case 2
    then show ?thesis using collect_slot_spec(2) [OF c2] \<open>op_action op \<noteq> Cancel\<close> by (auto simp: level_price_def)
  next
    case 3
    have ih: "lvl + 1 \<le> op_level op" "op_level op < lvl + 1 + length ls"
      "level_price ls (op_side op) (op_level op - (lvl + 1)) = Some (op_price op)"
      using 2(1) [OF rng c1 [symmetric] refl c2 [symmetric] refl rest 3 2(4)] by auto
    then have "op_level op - lvl = Suc (op_level op - (lvl + 1))" by simp
    with ih show ?thesis by (auto simp: level_price_def split: side.splits)
  qed
qed simp

lemma tracked_member:
  "om_wf m \<Longrightarrow> lvl < num_levels m \<Longrightarrow> order_id (slot m s lvl) = Some c \<Longrightarrow> c \<in> set (tracked_client_ids m)"
  using tracked_iff by blast

section \<open>The invariant of the task\<close>

definition hot_wf :: "hot_task \<Rightarrow> bool" where
  "hot_wf h \<longleftrightarrow> om_wf (h_om h) \<and> num_levels (h_om h) = h_num_levels h \<and> 0 < h_num_levels h \<and>
     (\<forall>e \<in> set (h_events h). event_fits (h_num_levels h) e) \<and> h_last_tracked h = h_tracked_ids h"

text \<open>What the message handling before \<open>maybe_quote\<close> does not touch.\<close>

definition wiring :: "hot_task \<Rightarrow> hot_task" where
  "wiring h = h\<lparr>h_book := undefined, h_calc := undefined, h_derived := undefined, h_mid := undefined,
     h_awaiting_resnapshot := undefined, h_sanity_streak := undefined, h_reset_flag := undefined,
     h_md_reconnect := undefined\<rparr>"

lemma wiring_fields:
  assumes "wiring h = wiring g"
  shows "h_om h = h_om g" "h_events h = h_events g" "h_reconcile_swap h = h_reconcile_swap g" "h_mode h = h_mode g"
    "h_ops h = h_ops g" "h_tracked_ids h = h_tracked_ids g" "h_last_tracked h = h_last_tracked g"
    "h_num_levels h = h_num_levels g" "h_shared_pos h = h_shared_pos g" "h_factors h = h_factors g"
    "h_market h = h_market g" "h_loop_start h = h_loop_start g" "h_warmup_seconds h = h_warmup_seconds g"
proof -
  have eq: "f (wiring h) = f (wiring g)" for f :: "hot_task \<Rightarrow> 'x" using assms by simp
  show "h_om h = h_om g" using eq [of h_om] by (simp add: wiring_def)
  show "h_events h = h_events g" using eq [of h_events] by (simp add: wiring_def)
  show "h_reconcile_swap h = h_reconcile_swap g" using eq [of h_reconcile_swap] by (simp add: wiring_def)
  show "h_mode h = h_mode g" using eq [of h_mode] by (simp add: wiring_def)
  show "h_ops h = h_ops g" using eq [of h_ops] by (simp add: wiring_def)
  show "h_tracked_ids h = h_tracked_ids g" using eq [of h_tracked_ids] by (simp add: wiring_def)
  show "h_last_tracked h = h_last_tracked g" using eq [of h_last_tracked] by (simp add: wiring_def)
  show "h_num_levels h = h_num_levels g" using eq [of h_num_levels] by (simp add: wiring_def)
  show "h_shared_pos h = h_shared_pos g" using eq [of h_shared_pos] by (simp add: wiring_def)
  show "h_factors h = h_factors g" using eq [of h_factors] by (simp add: wiring_def)
  show "h_market h = h_market g" using eq [of h_market] by (simp add: wiring_def)
  show "h_loop_start h = h_loop_start g" using eq [of h_loop_start] by (simp add: wiring_def)
  show "h_warmup_seconds h = h_warmup_seconds g" using eq [of h_warmup_seconds] by (simp add: wiring_def)
qed

lemma wiring_simps [simp]:
  "wiring (h\<lparr>h_book := b\<rparr>) = wiring h" "wiring (h\<lparr>h_calc := c\<rparr>) = wiring h" "wiring (h\<lparr>h_derived := d\<rparr>) = wiring h"
  "wiring (h\<lparr>h_mid := m\<rparr>) = wiring h" "wiring (h\<lparr>h_awaiting_resnapshot := f\<rparr>) = wiring h"
  "wiring (h\<lparr>h_sanity_streak := k\<rparr>) = wiring h" "wiring (h\<lparr>h_reset_flag := f\<rparr>) = wiring h"
  "wiring (h\<lparr>h_md_reconnect := k\<rparr>) = wiring h"
  by (simp_all add: wiring_def)

definition calc_ok :: "vol_obi_calculator \<Rightarrow> bool" where
  "calc_ok c \<longleftrightarrow> 0 < tick_size c \<and> 0 < min_half_spread_bps c"

lemma calc_ok_steps [simp]:
  "calc_ok (calculator_reset c) = calc_ok c" "calc_ok (on_book_update c n mid bs as') = calc_ok c"
  "calc_ok (set_alpha_override c a) = calc_ok c" "calc_ok (set_max_position_dollar c v) = calc_ok c"
  by (auto simp: calc_ok_def calculator_reset_def on_book_update_def sample_mid_def refresh_signals_def
      set_alpha_override_def set_max_position_dollar_def Let_def split: option.splits)

lemma quote_around_mid:
  assumes "calc_ok c" "0 < mid" "quote c mid pos = Some (b, a)"
  shows "b < mid" "mid < a"
proof -
  have k: "0 < min_half_spread_bps c" "0 < tick_size c" using assms(1) by (simp_all add: calc_ok_def)
  have gap: "mid * (1 - min_half_spread_bps c / 10000) < mid" "mid < mid * (1 + min_half_spread_bps c / 10000)"
    using mult_strict_left_mono [of "1 - min_half_spread_bps c / 10000" 1 mid]
      mult_strict_left_mono [of 1 "1 + min_half_spread_bps c / 10000" mid] assms(2) k by simp_all
  have "b = floor_to_tick (fst (raw_quote c mid pos)) (tick_size c)" "a = ceil_to_tick (snd (raw_quote c mid pos)) (tick_size c)"
    using assms(3) by (auto simp: quote_snapped Let_def split: prod.splits if_splits)
  then show "b < mid" "mid < a"
    using raw_quote_floor [OF k(1), of mid pos] gap floor_to_tick_bounds(1) [OF k(2), of "fst (raw_quote c mid pos)"]
      ceil_to_tick_bounds(1) [OF k(2), of "snd (raw_quote c mid pos)"] by linarith+
qed

section \<open>The ladder of a cycle\<close>

definition factors_positive :: "hot_task \<Rightarrow> bool" where
  "factors_positive h \<longleftrightarrow> (\<forall>g \<in> set (h_factors h). 0 < g)"

lemma plan_levels_spec:
  assumes n: "0 < h_num_levels h"
  shows "\<exists>plan. plan_levels h t pos sz mp = Some plan \<and>
    (\<forall>ls q. plan = Some (ls, q) \<longrightarrow> length ls = h_num_levels h \<and>
       (calc_ok (h_calc h) \<and> 0 < h_mid h \<and> factors_positive h \<longrightarrow> all_passive (h_mid h) ls) \<and>
       (not_ready h t \<longrightarrow> (0 \<le> pos \<longrightarrow> (\<forall>l \<in> set ls. fst l = None)) \<and> (pos \<le> 0 \<longrightarrow> (\<forall>l \<in> set ls. snd l = None))))"
proof (cases "not_ready h t")
  case True
  show ?thesis
  proof (cases "EPSILON \<le> \<bar>pos\<bar>")
    case eps: True
    obtain ls where ls: "fallback_reduce_only (h_mid h) pos (price_tick (h_market h)) (h_fallback_bps h) (h_num_levels h) = Some ls"
      using fallback_total [OF n] by blast
    then have "plan_levels h t pos sz mp = Some (Some (ls, normalized h (min sz \<bar>pos\<bar>)))"
      using True eps by (simp add: plan_levels_def)
    then show ?thesis using fallback_levels [OF ls] by auto
  qed (use True in \<open>simp add: plan_levels_def\<close>)
next
  case False
  let ?mid = "h_mid h" and ?q = "quote (h_calc h) (h_mid h) pos"
  let ?pass = "\<lambda>ls. apply_inventory_exit_bias (apply_quality_spread_multiplier ls ?mid 1 (price_tick (h_market h))) ?mid pos mp 0
      (h_adverse_threshold_bps h) (h_inv_bias h) (price_tick (h_market h))"
  obtain ls where ls: "build_quote_levels ?q ?mid pos mp (price_tick (h_market h)) (h_num_levels h) (h_factors h) (h_fallback_bps h) = Some ls"
    "length ls = h_num_levels h"
    "factors_positive h \<and> (\<forall>b a. ?q = Some (b, a) \<longrightarrow> b < ?mid \<and> ?mid < a) \<longrightarrow> all_passive ?mid ls"
    using build_quote_levels_total [OF n] unfolding factors_positive_def by blast
  have "plan_levels h t pos sz mp = Some (Some (?pass ls, sz))" using False ls(1) by (simp add: plan_levels_def Let_def)
  moreover have "all_passive ?mid (?pass ls)" if "calc_ok (h_calc h)" "0 < ?mid" "factors_positive h"
    using that ls(3) quote_around_mid [of "h_calc h" ?mid pos] by (intro quality_bias.both.keeps_passive) blast
  moreover have "length (?pass ls) = h_num_levels h" using quality_bias.both.keeps_length ls(2) by simp
  ultimately show ?thesis using False by auto
qed

lemma level_price_passive:
  "all_passive mid ls \<Longrightarrow> i < length ls \<Longrightarrow> level_price ls s i = Some p \<Longrightarrow>
   (case s of Buy \<Rightarrow> p < mid | Sell \<Rightarrow> mid < p)"
  using nth_mem [of i ls] by (cases s) (auto simp: level_price_def passive_level_def)

section \<open>What a cycle publishes\<close>

text \<open>What is promised of an operation a cycle publishes, given the state before and after it.\<close>

definition order_kept :: "hot_task \<Rightarrow> batch_op \<Rightarrow> bool" where
  "order_kept h' op \<longleftrightarrow> op_level op < h_num_levels h' \<and>
     order_id (slot (h_om h') (op_side op) (op_level op)) = Some (op_client_order_id op)"

definition quote_safe :: "hot_task \<Rightarrow> instant \<Rightarrow> batch_op \<Rightarrow> bool" where
  "quote_safe h t op \<longleftrightarrow>
     (calc_ok (h_calc h) \<and> 0 < h_mid h \<and> factors_positive h \<longrightarrow>
        (case op_side op of Buy \<Rightarrow> op_price op < h_mid h | Sell \<Rightarrow> h_mid h < op_price op)) \<and>
     (not_ready h t \<longrightarrow> (case op_side op of Buy \<Rightarrow> quoted_position h < 0 | Sell \<Rightarrow> 0 < quoted_position h))"

lemma hold_frame [simp]:
  "h_om (snd (hold_quotes_for_position_reconcile h x t)) = h_om h"
  "h_events (snd (hold_quotes_for_position_reconcile h x t)) = h_events h"
  "h_mode (snd (hold_quotes_for_position_reconcile h x t)) = h_mode h"
  "h_ops (snd (hold_quotes_for_position_reconcile h x t)) = h_ops h"
  "h_tracked_ids (snd (hold_quotes_for_position_reconcile h x t)) = h_tracked_ids h"
  "h_last_tracked (snd (hold_quotes_for_position_reconcile h x t)) = h_last_tracked h"
  "h_num_levels (snd (hold_quotes_for_position_reconcile h x t)) = h_num_levels h"
  "h_calc (snd (hold_quotes_for_position_reconcile h x t)) = h_calc h"
  "h_mid (snd (hold_quotes_for_position_reconcile h x t)) = h_mid h"
  "h_factors (snd (hold_quotes_for_position_reconcile h x t)) = h_factors h"
  "h_loop_start (snd (hold_quotes_for_position_reconcile h x t)) = h_loop_start h"
  "h_warmup_seconds (snd (hold_quotes_for_position_reconcile h x t)) = h_warmup_seconds h"
  "h_shared_pos (snd (hold_quotes_for_position_reconcile h x t)) = h_shared_pos h"
  "h_position_dust_usd (snd (hold_quotes_for_position_reconcile h x t)) = h_position_dust_usd h"
  "h_derived (snd (hold_quotes_for_position_reconcile h x t)) = h_derived h"
  by (simp_all add: hold_quotes_for_position_reconcile_def Let_def split: option.split)

lemma max_position_frame [simp]:
  "h_om (snd (max_position h sz)) = h_om h" "h_events (snd (max_position h sz)) = h_events h"
  "h_mode (snd (max_position h sz)) = h_mode h" "h_ops (snd (max_position h sz)) = h_ops h"
  "h_tracked_ids (snd (max_position h sz)) = h_tracked_ids h" "h_last_tracked (snd (max_position h sz)) = h_last_tracked h"
  "h_num_levels (snd (max_position h sz)) = h_num_levels h" "h_calc (snd (max_position h sz)) = h_calc h"
  "h_mid (snd (max_position h sz)) = h_mid h" "h_factors (snd (max_position h sz)) = h_factors h"
  "h_loop_start (snd (max_position h sz)) = h_loop_start h" "h_warmup_seconds (snd (max_position h sz)) = h_warmup_seconds h"
  "h_shared_pos (snd (max_position h sz)) = h_shared_pos h" "h_position_dust_usd (snd (max_position h sz)) = h_position_dust_usd h"
  "d_available_capital (h_derived (snd (max_position h sz))) = d_available_capital (h_derived h)"
  by (simp_all add: max_position_def set_max_pos_usd_def Let_def)

text \<open>What the safety of a quote depends on; a cycle does not change it.\<close>

definition outlook :: "hot_task \<Rightarrow> instant \<Rightarrow> nat \<Rightarrow> f64 \<times> f64 \<times> bool \<times> bool \<times> mode \<times> bool \<times> bool" where
  "outlook h t ms = (h_mid h, quoted_position h, not_ready h t, feeds_missing h ms, h_mode h, calc_ok (h_calc h), factors_positive h)"

lemma outlook_frame [simp]:
  "outlook (publish ops h) t ms = outlook h t ms" "outlook (publish_tracked h) t ms = outlook h t ms"
  "outlook (h\<lparr>h_om := m\<rparr>) t ms = outlook h t ms" "outlook (h\<lparr>h_ops := xs\<rparr>) t ms = outlook h t ms"
  by (simp_all add: outlook_def publish_def publish_tracked_def quoted_position_def not_ready_def feeds_missing_def
      factors_positive_def Let_def split: option.split)

lemma emit_batch_spec:
  assumes wf: "hot_wf h" and c: "collect_order_operations (h_om h) ls sz pos thr ns hold = Some (ops, m)"
    and len: "length ls \<le> h_num_levels h"
  shows "\<exists>h'. emit_batch (h\<lparr>h_om := m\<rparr>) t ops = Some h' \<and> hot_wf h' \<and> h_num_levels h' = h_num_levels h \<and>
    outlook h' t ms = outlook h t ms \<and>
    (h_ops h' = h_ops h \<or> h_mode h = Live_Mode \<and> h_ops h' = h_ops h @ [ops] \<and>
       (\<forall>op \<in> set ops. order_kept h' op \<and> op_client_order_id op \<in> set (h_tracked_ids h')))"
proof -
  have om: "om_wf (h_om h)" "num_levels (h_om h) = h_num_levels h" "h_last_tracked h = h_tracked_ids h"
    using wf by (simp_all add: hot_wf_def)
  obtain m2 where m2: "mark_all m t ops = Some m2" "om_wf m2" "num_levels m2 = h_num_levels h"
    and ids: "\<forall>op \<in> set ops. op_level op < h_num_levels h \<and> order_id (slot m2 (op_side op) (op_level op)) = Some (op_client_order_id op)"
    using collect_mark_ids [OF om(1) c, of t] om(2) len by auto
  let ?h1 = "publish_tracked (h\<lparr>h_om := m2\<rparr>)"
  have h1: "h_om ?h1 = m2" "h_tracked_ids ?h1 = tracked_client_ids m2" "h_last_tracked ?h1 = tracked_client_ids m2"
    "h_ops ?h1 = h_ops h" "h_num_levels ?h1 = h_num_levels h" "h_events ?h1 = h_events h"
    using om(3) by (simp_all add: publish_tracked_def tracked_ids_equal_correct Let_def)
  then have wf1: "hot_wf ?h1" using wf m2 by (simp add: hot_wf_def)
  have kept: "\<forall>op \<in> set ops. order_kept ?h1 op \<and> op_client_order_id op \<in> set (h_tracked_ids ?h1)"
    using ids h1 m2 tracked_member by (auto simp: order_kept_def)
  show ?thesis
  proof (cases "h_mode h")
    case DryRun
    have "\<forall>e \<in> set (map dry_run_event ops). event_fits (num_levels m2) e"
      using ids m2(3) by (auto simp: event_fits_def dry_run_event_def split: order_action.split)
    from apply_events_wf [OF m2(2) this, of t] obtain m3
      where m3: "apply_events m2 t (map dry_run_event ops) = Some m3" "om_wf m3" "num_levels m3 = num_levels m2" by blast
    then have "hot_wf (?h1\<lparr>h_om := m3\<rparr>)" using wf1 m2 h1 by (simp add: hot_wf_def)
    then show ?thesis using DryRun m2 m3 h1 by (simp add: emit_batch_def Let_def)
  next
    case Live_Mode
    have "hot_wf (publish ops ?h1)" using wf1 by (simp add: hot_wf_def publish_def)
    moreover have "\<forall>op \<in> set ops. order_kept (publish ops ?h1) op \<and> op_client_order_id op \<in> set (h_tracked_ids (publish ops ?h1))"
      using kept by (simp add: order_kept_def publish_def)
    ultimately show ?thesis using Live_Mode m2 h1 wf1 by (auto simp: emit_batch_def Let_def publish_def)
  qed
qed

text \<open>A batch that may be published, \<open>h'\<close> being the state it leaves.\<close>

definition batch_promise :: "hot_task \<Rightarrow> instant \<Rightarrow> nat \<Rightarrow> batch_op list \<Rightarrow> bool" where
  "batch_promise h' t ms ops \<longleftrightarrow>
     (ops \<noteq> [] \<longrightarrow> h_mode h' = Live_Mode) \<and> sorted_wrt (<) (map op_key ops) \<and>
     (\<forall>op \<in> set ops. order_kept h' op \<and>
        (op_action op \<noteq> Cancel \<longrightarrow> quote_safe h' t op \<and> \<not> feeds_missing h' ms \<and> op_client_order_id op \<in> set (h_tracked_ids h')))"

lemma batch_promise_Nil [simp]: "batch_promise h' t ms []"
  by (simp add: batch_promise_def)

definition cycle_result :: "hot_task \<Rightarrow> instant \<Rightarrow> nat \<Rightarrow> hot_task option \<Rightarrow> bool" where
  "cycle_result h t ms r \<longleftrightarrow>
     (\<exists>h'. r = Some h' \<and> hot_wf h' \<and> h_num_levels h' = h_num_levels h \<and> outlook h' t ms = outlook h t ms \<and>
        (h_ops h' = h_ops h \<or> (\<exists>ops. h_ops h' = h_ops h @ [ops] \<and> batch_promise h' t ms ops)))"

lemma quote_safe_outlook: "outlook h' t ms = outlook h t ms \<Longrightarrow> quote_safe h' t op = quote_safe h t op"
  by (cases "op_side op") (simp_all add: outlook_def quote_safe_def)

lemma quote_safe_collected:
  assumes c: "collect_order_operations m ls sz pos thr ns hold = Some (ops, m')" and op: "op \<in> set ops" "op_action op \<noteq> Cancel"
    and pass: "calc_ok (h_calc h) \<and> 0 < h_mid h \<and> factors_positive h \<longrightarrow> all_passive (h_mid h) ls"
    and reduce: "not_ready h t \<longrightarrow> (0 \<le> pos \<longrightarrow> (\<forall>l \<in> set ls. fst l = None)) \<and> (pos \<le> 0 \<longrightarrow> (\<forall>l \<in> set ls. snd l = None))"
    and pos: "pos = quoted_position h"
  shows "quote_safe h t op"
proof -
  from collect_levels_price [OF c [unfolded collect_order_operations_def] op]
  have lp: "op_level op < length ls" "level_price ls (op_side op) (op_level op) = Some (op_price op)" by auto
  have "case op_side op of Buy \<Rightarrow> op_price op < h_mid h | Sell \<Rightarrow> h_mid h < op_price op"
    if "calc_ok (h_calc h)" "0 < h_mid h" "factors_positive h"
    using pass that by (intro level_price_passive [OF _ lp]) blast
  moreover have "case op_side op of Buy \<Rightarrow> pos < 0 | Sell \<Rightarrow> 0 < pos" if "not_ready h t"
    using reduce that lp nth_mem [OF lp(1)]
    by (cases "op_side op"; cases "pos < 0"; cases "0 < pos") (auto simp: level_price_def)
  ultimately show ?thesis unfolding quote_safe_def pos by blast
qed

lemma warmed_up_limit [simp]: "warmed_up (set_max_position_dollar c v) = warmed_up c"
  by (simp add: set_max_position_dollar_def)

lemma quote_cycle_spec:
  assumes wf: "hot_wf h" and feeds: "\<not> feeds_missing h ms"
  shows "cycle_result h t ms (quote_cycle h t ms)"
proof -
  let ?pos = "quoted_position h"
  obtain hold h1 where hold: "hold_quotes_for_position_reconcile h (sp_position (h_shared_pos h)) t = (hold, h1)" by fastforce
  obtain mp h2 where mp: "max_position h1 (order_size h1) = (mp, h2)" by fastforce
  let ?h3 = "h2\<lparr>h_calc := set_max_position_dollar (h_calc h2) mp\<rparr>"
  let ?thr = "quota_adaptive_threshold_bps (h_quote_threshold_bps ?h3) (derived_quota (h_derived ?h3))"
  note fr = hold_frame [of h "sp_position (h_shared_pos h)" t, unfolded hold snd_conv]
    max_position_frame [of h1 "order_size h1", unfolded mp snd_conv]
  have same: "h_om ?h3 = h_om h" "h_ops ?h3 = h_ops h" "h_mode ?h3 = h_mode h" "h_num_levels ?h3 = h_num_levels h"
    "h_mid ?h3 = h_mid h" "calc_ok (h_calc ?h3) = calc_ok (h_calc h)" "factors_positive ?h3 = factors_positive h"
    "not_ready ?h3 t = not_ready h t" "outlook ?h3 t ms = outlook h t ms"
    by (simp_all add: fr factors_positive_def not_ready_def outlook_def quoted_position_def feeds_missing_def Let_def split: option.split)
  have wf3: "hot_wf ?h3" and n: "0 < h_num_levels h" using wf by (simp_all add: hot_wf_def fr)
  obtain plan where plan: "plan_levels ?h3 t ?pos (order_size h1) mp = Some plan"
    and spec: "\<forall>ls q. plan = Some (ls, q) \<longrightarrow> length ls = h_num_levels h \<and>
       (calc_ok (h_calc h) \<and> 0 < h_mid h \<and> factors_positive h \<longrightarrow> all_passive (h_mid h) ls) \<and>
       (not_ready h t \<longrightarrow> (0 \<le> ?pos \<longrightarrow> (\<forall>l \<in> set ls. fst l = None)) \<and> (?pos \<le> 0 \<longrightarrow> (\<forall>l \<in> set ls. snd l = None)))"
    using plan_levels_spec [of ?h3 t ?pos "order_size h1" mp, unfolded same, OF n] by (elim exE conjE)
  have q: "quote_cycle h t ms = (case plan of None \<Rightarrow> Some (publish [] ?h3)
      | Some (ls, sz) \<Rightarrow> do { (ops, m) \<leftarrow> collect_order_operations (h_om ?h3) ls sz ?pos ?thr (int ms * 1000000) hold;
          emit_batch (?h3\<lparr>h_om := m\<rparr>) t ops })"
    using plan by (cases plan) (simp_all add: quote_cycle_def hold mp Let_def split: prod.split)
  show ?thesis
  proof (cases plan)
    case None
    then show ?thesis using q wf3 same
      by (auto simp: cycle_result_def publish_def hot_wf_def intro: exI [of _ "[]"])
  next
    case (Some p)
    then obtain ls sz where ls: "plan = Some (ls, sz)" by (cases p) auto
    have len: "length ls = h_num_levels h" using spec ls by blast
    then have "length ls \<le> length (om_bids (h_om h))" "length ls \<le> length (om_asks (h_om h))"
      using wf by (simp_all add: hot_wf_def om_wf_def side_slots_Buy side_slots_Sell)
    then obtain ops m where c: "collect_order_operations (h_om ?h3) ls sz ?pos ?thr (int ms * 1000000) hold = Some (ops, m)"
      using collect_levels_total [of 0 ls "h_om h"] unfolding collect_order_operations_def same by fastforce
    from emit_batch_spec [OF wf3 c, where t = t and ms = ms, unfolded same, OF eq_refl [OF len]] obtain h'
      where e: "emit_batch (?h3\<lparr>h_om := m\<rparr>) t ops = Some h'" "hot_wf h'" "h_num_levels h' = h_num_levels h"
        "outlook h' t ms = outlook h t ms"
        and pub: "h_ops h' = h_ops h \<or> h_mode h = Live_Mode \<and> h_ops h' = h_ops h @ [ops] \<and>
          (\<forall>op \<in> set ops. order_kept h' op \<and> op_client_order_id op \<in> set (h_tracked_ids h'))"
      by (elim exE conjE)
    note sp = spec [rule_format, OF ls]
    have safe: "quote_safe h t op" if "op \<in> set ops" "op_action op \<noteq> Cancel" for op
      by (rule quote_safe_collected [OF c that conjunct1 [OF conjunct2 [OF sp]] conjunct2 [OF conjunct2 [OF sp]] refl])
    have "sorted_wrt (<) (map op_key ops)"
      using collect_levels_batch [OF c [unfolded collect_order_operations_def]] by (simp add: batch_ok_def)
    then have "batch_promise h' t ms ops" if "h_mode h = Live_Mode" "\<forall>op \<in> set ops. order_kept h' op \<and> op_client_order_id op \<in> set (h_tracked_ids h')"
      using that safe feeds e(4) quote_safe_outlook [OF e(4)] by (simp add: batch_promise_def outlook_def)
    with pub have "h_ops h' = h_ops h \<or> (\<exists>ops. h_ops h' = h_ops h @ [ops] \<and> batch_promise h' t ms ops)" by blast
    moreover have "quote_cycle h t ms = Some h'" using e(1) c unfolding q ls by simp
    ultimately show ?thesis using e(2-4) unfolding cycle_result_def by blast
  qed
qed

lemma pull_ladder_spec:
  assumes wf: "hot_wf h" and feeds: "feeds_missing h ms"
  shows "cycle_result h t ms (pull_ladder h t)"
proof -
  let ?ops = "collect_cancel_ops (h_om h)"
  obtain m where m: "mark_all (h_om h) t ?ops = Some m" "om_wf m" "num_levels m = num_levels (h_om h)"
    "\<forall>op \<in> set ?ops. slot m (op_side op) (op_level op) = pending_slot t op (slot (h_om h) (op_side op) (op_level op))"
    using mark_cancel_ops [of "h_om h" t] wf by (auto simp: hot_wf_def)
  have "order_kept (publish ?ops (h\<lparr>h_om := m\<rparr>)) op \<and> op_action op = Cancel" if "op \<in> set ?ops" for op
    using that cancel_ops_mem [OF that] m(4) wf
    by (auto simp: order_kept_def publish_def justified_def pending_slot_def hot_wf_def)
  then have "batch_promise (publish ?ops (h\<lparr>h_om := m\<rparr>)) t ms ?ops"
    using feeds sorted_cancel_keys [OF sorted_slot_keys, of "h_om h" "h_om h"]
    by (auto simp: batch_promise_def feeds_missing_def publish_def collect_cancel_ops_def)
  moreover have "hot_wf (publish ?ops (h\<lparr>h_om := m\<rparr>))" using m wf by (simp add: hot_wf_def publish_def)
  ultimately show ?thesis
    unfolding cycle_result_def pull_ladder_def
    by (intro exI [of _ "publish ?ops (h\<lparr>h_om := m\<rparr>)"]) (auto simp: m Let_def publish_def [of _ "_\<lparr>h_om := m\<rparr>"])
qed

lemma drain_wf:
  assumes "hot_wf h"
  shows "\<exists>h0. drain fp h t = Some h0 \<and> hot_wf h0 \<and> h0 = h\<lparr>h_om := h_om h0, h_events := [], h_reconcile_swap := None\<rparr>"
proof -
  obtain m where m: "apply_events (h_om h) t (h_events h) = Some m" "om_wf m" "num_levels m = h_num_levels h"
    using apply_events_wf [of "h_om h" "h_events h" t] assms by (auto simp: hot_wf_def)
  let ?m = "case h_reconcile_swap h of None \<Rightarrow> m | Some orders \<Rightarrow> process_reconcile fp m t orders"
  have "om_wf ?m" "num_levels ?m = h_num_levels h"
    using m om_wf_reconcile [OF m(2)] by (auto simp: process_reconcile_def Let_def split: option.split)
  then show ?thesis using assms m(1) by (auto simp: drain_def Let_def hot_wf_def)
qed

lemma count_cadence_frame: "\<exists>a b. count_cadence h t = h\<lparr>h_cadence_count := a, h_cadence_start := b\<rparr>"
proof (cases "h_cadence_start h")
  case None
  then have "count_cadence h t = h\<lparr>h_cadence_count := h_cadence_count h + 1, h_cadence_start := Some t\<rparr>"
    by (simp add: count_cadence_def Let_def)
  then show ?thesis by blast
next
  case (Some t0)
  have "count_cadence h t =
      (if 60 \<le> as_secs_f64 (max 0 (t - t0)) then h\<lparr>h_cadence_count := 0, h_cadence_start := Some t\<rparr>
       else h\<lparr>h_cadence_count := h_cadence_count h + 1, h_cadence_start := h_cadence_start h\<rparr>)"
    using Some by (simp add: count_cadence_def Let_def)
  then show ?thesis by (cases "60 \<le> as_secs_f64 (max 0 (t - t0))") (simp only: if_True if_False, blast)+
qed

text \<open>The state a cycle quotes from: the task with its events drained and its alpha refreshed.\<close>

lemma maybe_quote_spec:
  assumes wf: "hot_wf h"
  shows "\<exists>g. hot_wf g \<and> h_ops g = h_ops h \<and> h_num_levels g = h_num_levels h \<and> outlook g t ms = outlook h t ms \<and>
    (maybe_quote fp h t ms = Some g \<or> cycle_result g t ms (maybe_quote fp h t ms))"
proof -
  obtain h0 where h0: "drain fp h t = Some h0" "hot_wf h0" "h0 = h\<lparr>h_om := h_om h0, h_events := [], h_reconcile_swap := None\<rparr>"
    using drain_wf [OF wf] by blast
  obtain a b where h1: "count_cadence h0 t = h0\<lparr>h_cadence_count := a, h_cadence_start := b\<rparr>"
    using count_cadence_frame by blast
  let ?h1 = "h0\<lparr>h_cadence_count := a, h_cadence_start := b\<rparr>"
  let ?h2 = "?h1\<lparr>h_last_quote := Some t, h_calc := set_alpha_override (h_calc ?h1)
      (usable_alpha (h_shared_alpha ?h1) ms (h_alpha_stale_ms ?h1))\<rparr>"
  have fr: "h_ops h0 = h_ops h" "h_num_levels h0 = h_num_levels h" "h_mode h0 = h_mode h" "h_mid h0 = h_mid h"
    "h_calc h0 = h_calc h" "h_factors h0 = h_factors h" "h_loop_start h0 = h_loop_start h"
    "h_warmup_seconds h0 = h_warmup_seconds h" "h_shared_pos h0 = h_shared_pos h" "h_derived h0 = h_derived h"
    "h_position_dust_usd h0 = h_position_dust_usd h"
    by (subst h0(3), simp)+
  have ov: "warmed_up (set_alpha_override c x) = warmed_up c" for c x
    by (simp add: set_alpha_override_def split: option.split)
  have wf12: "hot_wf ?h1" "hot_wf ?h2" using h0(2) by (simp_all add: hot_wf_def)
  show ?thesis
  proof (cases "throttled ?h1 t")
    case True
    then have "maybe_quote fp h t ms = Some ?h1" using h0(1) h1 by (simp add: maybe_quote_def Let_def)
    then show ?thesis using wf12(1) fr
      by (intro exI [of _ ?h1]) (simp add: outlook_def factors_positive_def not_ready_def quoted_position_def feeds_missing_def split: option.split)
  next
    case False
    then have "maybe_quote fp h t ms = (if feeds_missing ?h2 ms then pull_ladder ?h2 t else quote_cycle ?h2 t ms)"
      using h0(1) h1 by (simp add: maybe_quote_def Let_def)
    then have "cycle_result ?h2 t ms (maybe_quote fp h t ms)"
      using pull_ladder_spec [OF wf12(2)] quote_cycle_spec [OF wf12(2)] by simp
    then show ?thesis using wf12(2) fr ov
      by (intro exI [of _ ?h2]) (simp add: outlook_def factors_positive_def not_ready_def quoted_position_def feeds_missing_def split: option.split)
  qed
qed

section \<open>From messages to cycles\<close>

lemma wiring_pre [simp]:
  "wiring (take_reset h) = wiring h" "wiring (update_book h msg) = wiring h"
  "wiring (snd (book_sanity_diverged h t mid)) = wiring h"
  by (simp_all add: take_reset_def update_book_def book_sanity_diverged_def Let_def split: option.split)

lemma sanity_frame [simp]:
  "h_book (snd (book_sanity_diverged h t mid)) = h_book h" "h_derived (snd (book_sanity_diverged h t mid)) = h_derived h"
  "h_calc (snd (book_sanity_diverged h t mid)) = h_calc h"
  "h_awaiting_resnapshot (snd (book_sanity_diverged h t mid)) = h_awaiting_resnapshot h"
  by (simp_all add: book_sanity_diverged_def Let_def split: option.split)

lemma pre_frame [simp]:
  "h_derived (take_reset h) = h_derived h" "h_derived (update_book h msg) = h_derived h"
  "calc_ok (h_calc (take_reset h)) = calc_ok (h_calc h)" "calc_ok (h_calc (update_book h msg)) = calc_ok (h_calc h)"
  "h_awaiting_resnapshot (update_book h msg) = h_awaiting_resnapshot h"
  by (simp_all add: take_reset_def update_book_def Let_def)

lemma request_resnapshot_eq:
  "\<exists>g. request_resnapshot h = publish [] g \<and> wiring g = wiring h \<and> h_awaiting_resnapshot g"
  by (intro exI [of _ "h\<lparr>h_awaiting_resnapshot := True, h_sanity_streak := 0, h_md_reconnect := h_md_reconnect h + 1\<rparr>"])
    (simp add: request_resnapshot_def)

lemma on_orderbook_cases:
  obtains (quiet) g where "on_orderbook fp h msg t ms = Some g" "wiring g = wiring h"
  | (resnapshot) g where "on_orderbook fp h msg t ms = Some (publish [] g)" "wiring g = wiring h"
  | (quoting) g where "on_orderbook fp h msg t ms = maybe_quote fp g t ms" "wiring g = wiring h"
      "calc_ok (h_calc g) = calc_ok (h_calc h)" "d_available_capital (h_derived g) = d_available_capital (h_derived h)"
      "book_mid (h_book g) = Some (h_mid g)"
proof -
  let ?h2 = "if is_snapshot msg then (take_reset h)\<lparr>h_awaiting_resnapshot := False\<rparr> else take_reset h"
  have h2: "wiring ?h2 = wiring h" "h_derived ?h2 = h_derived h" "calc_ok (h_calc ?h2) = calc_ok (h_calc h)" by simp_all
  let ?h4 = "(update_book ?h2 msg)\<lparr>h_derived := set_md_now (h_derived (update_book ?h2 msg)) ms\<rparr>"
  have h4: "wiring ?h4 = wiring h" using h2(1) by simp
  consider "judge ?h2 msg = Ignore" | "judge ?h2 msg = Gap" | "judge ?h2 msg = Use" "book_mid (h_book ?h4) = None"
    | mid where "judge ?h2 msg = Use" "book_mid (h_book ?h4) = Some mid"
    by (cases "judge ?h2 msg"; cases "book_mid (h_book ?h4)") blast+
  then show thesis
  proof cases
    case 1
    then show thesis using quiet [OF _ h2(1)] by (simp add: on_orderbook_def Let_def)
  next
    case 2
    obtain g where "request_resnapshot ?h2 = publish [] g" "wiring g = wiring ?h2" using request_resnapshot_eq by blast
    then show thesis using resnapshot [of g] 2 h2(1) by (simp add: on_orderbook_def Let_def)
  next
    case 3
    then show thesis using quiet [OF _ h4] by (simp add: on_orderbook_def Let_def)
  next
    case 4
    obtain dv h5 where dv: "book_sanity_diverged ?h4 t mid = (dv, h5)" by fastforce
    note fr = wiring_pre(3) [of ?h4 t mid, unfolded dv snd_conv] sanity_frame [of ?h4 t mid, unfolded dv snd_conv]
    let ?g = "h5\<lparr>h_mid := mid, h_derived := set_mid (h_derived h5) mid,
        h_calc := on_book_update (h_calc h5) (int ms * 1000000) mid (bids (h_book h5)) (asks (h_book h5))\<rparr>"
    have r: "on_orderbook fp h msg t ms = (if dv then Some (request_resnapshot h5) else maybe_quote fp ?g t ms)"
      using 4 dv by (simp add: on_orderbook_def Let_def)
    show thesis
    proof (cases dv)
      case True
      obtain g where "request_resnapshot h5 = publish [] g" "wiring g = wiring h5" using request_resnapshot_eq by blast
      then show thesis using resnapshot [of g] r True fr(1) h4 by simp
    next
      case False
      have "wiring ?g = wiring h" using fr(1) h4 by simp
      moreover have "calc_ok (h_calc ?g) = calc_ok (h_calc h)" using fr(4) h2(3) by simp
      moreover have "d_available_capital (h_derived ?g) = d_available_capital (h_derived h)"
        using fr(3) h2(2) by (simp add: set_mid_def set_md_now_def)
      moreover have "book_mid (h_book ?g) = Some (h_mid ?g)" using fr(2) 4(2) by simp
      ultimately show thesis using quoting [of ?g] r False by simp
    qed
  qed
qed

lemma wiring_wf: "wiring g = wiring h \<Longrightarrow> hot_wf g = hot_wf h"
  using wiring_fields [of g h] by (simp add: hot_wf_def)

text \<open>What handling a message promises, whatever the message is.\<close>

lemma on_orderbook_spec:
  assumes wf: "hot_wf h"
  shows "\<exists>h'. on_orderbook fp h msg t ms = Some h' \<and> hot_wf h' \<and> h_num_levels h' = h_num_levels h \<and> h_mode h' = h_mode h \<and>
    (h_ops h' = h_ops h \<or> (\<exists>ops. h_ops h' = h_ops h @ [ops] \<and> batch_promise h' t ms ops \<and>
       (ops \<noteq> [] \<longrightarrow> calc_ok (h_calc h') = calc_ok (h_calc h) \<and> factors_positive h' = factors_positive h)))"
proof (cases rule: on_orderbook_cases [of fp h msg t ms])
  case (quiet g)
  then show ?thesis using wf wiring_wf [OF quiet(2)] wiring_fields [OF quiet(2)] by simp
next
  case (resnapshot g)
  have "hot_wf (publish [] g)" using wf wiring_wf [OF resnapshot(2)] by (simp add: hot_wf_def publish_def)
  then show ?thesis using resnapshot wiring_fields [OF resnapshot(2)] by (simp add: publish_def)
next
  case (quoting g)
  note w = wiring_fields [OF quoting(2)]
  have wfg: "hot_wf g" using wf wiring_wf [OF quoting(2)] by simp
  from maybe_quote_spec [OF wfg, of t ms fp] obtain k
    where k: "hot_wf k" "h_ops k = h_ops g" "h_num_levels k = h_num_levels g" "outlook k t ms = outlook g t ms"
      and res: "maybe_quote fp g t ms = Some k \<or> cycle_result k t ms (maybe_quote fp g t ms)" by blast
  have fp: "factors_positive g = factors_positive h" using w by (simp add: factors_positive_def)
  from res show ?thesis
  proof
    assume "maybe_quote fp g t ms = Some k"
    then show ?thesis using quoting(1) k w by (simp add: outlook_def)
  next
    assume "cycle_result k t ms (maybe_quote fp g t ms)"
    then obtain h' where h': "maybe_quote fp g t ms = Some h'" "hot_wf h'" "h_num_levels h' = h_num_levels k" "outlook h' t ms = outlook k t ms"
      and pub: "h_ops h' = h_ops k \<or> (\<exists>ops. h_ops h' = h_ops k @ [ops] \<and> batch_promise h' t ms ops)"
      unfolding cycle_result_def by blast
    have "calc_ok (h_calc h') = calc_ok (h_calc h)" "factors_positive h' = factors_positive h" "h_mode h' = h_mode h"
      using h'(4) k(4) quoting(3) fp w(4) by (simp_all add: outlook_def)
    then show ?thesis using quoting(1) h' k pub w by auto
  qed
qed

section \<open>Everything that can happen to the task\<close>

datatype hot_step =
    Book_Message order_book_msg instant nat
  | Ticker_Message ticker_msg instant
  | Order_Event order_event
  | Reconcile_Snapshot "remote_order list"
  | Disconnected
  | Alpha_Cell shared_alpha
  | Position_Cell shared_position
  | Derived_Cell derived

definition hot_step_fun :: "(string \<Rightarrow> f64 option) \<Rightarrow> hot_task option \<Rightarrow> hot_step \<Rightarrow> hot_task option" where
  "hot_step_fun fp st e =
     (case st of None \<Rightarrow> None
      | Some h \<Rightarrow>
        (case e of
           Book_Message msg t ms \<Rightarrow> on_orderbook fp h msg t ms
         | Ticker_Message msg t \<Rightarrow> Some (on_ticker fp h msg t)
         | Order_Event evt \<Rightarrow> Some (h\<lparr>h_events := h_events h @ [evt]\<rparr>)
         | Reconcile_Snapshot os \<Rightarrow> Some (h\<lparr>h_reconcile_swap := Some os\<rparr>)
         | Disconnected \<Rightarrow> Some (on_disconnect h)
         | Alpha_Cell a \<Rightarrow> Some (h\<lparr>h_shared_alpha := a\<rparr>)
         | Position_Cell p \<Rightarrow> Some (h\<lparr>h_shared_pos := p\<rparr>)
         | Derived_Cell d \<Rightarrow> Some (h\<lparr>h_derived := d\<rparr>)))"

text \<open>The events of the other tasks name slots of the ladder.\<close>

definition hot_step_ok :: "nat \<Rightarrow> hot_task option \<Rightarrow> hot_step \<Rightarrow> bool" where
  "hot_step_ok n st e = (case e of Order_Event evt \<Rightarrow> event_fits n evt | _ \<Rightarrow> True)"

definition hot_state_wf :: "nat \<Rightarrow> mode \<Rightarrow> hot_task option \<Rightarrow> bool" where
  "hot_state_wf n md st =
     (case st of None \<Rightarrow> False
      | Some h \<Rightarrow> hot_wf h \<and> h_num_levels h = n \<and> h_mode h = md \<and> (md = DryRun \<longrightarrow> set (h_ops h) \<subseteq> {[]}))"

interpretation hot: step_system "hot_step_fun fp" "hot_step_ok n" "hot_state_wf n md" for fp n md
proof
  fix st e
  assume "hot_state_wf n md st" and ok: "hot_step_ok n st e"
  then obtain h where st: "st = Some h" and wf: "hot_wf h" and h: "h_num_levels h = n" "h_mode h = md"
    and dry: "md = DryRun \<longrightarrow> set (h_ops h) \<subseteq> {[]}"
    by (auto simp: hot_state_wf_def split: option.splits)
  show "hot_state_wf n md (hot_step_fun fp st e)"
  proof (cases e)
    case (Book_Message msg t ms)
    from on_orderbook_spec [OF wf, of fp msg t ms] obtain h'
      where h': "on_orderbook fp h msg t ms = Some h'" "hot_wf h'" "h_num_levels h' = h_num_levels h" "h_mode h' = h_mode h"
        and pub: "h_ops h' = h_ops h \<or> (\<exists>ops. h_ops h' = h_ops h @ [ops] \<and> batch_promise h' t ms ops)" by blast
    have "md = DryRun \<longrightarrow> set (h_ops h') \<subseteq> {[]}" using pub dry h'(4) h(2) by (auto simp: batch_promise_def)
    then show ?thesis using h' h Book_Message st by (simp add: hot_step_fun_def hot_state_wf_def)
  next
    case (Ticker_Message msg t)
    then show ?thesis using st wf h dry
      by (auto simp: hot_step_fun_def hot_state_wf_def on_ticker_def hot_wf_def split: option.splits)
  qed (use st wf h dry ok in \<open>auto simp: hot_step_fun_def hot_state_wf_def hot_step_ok_def on_disconnect_def hot_wf_def\<close>)
qed

lemma hot_new_wf:
  assumes "hot_new t0 market cfg base sa sp der notify md = Some h0"
  shows "hot_state_wf (max (levels_per_side (cfg_trading cfg)) 1) md (Some h0)"
  using assms by (auto simp: hot_new_def Let_def bind_eq_Some_conv hot_state_wf_def hot_wf_def)

text \<open>
  The decision task never panics: from construction on, through any interleaving of book and
  ticker messages, order events that name slots of the ladder, reconcile snapshots, disconnects
  and arbitrary writes of the shared cells by other tasks, every message is handled to the end
  and the order manager stays well formed with the configured number of levels. In dry-run mode
  nothing but empty batches is ever published.
\<close>

theorem hot_task_never_panics:
  assumes "hot_new t0 market cfg base sa sp der notify md = Some h0"
    and "admitted (hot_step_ok (max (levels_per_side (cfg_trading cfg)) 1)) (hot_step_fun fp) (Some h0) es"
  shows "\<exists>h. foldl (hot_step_fun fp) (Some h0) es = Some h \<and> om_wf (h_om h) \<and>
    num_levels (h_om h) = max (levels_per_side (cfg_trading cfg)) 1 \<and> (md = DryRun \<longrightarrow> set (h_ops h) \<subseteq> {[]})"
  using hot.run_inv [OF hot_new_wf [OF assms(1)] assms(2)]
  by (auto simp: hot_state_wf_def hot_wf_def split: option.splits)

definition sample_market :: market_config where
  "sample_market = \<lparr>market_id = 1, mc_symbol = ''BTC'', price_tick = 1, amount_tick = 1, min_base_amount = 1,
     min_quote_amount = 1, price_decimals = 0, size_decimals = 0\<rparr>"

definition sample_snapshot :: order_book_msg where
  "sample_snapshot = \<lparr>msg_type = ''subscribed/order_book'', obm_offset = None, obm_nonce = Some 5, obm_begin_nonce = None,
     order_book = \<lparr>pl_bids = [(99, 1)], pl_asks = [(101, 1)], pl_offset = None, pl_nonce = None, pl_begin_nonce = None\<rparr>\<rparr>"

definition sample_hot :: "mode \<Rightarrow> hot_task" where
  "sample_hot md = the (hot_new 0 sample_market sample_config 1 (alpha_new 1) position_new derived_new None md)"

lemma sample_hot_new: "hot_new 0 sample_market sample_config 1 (alpha_new 1) position_new derived_new None md = Some (sample_hot md)"
  by (simp add: sample_hot_def hot_new_def calculator_new_def rolling_new_def sample_market_def sample_config_def
      default_config_def default_trading_def default_vol_obi_cfg_def Let_def)

theorem hot_task_never_panics_witness:
  "\<exists>h. foldl (hot_step_fun (\<lambda>_. None)) (Some (sample_hot DryRun))
      [Disconnected, Book_Message sample_snapshot 0 1, Order_Event (ClearLive Sell 1 7), Book_Message sample_snapshot 9 2] = Some h \<and>
    om_wf (h_om h) \<and> set (h_ops h) \<subseteq> {[]}"
proof -
  have "levels_per_side (cfg_trading sample_config) = 2" by (simp add: sample_config_def)
  then have "admitted (hot_step_ok (max (levels_per_side (cfg_trading sample_config)) 1)) (hot_step_fun (\<lambda>_. None)) (Some (sample_hot DryRun))
      [Disconnected, Book_Message sample_snapshot 0 1, Order_Event (ClearLive Sell 1 7), Book_Message sample_snapshot 9 2]"
    by (simp add: hot_step_ok_def event_fits_def)
  from hot_task_never_panics [OF sample_hot_new this] show ?thesis by blast
qed

text \<open>
  C10. No order leaves untracked. A message publishes at most one batch, never one with
  operations outside live mode; when it does, every operation's slot already holds that
  operation's order, so that a later cycle cannot create it again, and the client id of every
  create and modify has been published to the reconcile poller, so that it is not an orphan.
\<close>

theorem published_orders_tracked:
  assumes "hot_wf h" and "on_orderbook fp h msg t ms = Some h'" and "h_ops h' \<noteq> h_ops h"
  shows "\<exists>ops. h_ops h' = h_ops h @ [ops] \<and> (ops \<noteq> [] \<longrightarrow> h_mode h = Live_Mode) \<and>
    (\<forall>op \<in> set ops. op_level op < h_num_levels h \<and>
       order_id (slot (h_om h') (op_side op) (op_level op)) = Some (op_client_order_id op) \<and>
       (op_action op \<noteq> Cancel \<longrightarrow> op_client_order_id op \<in> set (h_tracked_ids h')))"
  using on_orderbook_spec [OF assms(1), of fp msg t ms] assms(2,3)
  by (auto simp: batch_promise_def order_kept_def)

text \<open>
  C9. Live quotes are gated and passive. An operation other than a cancel is only published
  when capital is positive and the position feed has delivered; with a positive tick, spread and
  spread factors and a positive mid it never reaches the mid (bids below it, asks above it); and
  until the signal has warmed up and the start-up period has passed it only reduces the position.
\<close>

theorem live_quotes_gated_and_passive:
  assumes "hot_wf h" and "on_orderbook fp h msg t ms = Some h'" and "h_ops h' = h_ops h @ [ops]"
    and "op \<in> set ops" and "op_action op \<noteq> Cancel"
  shows "h_mode h = Live_Mode \<and> 0 < d_available_capital (h_derived h') \<and> position_age_ms (h_shared_pos h') ms \<noteq> U64_MAX \<and>
    (0 < tick_size (h_calc h) \<and> 0 < min_half_spread_bps (h_calc h) \<and> (\<forall>g \<in> set (h_factors h). 0 < g) \<and> 0 < h_mid h' \<longrightarrow>
       (case op_side op of Buy \<Rightarrow> op_price op < h_mid h' | Sell \<Rightarrow> h_mid h' < op_price op)) \<and>
    (not_ready h' t \<longrightarrow> (case op_side op of Buy \<Rightarrow> quoted_position h' < 0 | Sell \<Rightarrow> 0 < quoted_position h'))"
proof -
  from on_orderbook_spec [OF assms(1), of fp msg t ms] assms(2-4)
  have b: "batch_promise h' t ms ops" "calc_ok (h_calc h') = calc_ok (h_calc h)" "factors_positive h' = factors_positive h"
    "h_mode h' = h_mode h" by auto
  then have "quote_safe h' t op" "\<not> feeds_missing h' ms" "h_mode h = Live_Mode" using assms(4,5) by (auto simp: batch_promise_def)
  with b show ?thesis by (simp add: quote_safe_def feeds_missing_def calc_ok_def factors_positive_def)
qed

text \<open>A live task still warming up that holds a position of two quotes a reduce-only exit.\<close>

definition holding_hot :: hot_task where
  "holding_hot = (sample_hot Live_Mode)\<lparr>h_shared_pos := \<lparr>sp_position = 2, sp_last_update_ms = 1\<rparr>,
     h_derived := derived_new\<lparr>d_available_capital := 1000\<rparr>\<rparr>"

definition exit_op :: batch_op where
  "exit_op = \<lparr>op_side = Sell, op_level = 0, op_action = Create, op_price = 101, op_size = 2,
     op_client_order_id = 1000000, op_exchange_id = None, op_reduce_only = True\<rparr>"

lemmas sample_defs = sample_hot_def hot_new_def calculator_new_def rolling_new_def sample_market_def sample_config_def
  default_config_def default_trading_def default_vol_obi_cfg_def default_performance_def default_safety_def

lemma holding_wf: "hot_wf holding_hot"
  using hot_new_wf [OF sample_hot_new, of Live_Mode] by (auto simp: holding_hot_def hot_state_wf_def hot_wf_def)

lemma holding_fields:
  "h_reset_flag holding_hot = False" "h_book holding_hot = book_new" "h_mode holding_hot = Live_Mode" "h_ticker_bbo holding_hot = None"
  "h_om holding_hot = manager_new 0 2 1" "h_events holding_hot = []" "h_reconcile_swap holding_hot = None"
  "h_last_quote holding_hot = None" "h_cadence_start holding_hot = None" "h_loop_start holding_hot = None"
  "h_market holding_hot = sample_market" "h_num_levels holding_hot = 2" "h_position_dust_usd holding_hot = 0"
  "h_fallback_bps holding_hot = 2" "h_ops holding_hot = []" "h_last_seen_position holding_hot = None"
  "h_position_hold_until holding_hot = None" "h_capital_usage_percent holding_hot = 1 / 10" "h_leverage holding_hot = 5"
  "h_min_order_value_usd holding_hot = 0" "h_last_tracked holding_hot = []" "h_quote_threshold_bps holding_hot = 0"
  "h_shared_pos holding_hot = \<lparr>sp_position = 2, sp_last_update_ms = 1\<rparr>" "h_sanity_bps holding_hot = 50"
  "d_available_capital (h_derived holding_hot) = 1000"
  by (simp_all add: holding_hot_def sample_defs Let_def numeral_2_eq_2)

lemma holding_book: "book_mid (apply_snapshot book_new [(99, 1)] [(101, 1)]) = Some 100"
  by (simp add: book_mid_def best_bid_def best_ask_def highest_def lowest_def apply_snapshot_def side_apply_snapshot_def)

lemma holding_levels:
  "fallback_reduce_only 100 2 1 2 2 = Some [(None, Some 101), (None, None)]"
  by (simp add: fallback_reduce_only_def EPSILON_def min_quote_depth_def ceil_tick_def Let_def numeral_2_eq_2)

lemma holding_ops:
  "collect_order_operations (manager_new 0 2 1) [(None, Some 101), (None, None)] 2 2 thr 1000000 False =
     Some ([exit_op], (manager_new 0 2 1)\<lparr>last_client_order_index := 1000000\<rparr>)"
  by (simp add: collect_order_operations_def collect_slot_def slot_def side_slots_def manager_new_def idle_slot_def
      next_client_order_index_def MAX_CLIENT_ORDER_INDEX_def is_reducing_side_def EPSILON_def exit_op_def numeral_2_eq_2 Let_def)

lemma book_mid_meta [simp]: "book_mid (b\<lparr>last_offset := x\<rparr>) = book_mid b" "book_mid (b\<lparr>last_nonce := y\<rparr>) = book_mid b"
  by (simp_all add: book_mid_def best_bid_def best_ask_def)

lemma sample_snapshot_fields:
  "is_snapshot sample_snapshot" "pl_bids (order_book sample_snapshot) = [(99, 1)]" "pl_asks (order_book sample_snapshot) = [(101, 1)]"
  by (code_simp, simp_all add: sample_snapshot_def)

lemma initialized_new: "initialized book_new = False" by (simp add: book_new_def)

lemma holding_sizes:
  "normalize_live_order_size 5 100 1 1 1 = 5" "normalize_live_order_size 2 100 1 1 1 = 2"
  by (simp_all add: normalize_live_order_size_def EPSILON_def)

lemma exit_slot: "\<not> length (side_slots (manager_new 0 2 1) (op_side exit_op)) \<le> op_level exit_op"
  by (simp add: exit_op_def side_slots_def manager_new_def)

lemma holding_run:
  "\<exists>h'. on_orderbook (\<lambda>_. None) holding_hot sample_snapshot 0 1 = Some h' \<and> h_ops h' = [[exit_op]]"
  by (simp add: on_orderbook_def judge_def take_reset_def update_book_def book_sanity_diverged_def holding_fields
        sample_snapshot_fields holding_book initialized_new maybe_quote_def drain_def count_cadence_def throttled_def
        feeds_missing_def position_age_ms_def U64_MAX_def quote_cycle_def hold_quotes_for_position_reconcile_def
        quoted_position_def order_size_def normalized_def min_quote_def sample_market_def max_position_def
        plan_levels_def not_ready_def holding_levels holding_ops holding_sizes emit_batch_def mark_pending_def publish_def publish_tracked_def
        set_md_now_def set_mid_def EPSILON_def Let_def exit_slot)

theorem published_orders_tracked_witness:
  "\<exists>h'. on_orderbook (\<lambda>_. None) holding_hot sample_snapshot 0 1 = Some h' \<and> h_ops h' = [[exit_op]] \<and>
     order_id (slot (h_om h') Sell 0) = Some 1000000 \<and> 1000000 \<in> set (h_tracked_ids h')"
proof -
  obtain h' where h': "on_orderbook (\<lambda>_. None) holding_hot sample_snapshot 0 1 = Some h'" "h_ops h' = [[exit_op]]"
    using holding_run by blast
  then have "h_ops h' \<noteq> h_ops holding_hot" by (simp add: holding_fields)
  from published_orders_tracked [OF holding_wf h'(1) this] h' show ?thesis by (auto simp: holding_fields exit_op_def)
qed

theorem live_quotes_gated_and_passive_witness:
  "\<exists>h'. on_orderbook (\<lambda>_. None) holding_hot sample_snapshot 0 1 = Some h' \<and> h_ops h' = [[exit_op]] \<and>
     0 < d_available_capital (h_derived h') \<and> position_age_ms (h_shared_pos h') 1 \<noteq> U64_MAX"
proof -
  obtain h' where h': "on_orderbook (\<lambda>_. None) holding_hot sample_snapshot 0 1 = Some h'" "h_ops h' = [[exit_op]]"
    using holding_run by blast
  then have "h_ops h' = h_ops holding_hot @ [[exit_op]]" "op_action exit_op \<noteq> Cancel"
    by (simp_all add: holding_fields exit_op_def)
  from live_quotes_gated_and_passive [OF holding_wf h'(1) this(1) _ this(2)] h' show ?thesis by auto
qed

section \<open>Gaps\<close>

fun feed_messages :: "(string \<Rightarrow> f64 option) \<Rightarrow> hot_task \<Rightarrow> (order_book_msg \<times> instant \<times> nat) list \<Rightarrow> hot_task option" where
  "feed_messages fp h [] = Some h"
| "feed_messages fp h ((msg, t, ms) # ms') = do { h' \<leftarrow> on_orderbook fp h msg t ms; feed_messages fp h' ms' }"

lemma awaiting_ignores_deltas:
  "h_awaiting_resnapshot h \<Longrightarrow> \<not> h_reset_flag h \<Longrightarrow> \<forall>(msg, _) \<in> set msgs. \<not> is_snapshot msg \<Longrightarrow> feed_messages fp h msgs = Some h"
  by (induction msgs) (auto simp: on_orderbook_def take_reset_def judge_def)

text \<open>
  C13. A book with a gap prices nothing. A delta whose begin nonce is not the book's last nonce
  leaves the book, the signal and the orders untouched, withdraws any batch not yet taken from
  the mailbox, asks for a reconnect, and makes the task ignore every further delta, however
  many come, until a snapshot arrives or the connection is reset.
\<close>

theorem nonce_gap_stops_quoting:
  assumes "\<not> is_snapshot msg" and "\<not> h_reset_flag h" and "\<not> h_awaiting_resnapshot h" and "initialized (h_book h)"
    and "effective_begin_nonce msg = Some bn" and "last_nonce (h_book h) = Some lst" and "bn \<noteq> lst"
    and "case (effective_offset msg, last_offset (h_book h)) of (Some off, Some o0) \<Rightarrow> o0 < off | _ \<Rightarrow> True"
    and "\<forall>(m, _) \<in> set msgs. \<not> is_snapshot m"
  shows "feed_messages fp h ((msg, t, ms) # msgs) =
    Some (h\<lparr>h_awaiting_resnapshot := True, h_sanity_streak := 0, h_md_reconnect := h_md_reconnect h + 1,
            h_ops := h_ops h @ [[]]\<rparr>)"
proof -
  have "judge h msg = Gap" using assms by (auto simp: judge_def split: option.splits)
  then have "on_orderbook fp h msg t ms = Some (request_resnapshot h)"
    using assms(1,2) by (simp add: on_orderbook_def take_reset_def)
  moreover have "feed_messages fp (request_resnapshot h) msgs = Some (request_resnapshot h)"
    using assms by (intro awaiting_ignores_deltas) (simp_all add: request_resnapshot_def publish_def)
  ultimately show ?thesis by (simp add: request_resnapshot_def publish_def)
qed

theorem nonce_gap_stops_quoting_witness:
  "let h = holding_hot\<lparr>h_book := book_new\<lparr>initialized := True, last_nonce := Some 5\<rparr>\<rparr>;
       delta = sample_snapshot\<lparr>msg_type := ''update/order_book'', obm_begin_nonce := Some 8\<rparr>
   in \<exists>h'. feed_messages (\<lambda>_. None) h [(delta, 0, 1), (delta, 1, 2)] = Some h' \<and> h_awaiting_resnapshot h' \<and> h_book h' = h_book h"
proof -
  let ?h = "holding_hot\<lparr>h_book := book_new\<lparr>initialized := True, last_nonce := Some 5\<rparr>\<rparr>"
  let ?d = "sample_snapshot\<lparr>msg_type := ''update/order_book'', obm_begin_nonce := Some 8\<rparr>"
  have d: "\<not> is_snapshot ?d" by code_simp
  have m: "\<forall>(m, _) \<in> set [(?d, 1, 2)]. \<not> is_snapshot m" using d by simp
  have w: "\<not> h_awaiting_resnapshot ?h" "\<not> h_reset_flag ?h" by (simp_all add: holding_hot_def sample_defs Let_def)
  have "feed_messages (\<lambda>_. None) ?h [(?d, 0, 1), (?d, 1, 2)] = Some (?h\<lparr>h_awaiting_resnapshot := True, h_sanity_streak := 0,
      h_md_reconnect := h_md_reconnect ?h + 1, h_ops := h_ops ?h @ [[]]\<rparr>)"
    by (rule nonce_gap_stops_quoting [OF d w(2,1) _ _ _ _ _ m, where bn = 8 and lst = 5])
      (simp_all add: effective_begin_nonce_def effective_offset_def sample_snapshot_def book_new_def)
  then show ?thesis by (simp add: Let_def)
qed

end
