(* ===== verification/Risk.thy ===== *)
theory Risk
  imports Prelude
begin

text \<open>
  \<^verbatim>\<open>src/src/risk.rs\<close>: the circuit breaker. The controller lives behind a mutex, so its
  methods are state transformers; the clock reading of a method is an argument. The rejection
  and mismatch counters are 32-bit words, as the release build computes them.
\<close>

section \<open>Definitions\<close>

record risk_controller =
  max_consecutive_order_rejections :: u32
  circuit_breaker_cooldown_sec :: f64
  consecutive_rejections :: u32
  paused_until :: "instant option"
  pause_reason :: string
  last_reconcile_ok :: bool
  last_reconcile_reason :: string
  last_reconcile_time :: "instant option"
  mismatch_streak :: u32
  pause_cancel_done :: bool

definition risk_new :: "u32 \<Rightarrow> f64 \<Rightarrow> risk_controller" where
  "risk_new threshold cooldown =
     \<lparr>max_consecutive_order_rejections = threshold, circuit_breaker_cooldown_sec = cooldown,
      consecutive_rejections = 0, paused_until = None, pause_reason = [], last_reconcile_ok = True,
      last_reconcile_reason = [], last_reconcile_time = None, mismatch_streak = 0,
      pause_cancel_done = False\<rparr>"

definition record_success :: "risk_controller \<Rightarrow> risk_controller" where
  "record_success r = r\<lparr>consecutive_rejections := 0\<rparr>"

definition trigger_pause :: "risk_controller \<Rightarrow> instant \<Rightarrow> string \<Rightarrow> risk_controller" where
  "trigger_pause r now reason =
     (let cooldown = max (circuit_breaker_cooldown_sec r) 0;
          until = now + from_secs_f64 cooldown;
          p = (case paused_until r of
                 Some prev \<Rightarrow> if until \<le> prev then Some prev else Some until
               | None \<Rightarrow> Some until)
      in r\<lparr>paused_until := p, pause_reason := reason, pause_cancel_done := False\<rparr>)"

text \<open>Decimal rendering of a number, as \<open>format!\<close> prints it.\<close>

fun show_nat :: "nat \<Rightarrow> string" where
  "show_nat n = (if n < 10 then [char_of (48 + n)] else show_nat (n div 10) @ [char_of (48 + n mod 10)])"

declare show_nat.simps [simp del]

definition record_rejection :: "risk_controller \<Rightarrow> instant \<Rightarrow> string \<Rightarrow> risk_controller" where
  "record_rejection r now reason =
     (let r1 = r\<lparr>consecutive_rejections := consecutive_rejections r + 1\<rparr>;
          threshold = max_consecutive_order_rejections r1
      in if 0 < threshold \<and> threshold \<le> consecutive_rejections r1
         then trigger_pause r1 now
                (''circuit_breaker: '' @ show_nat (unat (consecutive_rejections r1)) @
                 '' consecutive rejections ('' @ reason @ '')'')
         else r1)"

definition is_paused :: "risk_controller \<Rightarrow> instant \<Rightarrow> bool" where
  "is_paused r now = (case paused_until r of Some until \<Rightarrow> now < until | None \<Rightarrow> False)"

definition maybe_recover :: "risk_controller \<Rightarrow> instant \<Rightarrow> bool \<Rightarrow> bool \<times> risk_controller" where
  "maybe_recover r now websocket_healthy =
     (if is_paused r now then (False, r)
      else if paused_until r = None then (True, r)
      else if \<not> last_reconcile_ok r \<or> \<not> websocket_healthy then (False, r)
      else (True, r\<lparr>paused_until := None, pause_reason := [], consecutive_rejections := 0,
                    pause_cancel_done := False\<rparr>))"

definition mark_reconcile :: "risk_controller \<Rightarrow> instant \<Rightarrow> bool \<Rightarrow> string \<Rightarrow> risk_controller" where
  "mark_reconcile r now ok reason =
     r\<lparr>last_reconcile_ok := ok, last_reconcile_reason := reason, last_reconcile_time := Some now,
       mismatch_streak := (if ok then 0 else mismatch_streak r + 1)\<rparr>"

definition set_pause_cancel_done :: "risk_controller \<Rightarrow> bool \<Rightarrow> risk_controller" where
  "set_pause_cancel_done r v = r\<lparr>pause_cancel_done := v\<rparr>"

section \<open>Everything that can happen to the controller\<close>

datatype risk_event =
    Success
  | Rejection instant string
  | Pause instant string
  | Recover instant bool
  | Reconciled instant bool string
  | Cancel_Done bool

fun risk_step :: "risk_controller \<Rightarrow> risk_event \<Rightarrow> risk_controller" where
  "risk_step r Success = record_success r"
| "risk_step r (Rejection now reason) = record_rejection r now reason"
| "risk_step r (Pause now reason) = trigger_pause r now reason"
| "risk_step r (Recover now ws) = snd (maybe_recover r now ws)"
| "risk_step r (Reconciled now ok reason) = mark_reconcile r now ok reason"
| "risk_step r (Cancel_Done v) = set_pause_cancel_done r v"

text \<open>A recovery attempt that is refused; every other event.\<close>

definition no_recovery :: "risk_controller \<Rightarrow> risk_event \<Rightarrow> bool" where
  "no_recovery r e = (case e of Recover now ws \<Rightarrow> \<not> fst (maybe_recover r now ws) | _ \<Rightarrow> True)"

definition armed :: "instant \<Rightarrow> risk_controller \<Rightarrow> bool" where
  "armed d r = (case paused_until r of None \<Rightarrow> False | Some u \<Rightarrow> d \<le> u)"

lemma armed_trigger [inv_intros]: "armed d r \<Longrightarrow> armed d (trigger_pause r now reason)"
  by (auto simp: armed_def trigger_pause_def Let_def split: option.splits)

lemma armed_frame [simp]:
  "armed d (r\<lparr>consecutive_rejections := n\<rparr>) = armed d r" by (simp add: armed_def)

interpretation risk: step_system risk_step no_recovery "armed d" for d
proof
  fix r e
  assume a: "armed d r" and "no_recovery r e"
  then show "armed d (risk_step r e)"
  proof (cases e)
    case (Rejection now reason)
    then show ?thesis using a armed_trigger by (simp add: record_rejection_def Let_def)
  next
    case (Pause now reason)
    then show ?thesis using a armed_trigger by simp
  next
    case (Recover now ws)
    then have "snd (maybe_recover r now ws) = r" using \<open>no_recovery r e\<close>
      by (auto simp: no_recovery_def maybe_recover_def)
    then show ?thesis using a Recover by simp
  qed (auto simp: record_success_def mark_reconcile_def set_pause_cancel_done_def armed_def)
qed

text \<open>
  C33. A pause holds: after a pause armed at \<open>t\<close>, through any rejections, successes, further
  pauses, reconcile outcomes and refused recoveries, trading may proceed again at \<open>u\<close> only
  when the full cooldown has passed since \<open>t\<close>, the last reconcile succeeded and the websocket
  is healthy; until then the controller reports it is paused whenever the deadline is ahead.
\<close>

theorem pause_holds_until_safe:
  assumes "0 \<le> circuit_breaker_cooldown_sec r"
    and "admitted no_recovery risk_step (trigger_pause r t reason) es"
    and "r' = foldl risk_step (trigger_pause r t reason) es"
  shows "(fst (maybe_recover r' u ws) \<longrightarrow>
      t + from_secs_f64 (circuit_breaker_cooldown_sec r) \<le> u \<and> last_reconcile_ok r' \<and> ws) \<and>
    (u < t + from_secs_f64 (circuit_breaker_cooldown_sec r) \<longrightarrow> is_paused r' u)"
proof -
  let ?d = "t + from_secs_f64 (circuit_breaker_cooldown_sec r)"
  have "armed ?d (trigger_pause r t reason)"
    using assms(1) by (auto simp: armed_def trigger_pause_def Let_def max_absorb1 split: option.splits)
  then have "armed ?d r'" unfolding assms(3) using assms(2) by (rule risk.run_inv)
  then show ?thesis
    by (auto simp: armed_def maybe_recover_def is_paused_def split: option.splits if_splits)
qed

theorem pause_holds_until_safe_witness:
  "is_paused (foldl risk_step (trigger_pause (risk_new 3 60) 0 ''x'') [Recover 5 True, Success, Rejection 9 ''y'']) 59"
proof -
  have "admitted no_recovery risk_step (trigger_pause (risk_new 3 60) 0 ''x'') [Recover 5 True, Success, Rejection 9 ''y'']"
    by (simp add: no_recovery_def maybe_recover_def is_paused_def trigger_pause_def risk_new_def)
  from pause_holds_until_safe [OF _ this refl, of 59 True] show ?thesis by (simp add: risk_new_def)
qed

section \<open>The breaker\<close>

definition rejections :: "risk_controller \<Rightarrow> (instant \<times> string) list \<Rightarrow> risk_controller" where
  "rejections r ts = foldl (\<lambda>r (t, m). record_rejection r t m) r ts"

lemma record_rejection_frame [simp, frame_simps]:
  "max_consecutive_order_rejections (record_rejection r t m) = max_consecutive_order_rejections r"
  "circuit_breaker_cooldown_sec (record_rejection r t m) = circuit_breaker_cooldown_sec r"
  "consecutive_rejections (record_rejection r t m) = consecutive_rejections r + 1"
  by (simp_all add: record_rejection_def trigger_pause_def Let_def)

lemma rejections_below:
  assumes "unat (consecutive_rejections r) + length ts < unat (max_consecutive_order_rejections r) \<or>
    max_consecutive_order_rejections r = 0"
  shows "paused_until (rejections r ts) = paused_until r \<and>
    consecutive_rejections (rejections r ts) = consecutive_rejections r + of_nat (length ts) \<and>
    max_consecutive_order_rejections (rejections r ts) = max_consecutive_order_rejections r \<and>
    circuit_breaker_cooldown_sec (rejections r ts) = circuit_breaker_cooldown_sec r"
  using assms
proof (induction ts arbitrary: r)
  case (Cons tm ts)
  obtain t m where tm: "tm = (t, m)" by (cases tm)
  let ?r = "record_rejection r t m"
  have room: "unat (consecutive_rejections r + 1) = unat (consecutive_rejections r) + 1"
    if "unat (consecutive_rejections r) + 1 < unat (max_consecutive_order_rejections r)"
    using that unat_plus_one_below [of "consecutive_rejections r" "max_consecutive_order_rejections r"] by simp
  have "paused_until ?r = paused_until r"
    using Cons.prems room by (auto simp: record_rejection_def Let_def word_le_nat_alt word_less_nat_alt)
  moreover have "unat (consecutive_rejections ?r) + length ts < unat (max_consecutive_order_rejections ?r) \<or>
      max_consecutive_order_rejections ?r = 0"
    using Cons.prems room by auto
  ultimately show ?case using Cons.IH [of ?r] by (simp add: rejections_def tm add.assoc)
qed (simp add: rejections_def)

text \<open>
  The breaker trips exactly at its threshold: fewer rejections than the threshold since the
  last success leave the pause untouched, the rejection that reaches it pauses trading for the
  cooldown, and a zero threshold disables it altogether.
\<close>

theorem breaker_trips_at_threshold:
  assumes cd: "0 \<le> circuit_breaker_cooldown_sec r"
  shows "(length ts < unat (max_consecutive_order_rejections r) \<or> max_consecutive_order_rejections r = 0 \<longrightarrow>
      paused_until (rejections (record_success r) ts) = paused_until r) \<and>
    (Suc (length ts) = unat (max_consecutive_order_rejections r) \<and>
       now < t + from_secs_f64 (circuit_breaker_cooldown_sec r) \<longrightarrow>
     is_paused (rejections (record_success r) (ts @ [(t, m)])) now)"
proof -
  let ?r = "record_success r"
  have z: "consecutive_rejections ?r = 0" "max_consecutive_order_rejections ?r = max_consecutive_order_rejections r"
    "circuit_breaker_cooldown_sec ?r = circuit_breaker_cooldown_sec r" "paused_until ?r = paused_until r"
    by (simp_all add: record_success_def)
  note b = rejections_below [of ?r ts, unfolded z]
  have "is_paused (rejections ?r (ts @ [(t, m)])) now"
    if n: "Suc (length ts) = unat (max_consecutive_order_rejections r)"
      and now: "now < t + from_secs_f64 (circuit_breaker_cooldown_sec r)"
  proof -
    let ?s = "rejections ?r ts"
    have s: "consecutive_rejections ?s = of_nat (length ts)"
      "max_consecutive_order_rejections ?s = max_consecutive_order_rejections r"
      "circuit_breaker_cooldown_sec ?s = circuit_breaker_cooldown_sec r" using b n by auto
    have "max_consecutive_order_rejections r = of_nat (Suc (length ts))" unfolding n by simp
    then have eq: "consecutive_rejections ?s + 1 = max_consecutive_order_rejections r" using s by (simp add: add.commute)
    have pos: "0 < max_consecutive_order_rejections r" using n by (metis unat_eq_0 word_gt_0 nat.discI)
    show ?thesis
      using eq pos s now cd
      by (auto simp: rejections_def record_rejection_def trigger_pause_def is_paused_def Let_def max_absorb1
          split: option.splits)
  qed
  with b show ?thesis by (auto simp: z)
qed

theorem breaker_trips_at_threshold_witness:
  "is_paused (rejections (record_success (risk_new 3 60)) [(1, ''a''), (2, ''b''), (3, ''c'')]) 4 \<and>
   paused_until (rejections (record_success (risk_new 3 60)) [(1, ''a''), (2, ''b'')]) = None"
  using breaker_trips_at_threshold [of "risk_new 3 60" "[(1, ''a''), (2, ''b'')]" 4 3 "''c''"]
  by (simp add: risk_new_def)

end
