(* ===== verification/Signing.thy ===== *)
theory Signing
  imports Util
begin

text \<open>
  \<^verbatim>\<open>src/src/lighter/nonce.rs\<close> and \<^verbatim>\<open>src/src/exec/signing.rs\<close>: the optimistic nonce counter
  and the signing of a batch. The counter is an \<open>AtomicI64\<close>, here a 64-bit word: its
  operations are serialised by the sender's mutex, so they are state transformers. The native
  signer and the REST client are parameters: functions from a request to a result.
\<close>

section \<open>The nonce manager\<close>

record nonce_manager =
  nm_account_index :: i64w
  nm_api_key_index :: "32 word"
  nonce :: i64w

type_synonym next_nonce_api = "i64w \<Rightarrow> 32 word \<Rightarrow> i64w option"

definition nonce_init :: "next_nonce_api \<Rightarrow> i64w \<Rightarrow> 32 word \<Rightarrow> nonce_manager option" where
  "nonce_init rest account key =
     (case rest account key of
        None \<Rightarrow> None
      | Some n \<Rightarrow> Some \<lparr>nm_account_index = account, nm_api_key_index = key, nonce = n - 1\<rparr>)"

definition next_nonce :: "nonce_manager \<Rightarrow> i64w \<times> nonce_manager" where
  "next_nonce nm = (let old = nonce nm in (old + 1, nm\<lparr>nonce := old + 1\<rparr>))"

definition acknowledge_failure :: "nonce_manager \<Rightarrow> nonce_manager" where
  "acknowledge_failure nm = nm\<lparr>nonce := nonce nm - 1\<rparr>"

definition rollback :: "nonce_manager \<Rightarrow> nat \<Rightarrow> nonce_manager" where
  "rollback nm n = (if 0 < n then nm\<lparr>nonce := nonce nm - of_nat n\<rparr> else nm)"

text \<open>The flag is the result of the call: an error leaves the counter as it was.\<close>

definition hard_refresh :: "next_nonce_api \<Rightarrow> nonce_manager \<Rightarrow> bool \<times> nonce_manager" where
  "hard_refresh rest nm =
     (case rest (nm_account_index nm) (nm_api_key_index nm) of
        None \<Rightarrow> (False, nm)
      | Some n \<Rightarrow> (True, nm\<lparr>nonce := n - 1\<rparr>))"

section \<open>Signing a batch\<close>

record signed_tx =
  st_type :: "8 word"
  st_info :: string

datatype sign_request =
    Sign_Create "32 word" int int "32 word" bool "32 word" "32 word" bool "32 word" int i64w "32 word"
      \<comment> \<open>market, client id, amount, price, ask, order type, time in force, reduce only, trigger, expiry, nonce, key\<close>
  | Sign_Modify "32 word" int int int int i64w "32 word"
  | Sign_Cancel "32 word" int i64w "32 word"

type_synonym signer = "sign_request \<Rightarrow> string + signed_tx"

definition ORDER_TYPE_LIMIT :: "32 word" where "ORDER_TYPE_LIMIT = 0"
definition TIF_POST_ONLY :: "32 word" where "TIF_POST_ONLY = 2"

datatype sign_error =
    Price_Out_Of_Range int
  | Missing_Exchange_Id order_action int
  | Sign_Failed order_action string

record signed_batch =
  sb_tx_types :: "8 word list"
  sb_tx_infos :: "string list"
  sb_ops :: "batch_op list"

text \<open>The request built for one operation with its reserved nonce.\<close>

definition sign_request_of :: "market_config \<Rightarrow> 32 word \<Rightarrow> i64w \<Rightarrow> batch_op \<Rightarrow> sign_error + sign_request" where
  "sign_request_of market aki n op =
     (case op_action op of
        Create \<Rightarrow>
          let price_raw = to_raw (op_price op) (price_tick market)
          in if \<not> (0 \<le> price_raw \<and> price_raw \<le> u32_max) then Inl (Price_Out_Of_Range price_raw)
             else let amount_raw = to_raw (op_size op) (amount_tick market)
                  in Inr (Sign_Create (market_id market) (op_client_order_id op) amount_raw
                            (word_of_int price_raw) (is_ask (op_side op)) ORDER_TYPE_LIMIT TIF_POST_ONLY
                            (op_reduce_only op) 0 (- 1) n aki)
      | Modify \<Rightarrow>
          (case op_exchange_id op of
             None \<Rightarrow> Inl (Missing_Exchange_Id Modify (op_client_order_id op))
           | Some e \<Rightarrow> Inr (Sign_Modify (market_id market) e (to_raw (op_size op) (amount_tick market))
                              (to_raw (op_price op) (price_tick market)) 0 n aki))
      | Cancel \<Rightarrow>
          (case op_exchange_id op of
             None \<Rightarrow> Inl (Missing_Exchange_Id Cancel (op_client_order_id op))
           | Some e \<Rightarrow> Inr (Sign_Cancel (market_id market) e n aki)))"

text \<open>The loop, with the number of nonces reserved so far; an abort rolls all of them back.\<close>

fun sign_loop ::
  "signer \<Rightarrow> market_config \<Rightarrow> nonce_manager \<Rightarrow> nat \<Rightarrow> signed_batch \<Rightarrow> batch_op list
   \<Rightarrow> (sign_error + signed_batch) \<times> nonce_manager" where
  "sign_loop sg market nm reserved acc [] = (Inr acc, nm)"
| "sign_loop sg market nm reserved acc (op # ops) =
     (let (n, nm1) = next_nonce nm;
          reserved1 = reserved + 1;
          undo = (acknowledge_failure ^^ reserved1) nm1
      in case sign_request_of market (nm_api_key_index nm) n op of
           Inl err \<Rightarrow> (Inl err, undo)
         | Inr req \<Rightarrow>
             (case sg req of
                Inl e \<Rightarrow> (Inl (Sign_Failed (op_action op) e), undo)
              | Inr tx \<Rightarrow>
                  sign_loop sg market nm1 reserved1
                    (acc\<lparr>sb_tx_types := sb_tx_types acc @ [st_type tx],
                         sb_tx_infos := sb_tx_infos acc @ [st_info tx],
                         sb_ops := sb_ops acc @ [op]\<rparr>) ops))"

definition sign_batch ::
  "signer \<Rightarrow> nonce_manager \<Rightarrow> market_config \<Rightarrow> batch_op list \<Rightarrow> (sign_error + signed_batch) \<times> nonce_manager" where
  "sign_batch sg nm market ops =
     sign_loop sg market nm 0 \<lparr>sb_tx_types = [], sb_tx_infos = [], sb_ops = []\<rparr> ops"

section \<open>The nonce counter\<close>

lemma ack_pow: "(acknowledge_failure ^^ k) nm = nm\<lparr>nonce := nonce nm - of_nat k\<rparr>"
  by (induction k) (simp_all add: acknowledge_failure_def algebra_simps)

text \<open>
  The contract of a reservation counter, as the sender uses it: a rollback of what was reserved
  restores the counter, a refresh makes the next reservation the number the exchange expects.
\<close>

locale reservations =
  fixes reserve :: "'s \<Rightarrow> 'n \<times> 's" and undo :: "'s \<Rightarrow> nat \<Rightarrow> 's"
  assumes undo_zero: "undo s 0 = s"
    and undo_reserve: "undo (snd (reserve s)) (Suc k) = undo s k"
begin

fun reserve_many :: "nat \<Rightarrow> 's \<Rightarrow> 's" where
  "reserve_many 0 s = s"
| "reserve_many (Suc k) s = reserve_many k (snd (reserve s))"

lemma undo_reserve_many: "undo (reserve_many k s) k = s"
proof -
  have "undo (reserve_many k s) (k + j) = undo s j" for j
  proof (induction k arbitrary: s j)
    case (Suc k)
    have "undo (reserve_many k (snd (reserve s))) (k + Suc j) = undo (snd (reserve s)) (Suc j)" by (rule Suc)
    then show ?case by (simp add: undo_reserve)
  qed simp
  from this [of 0] show ?thesis by (simp add: undo_zero)
qed

end

interpretation nonces: reservations next_nonce rollback
  by unfold_locales (auto simp: next_nonce_def rollback_def Let_def)

lemma nonce_after_reserve_many: "nonces.reserve_many k nm = nm\<lparr>nonce := nonce nm + of_nat k\<rparr>"
  by (induction k arbitrary: nm) (simp_all add: next_nonce_def Let_def algebra_simps)

section \<open>Correctness of signing\<close>

text \<open>What signing operation \<open>i\<close> of a batch means.\<close>

definition signed_as :: "signer \<Rightarrow> market_config \<Rightarrow> nonce_manager \<Rightarrow> nat \<Rightarrow> batch_op \<Rightarrow> signed_tx \<Rightarrow> bool" where
  "signed_as sg market nm i op tx \<longleftrightarrow>
     (\<exists>req. sign_request_of market (nm_api_key_index nm) (nonce nm + of_nat (Suc i)) op = Inr req \<and> sg req = Inr tx)"

lemma next_nonce_key [simp]: "nm_api_key_index (snd (next_nonce nm)) = nm_api_key_index nm"
  by (simp add: next_nonce_def Let_def)

lemma signed_as_next: "signed_as sg market (snd (next_nonce nm)) i op tx = signed_as sg market nm (Suc i) op tx"
  by (simp add: signed_as_def next_nonce_def Let_def algebra_simps)

lemma sign_loop_spec:
  "sign_loop sg market nm reserved acc ops = (r, nm') \<Longrightarrow>
   (case r of
      Inl _ \<Rightarrow> nm' = nm\<lparr>nonce := nonce nm - of_nat reserved\<rparr>
    | Inr b \<Rightarrow> nm' = nm\<lparr>nonce := nonce nm + of_nat (length ops)\<rparr> \<and> sb_ops b = sb_ops acc @ ops \<and>
        (\<exists>txs. length txs = length ops \<and> sb_tx_types b = sb_tx_types acc @ map st_type txs \<and>
           sb_tx_infos b = sb_tx_infos acc @ map st_info txs \<and>
           (\<forall>i < length ops. signed_as sg market nm i (ops ! i) (txs ! i))))"
proof (induction ops arbitrary: nm reserved acc)
  case (Cons op ops)
  let ?n = "nonce nm + 1" and ?nm = "nm\<lparr>nonce := nonce nm + 1\<rparr>"
  show ?case
  proof (cases "\<exists>req tx. sign_request_of market (nm_api_key_index nm) ?n op = Inr req \<and> sg req = Inr tx")
    case False
    then show ?thesis using Cons.prems
      by (auto simp: next_nonce_def Let_def ack_pow algebra_simps simp del: funpow.simps split: sum.splits)
  next
    case True
    then obtain req tx where rt: "sign_request_of market (nm_api_key_index nm) ?n op = Inr req" "sg req = Inr tx" by blast
    let ?acc = "acc\<lparr>sb_tx_types := sb_tx_types acc @ [st_type tx], sb_tx_infos := sb_tx_infos acc @ [st_info tx],
                    sb_ops := sb_ops acc @ [op]\<rparr>"
    have rest: "sign_loop sg market ?nm (reserved + 1) ?acc ops = (r, nm')"
      using Cons.prems rt by (simp add: next_nonce_def Let_def)
    have first: "signed_as sg market nm 0 op tx" using rt by (simp add: signed_as_def)
    show ?thesis
    proof (cases r)
      case (Inl e)
      then show ?thesis using Cons.IH [OF rest] by (simp add: algebra_simps)
    next
      case (Inr b)
      from Cons.IH [OF rest] Inr obtain txs where txs: "length txs = length ops"
        "sb_tx_types b = sb_tx_types ?acc @ map st_type txs" "sb_tx_infos b = sb_tx_infos ?acc @ map st_info txs"
        and all: "\<forall>i < length ops. signed_as sg market ?nm i (ops ! i) (txs ! i)"
        and nm': "nm' = ?nm\<lparr>nonce := nonce ?nm + of_nat (length ops)\<rparr>" and ops: "sb_ops b = sb_ops ?acc @ ops"
        by auto
      have "signed_as sg market nm (Suc i) (ops ! i) (txs ! i)" if "i < length ops" for i
        using all that signed_as_next [of sg market nm i "ops ! i" "txs ! i"] by (simp add: next_nonce_def Let_def)
      then have "\<forall>i < length (op # ops). signed_as sg market nm i ((op # ops) ! i) ((tx # txs) ! i)"
        using first by (auto simp: nth_Cons split: nat.splits)
      with txs nm' ops Inr show ?thesis by (auto simp: algebra_simps intro!: exI [of _ "tx # txs"])
    qed
  qed
qed (auto split: sum.splits)

text \<open>
  Signing is all or nothing for the nonces. An aborted batch (bad price, missing exchange
  id or a signer error at any position) leaves the counter exactly where it was; a signed batch
  consumed one nonce per operation, in order and without a gap, and the transaction types, the
  payloads and the operations are parallel, entry \<open>i\<close> being operation \<open>i\<close> signed with its nonce.
\<close>

theorem sign_batch_nonces:
  assumes "sign_batch sg nm market ops = (r, nm')"
  shows "case r of
      Inl _ \<Rightarrow> nm' = nm
    | Inr b \<Rightarrow> nonce nm' = nonce nm + of_nat (length ops) \<and> sb_ops b = ops \<and>
        (\<exists>txs. length txs = length ops \<and> sb_tx_types b = map st_type txs \<and> sb_tx_infos b = map st_info txs \<and>
           (\<forall>i < length ops. signed_as sg market nm i (ops ! i) (txs ! i)))"
  using sign_loop_spec [OF assms [unfolded sign_batch_def]] by (cases r) auto

theorem sign_batch_nonces_witness:
  "\<exists>r nm'. sign_batch (\<lambda>_. Inl ''x'') \<lparr>nm_account_index = 1, nm_api_key_index = 2, nonce = 99\<rparr>
      \<lparr>market_id = 1, mc_symbol = [], price_tick = 1, amount_tick = 1, min_base_amount = 1,
       min_quote_amount = 1, price_decimals = 0, size_decimals = 0\<rparr>
      [\<lparr>op_side = Buy, op_level = 0, op_action = Cancel, op_price = 0, op_size = 0,
        op_client_order_id = 5, op_exchange_id = Some 7, op_reduce_only = False\<rparr>] = (r, nm') \<and>
     r = Inl (Sign_Failed Cancel ''x'') \<and> nonce nm' = 99"
proof -
  let ?nm = "\<lparr>nm_account_index = 1, nm_api_key_index = 2, nonce = 99\<rparr> :: nonce_manager"
  let ?mc = "\<lparr>market_id = 1, mc_symbol = [], price_tick = 1, amount_tick = 1, min_base_amount = 1,
       min_quote_amount = 1, price_decimals = 0, size_decimals = 0\<rparr> :: market_config"
  let ?op = "\<lparr>op_side = Buy, op_level = 0, op_action = Cancel, op_price = 0, op_size = 0,
        op_client_order_id = 5, op_exchange_id = Some 7, op_reduce_only = False\<rparr> :: batch_op"
  obtain nm' where s: "sign_batch (\<lambda>_. Inl ''x'') ?nm ?mc [?op] = (Inl (Sign_Failed Cancel ''x''), nm')"
    by (simp add: sign_batch_def sign_request_of_def next_nonce_def Let_def)
  from sign_batch_nonces [OF s] s show ?thesis by simp
qed

end
