(* ===== verification/Pnl_Events.thy ===== *)
theory Pnl_Events
  imports Messages
begin

text \<open>
  The messages of the PnL actor (\<^verbatim>\<open>src/src/account/pnl_actor.rs\<close>), which the sender and the account
  handlers send and the actor consumes.
\<close>

record position_snapshot =
  ps_signed_position :: f64
  ps_entry_vwap :: "f64 option"

datatype pnl_event =
    RegisterClientIds "int list"
  | AccountAll "position_snapshot option" "trade_payload list"
  | Capital "f64 option" "f64 option" \<comment> \<open>available capital, portfolio value\<close>
  | Shutdown

end
