(* ===== verification/Paced_Send.thy ===== *)
theory Paced_Send
  imports Rate_Limit Risk Signing Shared Pnl_Events
begin

text \<open>
  \<^verbatim>\<open>src/src/exec/paced_send.rs\<close> and the cancel-all routines of \<^verbatim>\<open>src/src/orchestrator.rs\<close>:
  the sender task. Everything outside the program (clock, halt flag, REST client, transaction
  websocket, native signer) is the record \<open>api\<close> of functions that act on a world \<open>'w\<close>; the
  sender's own state, and the shared cells it writes, are the record \<open>sender\<close>. The source holds
  the SDK mutex while it signs and sends, and the model runs one call after the other.
\<close>

section \<open>The environment and the state\<close>

record 'w api =
  a_now :: "'w \<Rightarrow> instant \<times> 'w"
  a_now_ms :: "'w \<Rightarrow> nat \<times> 'w"
  a_delays :: "'w \<Rightarrow> (nat \<Rightarrow> duration) \<times> 'w"
  a_halt :: "'w \<Rightarrow> bool \<times> 'w"
  a_next_nonce :: "i64w \<Rightarrow> 32 word \<Rightarrow> 'w \<Rightarrow> i64w option \<times> 'w"
  a_signer :: signer
  a_sign_cancel_all :: "32 word \<Rightarrow> int \<Rightarrow> i64w \<Rightarrow> 32 word \<Rightarrow> string + signed_tx"
  a_send_tx :: "8 word \<Rightarrow> string \<Rightarrow> 'w \<Rightarrow> (string + tx_response) \<times> 'w"
  a_send_batch :: "8 word list \<Rightarrow> string list \<Rightarrow> 'w \<Rightarrow> tx_send_result \<times> 'w"
  a_tx_connect :: "f64 \<Rightarrow> 'w \<Rightarrow> bool \<times> 'w" \<comment> \<open>a new websocket with that ping interval\<close>
  a_auth_token :: "'w \<Rightarrow> string option \<times> 'w"
  a_active_orders :: "i64w \<Rightarrow> u32 \<Rightarrow> string \<Rightarrow> 'w \<Rightarrow> remote_order list option \<times> 'w"

record 'w sender =
  s_nonce :: nonce_manager
  s_nonce_ok :: bool
  s_risk :: risk_controller
  s_derived :: derived
  s_rate :: rate_limiter
  s_market :: market_config
  s_account_index :: i64w
  s_events :: "order_event list" \<comment> \<open>the lossless queue to the decision task, oldest first\<close>
  s_pnl :: "pnl_event list option" \<comment> \<open>messages to the PnL actor, when there is one\<close>
  s_reconcile :: nat \<comment> \<open>calls that wake the reconcile poller; calls before it runs make one wake-up\<close>
  s_world :: 'w

text \<open>Reading from the environment.\<close>

definition ask_world :: "('w \<Rightarrow> 'a \<times> 'w) \<Rightarrow> 'w sender \<Rightarrow> 'a \<times> 'w sender" where
  "ask_world f s = (let (x, w) = f (s_world s) in (x, s\<lparr>s_world := w\<rparr>))"

definition emit :: "order_event list \<Rightarrow> 'w sender \<Rightarrow> 'w sender" where
  "emit es s = s\<lparr>s_events := s_events s @ es\<rparr>"

section \<open>Cancel-all\<close>

definition CANCEL_ALL_TIF_IMMEDIATE :: "32 word" where "CANCEL_ALL_TIF_IMMEDIATE = 0"

definition refresh_nonce :: "'w api \<Rightarrow> 'w sender \<Rightarrow> bool \<times> 'w sender" where
  "refresh_nonce api s =
     (let nm = s_nonce s;
          (r, w) = a_next_nonce api (nm_account_index nm) (nm_api_key_index nm) (s_world s);
          (ok, nm') = hard_refresh (\<lambda>_ _. r) nm
      in (ok, s\<lparr>s_nonce := nm', s_world := w\<rparr>))"

definition cancel_all_orders :: "'w api \<Rightarrow> 'w sender \<Rightarrow> bool \<times> 'w sender" where
  "cancel_all_orders api s =
     (let (n, nm1) = next_nonce (s_nonce s)
      in case a_sign_cancel_all api CANCEL_ALL_TIF_IMMEDIATE 0 n (nm_api_key_index nm1) of
           Inl e \<Rightarrow> (False, s\<lparr>s_nonce := acknowledge_failure nm1\<rparr>)
         | Inr tx \<Rightarrow>
             let (r, w) = a_send_tx api (st_type tx) (st_info tx) (s_world s);
                 s1 = s\<lparr>s_nonce := nm1, s_world := w\<rparr>
             in (case r of
                   Inl e \<Rightarrow> (False, s1)
                 | Inr resp \<Rightarrow> (resp_code resp = 0 \<or> resp_code resp = 200, s1)))"

text \<open>The active orders as the exchange reports them now; \<open>None\<close> when they cannot be fetched.\<close>

definition fetch_active_orders :: "'w api \<Rightarrow> 'w sender \<Rightarrow> remote_order list option \<times> 'w sender" where
  "fetch_active_orders api s =
     (let (tok, s1) = ask_world (a_auth_token api) s
      in case tok of
           None \<Rightarrow> (None, s1)
         | Some t \<Rightarrow> ask_world (a_active_orders api (s_account_index s) (market_id (s_market s)) t) s1)"

text \<open>The attempts of \<open>cancel_all_and_verify\<close>; the source makes five.\<close>

fun cancel_all_attempts :: "'w api \<Rightarrow> nat \<Rightarrow> 'w sender \<Rightarrow> bool \<times> 'w sender" where
  "cancel_all_attempts api 0 s = (False, s)"
| "cancel_all_attempts api (Suc k) s =
     (let (ok, s1) = cancel_all_orders api s;
          s2 = (if ok then s1 else snd (refresh_nonce api s1));
          (orders, s3) = fetch_active_orders api s2
      in if orders = Some [] then (True, s3) else cancel_all_attempts api k s3)"

definition cancel_all_and_verify :: "'w api \<Rightarrow> 'w sender \<Rightarrow> bool \<times> 'w sender" where
  "cancel_all_and_verify api s = cancel_all_attempts api 5 s"

section \<open>The sender\<close>

definition MD_HEALTH_MS :: nat where "MD_HEALTH_MS = 10000"
definition NONCE_RESYNC_ATTEMPTS :: nat where "NONCE_RESYNC_ATTEMPTS = 3"

definition cancel_only :: "batch_op list \<Rightarrow> bool" where
  "cancel_only ops \<longleftrightarrow> (\<forall>op \<in> set ops. op_action op = Cancel)"

text \<open>\<open>mark_reconcile(false, reason)\<close> and \<open>trigger_pause(reason)\<close> under one lock.\<close>

definition fail_and_pause :: "'w api \<Rightarrow> string \<Rightarrow> string \<Rightarrow> 'w sender \<Rightarrow> 'w sender" where
  "fail_and_pause api why reason s =
     (let (t1, s1) = ask_world (a_now api) s;
          (t2, s2) = ask_world (a_now api) s1
      in s2\<lparr>s_risk := trigger_pause (mark_reconcile (s_risk s) t1 False why) t2 reason\<rparr>)"

fun resync_attempts :: "'w api \<Rightarrow> nat \<Rightarrow> 'w sender \<Rightarrow> bool \<times> 'w sender" where
  "resync_attempts api 0 s = (False, s)"
| "resync_attempts api (Suc k) s =
     (let (ok, s1) = refresh_nonce api s
      in if ok then (True, s1\<lparr>s_nonce_ok := True\<rparr>) else resync_attempts api k s1)"

definition resync_nonce_or_pause :: "'w api \<Rightarrow> 'w sender \<Rightarrow> bool \<times> 'w sender" where
  "resync_nonce_or_pause api s =
     (let (ok, s1) = resync_attempts api NONCE_RESYNC_ATTEMPTS s
      in if ok then (True, s1)
         else (False, fail_and_pause api ''nonce_resync_failed'' ''nonce_resync_failed'' (s1\<lparr>s_nonce_ok := False\<rparr>)))"

definition clear_event :: "batch_op \<Rightarrow> order_event" where
  "clear_event op = ClearLive (op_side op) (op_level op) (op_client_order_id op)"

definition clear_failed_creates :: "batch_op list \<Rightarrow> 'w sender \<Rightarrow> 'w sender" where
  "clear_failed_creates ops s = emit (map clear_event (filter (\<lambda>op. op_action op = Create) ops)) s"

definition force_reconcile :: "'w sender \<Rightarrow> 'w sender" where
  "force_reconcile s = s\<lparr>s_reconcile := s_reconcile s + 1\<rparr>"

definition roll_back :: "nat \<Rightarrow> 'w sender \<Rightarrow> 'w sender" where
  "roll_back n s = s\<lparr>s_nonce := rollback (s_nonce s) n\<rparr>"

definition set_quotas :: "int \<Rightarrow> 'w sender \<Rightarrow> 'w sender" where
  "set_quotas q s = s\<lparr>s_derived := derived_set_quota (s_derived s) (Some q), s_rate := set_quota (s_rate s) (Some q)\<rparr>"

text \<open>\<open>Debug\<close> rendering of a reject kind, decimal rendering of a signed integer.\<close>

definition show_kind :: "reject_kind \<Rightarrow> string" where
  "show_kind k = (case k of Quota \<Rightarrow> ''Quota'' | RateLimit \<Rightarrow> ''RateLimit'' | Nonce \<Rightarrow> ''Nonce''
                  | MakerOnly \<Rightarrow> ''MakerOnly'' | Other \<Rightarrow> ''Other'')"

definition show_int :: "int \<Rightarrow> string" where
  "show_int i = (if i < 0 then CHR ''-'' # show_nat (nat (- i)) else show_nat (nat i))"

definition reject_message :: "tx_send_result \<Rightarrow> string" where
  "reject_message r = (if trim (tx_message r) = [] then ''code='' @ show_int (tx_code r) else tx_message r)"

text \<open>The nonce correction of each reject class.\<close>

definition correct_nonce :: "'w api \<Rightarrow> nat \<Rightarrow> reject_kind \<Rightarrow> 'w sender \<Rightarrow> 'w sender" where
  "correct_nonce api reserved kind s =
     (case kind of
        Quota \<Rightarrow> snd (resync_nonce_or_pause api (roll_back reserved (set_quotas 0 s)))
      | RateLimit \<Rightarrow>
          let (t, s1) = ask_world (a_now api) s
          in roll_back reserved (s1\<lparr>s_rate := snd (trigger_global_backoff_at (s_rate s1) t)\<rparr>)
      | Nonce \<Rightarrow> snd (resync_nonce_or_pause api s)
      | MakerOnly \<Rightarrow> force_reconcile (snd (resync_nonce_or_pause api (roll_back reserved s)))
      | Other \<Rightarrow> force_reconcile (snd (resync_nonce_or_pause api (roll_back reserved s))))"

definition success_event :: "batch_op \<Rightarrow> order_event" where
  "success_event op =
     (case op_action op of
        Cancel \<Rightarrow> clear_event op
      | _ \<Rightarrow> BindLive (op_side op) (op_level op) (op_client_order_id op) (op_exchange_id op) (op_price op) (op_size op))"

definition register_ids :: "batch_op list \<Rightarrow> pnl_event list \<Rightarrow> pnl_event list" where
  "register_ids ops q =
     (let ids = filter (\<lambda>c. 0 < c) (map op_client_order_id ops)
      in if ids = [] then q else q @ [RegisterClientIds ids])"

definition on_ok :: "'w api \<Rightarrow> nat \<Rightarrow> tx_send_result \<Rightarrow> batch_op list \<Rightarrow> 'w sender \<Rightarrow> 'w sender" where
  "on_ok api op_count r ops s =
     (let (t, s0) = ask_world (a_now api) s;
          s1 = s0\<lparr>s_rate := record_ops_sent_at (s_rate s0) op_count t\<rparr>;
          s2 = (case tx_quota_remaining r of None \<Rightarrow> s1 | Some q \<Rightarrow> set_quotas q s1);
          (t', s3) = ask_world (a_now api) (s2\<lparr>s_risk := record_success (s_risk s2)\<rparr>);
          s4 = s3\<lparr>s_rate := reset_global_backoff_at (s_rate s3) t', s_pnl := map_option (register_ids ops) (s_pnl s3)\<rparr>
      in emit (map success_event ops) s4)"

definition on_rejected :: "'w api \<Rightarrow> nat \<Rightarrow> tx_send_result \<Rightarrow> batch_op list \<Rightarrow> 'w sender \<Rightarrow> 'w sender" where
  "on_rejected api op_count r ops s =
     (let (t, s0) = ask_world (a_now api) s;
          s1 = s0\<lparr>s_rate := record_ops_sent_at (s_rate s0) op_count t\<rparr>;
          msg = reject_message r;
          kind = classify_reject msg;
          (t1, s2) = ask_world (a_now api) s1;
          s3 = s2\<lparr>s_risk := record_rejection (s_risk s2) t1 (show_kind kind @ '':'' @ msg)\<rparr>;
          s4 = clear_failed_creates ops (correct_nonce api (length ops) kind s3);
          (t2, s5) = ask_world (a_now api) s4
      in if is_paused (s_risk s5) t2 then snd (cancel_all_and_verify api s5) else s5)"

definition on_unknown :: "'w api \<Rightarrow> 'w sender \<Rightarrow> 'w sender" where
  "on_unknown api s =
     (let s1 = snd (resync_nonce_or_pause api s);
          s2 = fail_and_pause api ''tx_unknown_outcome'' ''unknown_tx_outcome'' s1
      in force_reconcile (snd (cancel_all_and_verify api s2)))"

definition on_not_sent :: "batch_op list \<Rightarrow> 'w sender \<Rightarrow> 'w sender" where
  "on_not_sent ops s = clear_failed_creates ops (roll_back (length ops) s)"

text \<open>The transport: a single operation goes by REST when the quota is exhausted.\<close>

definition transmit :: "'w api \<Rightarrow> signed_batch \<Rightarrow> 'w sender \<Rightarrow> tx_send_result \<times> 'w sender" where
  "transmit api b s =
     (let free_slot = (case derived_quota (s_derived s) of None \<Rightarrow> False | Some q \<Rightarrow> q \<le> 0)
      in if free_slot \<and> length (sb_tx_types b) = 1
         then let (r, s1) = ask_world (a_send_tx api (sb_tx_types b ! 0) (sb_tx_infos b ! 0)) s
              in ((case r of
                     Inr tx \<Rightarrow> \<lparr>tx_status = (if resp_code tx = 0 \<or> resp_code tx = 200 then Ok else Rejected),
                                tx_code = resp_code tx, tx_message = resp_message tx,
                                tx_quota_remaining = volume_quota_remaining tx\<rparr>
                   | Inl e \<Rightarrow> unknown (''rest_err:'' @ e)), s1)
         else ask_world (a_send_batch api (sb_tx_types b) (sb_tx_infos b)) s)"

definition handle_result :: "'w api \<Rightarrow> nat \<Rightarrow> tx_send_result \<Rightarrow> batch_op list \<Rightarrow> 'w sender \<Rightarrow> 'w sender" where
  "handle_result api op_count r ops s =
     (case tx_status r of
        Ok \<Rightarrow> on_ok api op_count r ops s
      | Rejected \<Rightarrow> on_rejected api op_count r ops s
      | Unknown \<Rightarrow> on_unknown api s
      | NotSent \<Rightarrow> on_not_sent ops s)"

text \<open>The rate gate, then the halt flag read again under the SDK lock.\<close>

definition pass_gate :: "'w api \<Rightarrow> batch_op list \<Rightarrow> 'w sender \<Rightarrow> bool \<times> 'w sender" where
  "pass_gate api ops s =
     (let (now, s1) = ask_world (a_now api) s;
          (delays, s2) = ask_world (a_delays api) s1;
          (slot, rate) = write_slot (s_rate s2) (length ops) (cancel_only ops) now delays;
          s3 = s2\<lparr>s_rate := rate\<rparr>
      in if slot = None then (False, s3)
         else let (halted, s4) = ask_world (a_halt api) s3 in (\<not> halted, s4))"

definition send_once :: "'w api \<Rightarrow> batch_op list \<Rightarrow> 'w sender \<Rightarrow> 'w sender" where
  "send_once api ops s =
     (let (go, s1) = pass_gate api ops s
      in if \<not> go then clear_failed_creates ops s1
         else let (r, nm) = sign_batch (a_signer api) (s_nonce s1) (s_market s1) ops;
                  s2 = s1\<lparr>s_nonce := nm\<rparr>
              in (case r of
                    Inl e \<Rightarrow> clear_failed_creates ops s2
                  | Inr b \<Rightarrow> let (res, s3) = transmit api b s2
                             in handle_result api (length ops) res (sb_ops b) s3))"

text \<open>One turn of the loop of \<open>run\<close>: a new batch from the mailbox, or a recovery tick (\<open>None\<close>).\<close>

definition sender_wake :: "'w api \<Rightarrow> batch_op list option \<Rightarrow> 'w sender \<Rightarrow> 'w sender" where
  "sender_wake api batch s =
     (let (ms, s1) = ask_world (a_now_ms api) s;
          ws_healthy = (md_age_ms (s_derived s1) ms < MD_HEALTH_MS);
          nonce_ok = s_nonce_ok s1;
          (t, s2) = ask_world (a_now api) s1;
          (rec, risk') = maybe_recover (s_risk s2) t ws_healthy;
          s3 = s2\<lparr>s_risk := risk'\<rparr>;
          can_trade = (rec \<and> nonce_ok)
      in case batch of
           None \<Rightarrow> s3
         | Some ops \<Rightarrow>
             if ops = [] then s3
             else let (halted, s4) = ask_world (a_halt api) s3
                  in if halted then s4
                     else if \<not> can_trade \<and> \<not> cancel_only ops then clear_failed_creates ops s4
                     else send_once api ops s4)"

section \<open>What the steps leave alone\<close>

lemma ask_world_simp [simp]: "ask_world f s = (fst (f (s_world s)), s\<lparr>s_world := snd (f (s_world s))\<rparr>)"
  by (simp add: ask_world_def case_prod_beta Let_def)

text \<open>Everything but the nonce counter and the outside world.\<close>

definition control :: "'w sender \<Rightarrow> 'w sender" where
  "control s = s\<lparr>s_nonce := undefined, s_world := undefined\<rparr>"

lemma control_fields:
  "control s = control t \<Longrightarrow>
   s_nonce_ok s = s_nonce_ok t \<and> s_risk s = s_risk t \<and> s_derived s = s_derived t \<and> s_rate s = s_rate t \<and>
   s_market s = s_market t \<and> s_account_index s = s_account_index t \<and> s_events s = s_events t \<and>
   s_pnl s = s_pnl t \<and> s_reconcile s = s_reconcile t"
  by (cases s; cases t) (simp add: control_def)

lemma control_update [simp]:
  "control (s\<lparr>s_nonce := nm\<rparr>) = control s" "control (s\<lparr>s_world := w\<rparr>) = control s"
  by (simp_all add: control_def)

lemma control_refresh_nonce [simp]: "control (snd (refresh_nonce api s)) = control s"
  by (simp add: refresh_nonce_def case_prod_beta Let_def)

lemma control_cancel_all_orders [simp]: "control (snd (cancel_all_orders api s)) = control s"
  by (simp add: cancel_all_orders_def case_prod_beta Let_def split: sum.split)

lemma control_fetch_active_orders [simp]: "control (snd (fetch_active_orders api s)) = control s"
  by (simp add: fetch_active_orders_def case_prod_beta Let_def split: option.split)

lemma control_cancel_all_attempts: "control (snd (cancel_all_attempts api k s)) = control s"
  by (induction k arbitrary: s) (auto simp: case_prod_beta Let_def)

lemmas cancel_all_frame [simp, frame_simps] =
  control_fields [OF control_cancel_all_attempts [of api 5 s, folded cancel_all_and_verify_def]] for api s

lemma control_nonce_ok: "control (s\<lparr>s_nonce_ok := b\<rparr>) = (control s)\<lparr>s_nonce_ok := b\<rparr>"
  by (simp add: control_def)

lemma resync_attempts_frame:
  "control (snd (resync_attempts api k s)) =
   (if fst (resync_attempts api k s) then (control s)\<lparr>s_nonce_ok := True\<rparr> else control s)"
  by (induction k arbitrary: s) (simp_all add: case_prod_beta Let_def control_nonce_ok)

text \<open>A paused controller that has seen a failed reconcile: it refuses every recovery.\<close>

definition locked :: "risk_controller \<Rightarrow> bool" where
  "locked r \<longleftrightarrow> paused_until r \<noteq> None \<and> \<not> last_reconcile_ok r"

lemma locked_no_recovery: "locked r \<Longrightarrow> \<not> fst (maybe_recover r t ws)"
  by (auto simp: locked_def maybe_recover_def)

lemma locked_trigger [simp]: "locked (trigger_pause (mark_reconcile r t False why) t' reason)"
  by (auto simp: locked_def trigger_pause_def mark_reconcile_def Let_def split: option.split)

lemma fail_and_pause_simps [simp]:
  "s_events (fail_and_pause api why reason s) = s_events s"
  "s_nonce (fail_and_pause api why reason s) = s_nonce s"
  "s_nonce_ok (fail_and_pause api why reason s) = s_nonce_ok s"
  "s_reconcile (fail_and_pause api why reason s) = s_reconcile s"
  "s_rate (fail_and_pause api why reason s) = s_rate s"
  "s_derived (fail_and_pause api why reason s) = s_derived s"
  "locked (s_risk (fail_and_pause api why reason s))"
  by (simp_all add: fail_and_pause_def Let_def)

lemma emit_simps [simp]:
  "s_events (emit es s) = s_events s @ es" "s_nonce (emit es s) = s_nonce s" "s_nonce_ok (emit es s) = s_nonce_ok s"
  "s_risk (emit es s) = s_risk s" "s_rate (emit es s) = s_rate s" "s_derived (emit es s) = s_derived s"
  "s_reconcile (emit es s) = s_reconcile s" "s_world (emit es s) = s_world s" "s_pnl (emit es s) = s_pnl s"
  by (simp_all add: emit_def)

lemma clear_failed_creates_simps [simp]:
  "s_events (clear_failed_creates ops s) = s_events s @ map clear_event (filter (\<lambda>op. op_action op = Create) ops)"
  "s_nonce (clear_failed_creates ops s) = s_nonce s" "s_nonce_ok (clear_failed_creates ops s) = s_nonce_ok s"
  "s_risk (clear_failed_creates ops s) = s_risk s" "s_rate (clear_failed_creates ops s) = s_rate s"
  "s_reconcile (clear_failed_creates ops s) = s_reconcile s" "s_world (clear_failed_creates ops s) = s_world s"
  by (simp_all add: clear_failed_creates_def)

lemma resync_frame [simp, frame_simps]:
  "s_events (snd (resync_nonce_or_pause api s)) = s_events s"
  "s_reconcile (snd (resync_nonce_or_pause api s)) = s_reconcile s"
  "s_rate (snd (resync_nonce_or_pause api s)) = s_rate s"
  "s_nonce_ok (snd (resync_nonce_or_pause api s)) = fst (resync_nonce_or_pause api s)"
  "\<not> fst (resync_nonce_or_pause api s) \<Longrightarrow> locked (s_risk (snd (resync_nonce_or_pause api s)))"
  "fst (resync_nonce_or_pause api s) \<Longrightarrow> s_risk (snd (resync_nonce_or_pause api s)) = s_risk s"
  using resync_attempts_frame [of api NONCE_RESYNC_ATTEMPTS s]
    control_fields [of "snd (resync_attempts api NONCE_RESYNC_ATTEMPTS s)" "s\<lparr>s_nonce_ok := True\<rparr>"]
    control_fields [of "snd (resync_attempts api NONCE_RESYNC_ATTEMPTS s)" s]
  by (simp_all add: resync_nonce_or_pause_def case_prod_beta Let_def control_nonce_ok split: if_splits)

section \<open>What a batch's outcome does\<close>

abbreviation failed_creates :: "batch_op list \<Rightarrow> order_event list" where
  "failed_creates ops \<equiv> map clear_event (filter (\<lambda>op. op_action op = Create) ops)"

lemma step_simps [simp]:
  "s_events (force_reconcile s) = s_events s" "s_reconcile (force_reconcile s) = Suc (s_reconcile s)"
  "s_nonce (force_reconcile s) = s_nonce s" "s_world (force_reconcile s) = s_world s"
  "s_risk (force_reconcile s) = s_risk s" "s_nonce_ok (force_reconcile s) = s_nonce_ok s"
  "s_events (roll_back n s) = s_events s" "s_reconcile (roll_back n s) = s_reconcile s"
  "s_nonce (roll_back n s) = rollback (s_nonce s) n" "s_world (roll_back n s) = s_world s"
  "s_risk (roll_back n s) = s_risk s" "s_nonce_ok (roll_back n s) = s_nonce_ok s"
  "s_events (set_quotas q s) = s_events s" "s_reconcile (set_quotas q s) = s_reconcile s"
  "s_nonce (set_quotas q s) = s_nonce s" "s_world (set_quotas q s) = s_world s"
  "s_risk (set_quotas q s) = s_risk s" "s_nonce_ok (set_quotas q s) = s_nonce_ok s"
  by (simp_all add: force_reconcile_def roll_back_def set_quotas_def)

lemma on_ok_simps [simp]:
  "s_events (on_ok api n r ops s) = s_events s @ map success_event ops"
  "s_nonce (on_ok api n r ops s) = s_nonce s" "s_nonce_ok (on_ok api n r ops s) = s_nonce_ok s"
  "s_risk (on_ok api n r ops s) = record_success (s_risk s)"
  by (simp_all add: on_ok_def Let_def split: option.split)

lemma correct_nonce_events [simp]: "s_events (correct_nonce api n k s) = s_events s"
  by (simp add: correct_nonce_def Let_def split: reject_kind.split)

lemma on_rejected_events: "s_events (on_rejected api n r ops s) = s_events s @ failed_creates ops"
  by (simp add: on_rejected_def Let_def)

lemma on_unknown_simps:
  "s_events (on_unknown api s) = s_events s" "s_reconcile (on_unknown api s) = Suc (s_reconcile s)"
  "locked (s_risk (on_unknown api s))"
  by (simp_all add: on_unknown_def Let_def)

lemma on_not_sent_simps:
  "s_events (on_not_sent ops s) = s_events s @ failed_creates ops"
  "s_nonce (on_not_sent ops s) = rollback (s_nonce s) (length ops)"
  by (simp_all add: on_not_sent_def)

lemma transmit_frame [simp]: "control (snd (transmit api b s)) = control s"
  "s_nonce (snd (transmit api b s)) = s_nonce s"
  by (simp_all add: transmit_def Let_def)

lemmas transmit_fields [simp, frame_simps] = control_fields [OF transmit_frame(1)]

lemma sign_batch_ops: "sign_batch sg nm market ops = (Inr b, nm') \<Longrightarrow> sb_ops b = ops"
  using sign_loop_spec [of sg market nm 0 _ ops "Inr b" nm'] by (fastforce simp: sign_batch_def)

lemma pass_gate_frame [simp]:
  "s_nonce (snd (pass_gate api ops s)) = s_nonce s" "s_nonce_ok (snd (pass_gate api ops s)) = s_nonce_ok s"
  "s_risk (snd (pass_gate api ops s)) = s_risk s" "s_events (snd (pass_gate api ops s)) = s_events s"
  "s_reconcile (snd (pass_gate api ops s)) = s_reconcile s" "s_market (snd (pass_gate api ops s)) = s_market s"
  "s_derived (snd (pass_gate api ops s)) = s_derived s"
  by (simp_all add: pass_gate_def Let_def case_prod_beta)

text \<open>The ways a batch can leave \<open>send_once\<close>: dropped unsent, or sent and its result handled.\<close>

lemma send_once_cases:
  obtains (dropped) "send_once api ops s = clear_failed_creates ops (snd (pass_gate api ops s))"
  | (sent) b nm t where "sign_batch (a_signer api) (s_nonce s) (s_market s) ops = (Inr b, nm)" "sb_ops b = ops"
      "t = (snd (pass_gate api ops s))\<lparr>s_nonce := nm\<rparr>"
      "send_once api ops s = handle_result api (length ops) (fst (transmit api b t)) ops (snd (transmit api b t))"
proof (cases "fst (pass_gate api ops s)")
  case False
  then show thesis using dropped by (simp add: send_once_def case_prod_beta)
next
  case True
  obtain r nm where sg: "sign_batch (a_signer api) (s_nonce s) (s_market s) ops = (r, nm)" by fastforce
  show thesis
  proof (cases r)
    case (Inl e)
    then have "nm = s_nonce s"
      using sg sign_loop_spec [of "a_signer api" "s_market s" "s_nonce s" 0 _ ops r nm] by (simp add: sign_batch_def)
    moreover have "(snd (pass_gate api ops s))\<lparr>s_nonce := s_nonce s\<rparr> = snd (pass_gate api ops s)"
      using pass_gate_frame(1) [of api ops s] by (cases "snd (pass_gate api ops s)") simp
    moreover have "send_once api ops s = clear_failed_creates ops ((snd (pass_gate api ops s))\<lparr>s_nonce := nm\<rparr>)"
      using sg Inl True by (simp add: send_once_def case_prod_beta)
    ultimately show thesis by (intro dropped) metis
  next
    case (Inr b)
    then have b: "sb_ops b = ops" using sg sign_batch_ops by blast
    show thesis using sg Inr True b by (intro sent [OF _ b refl]) (simp_all add: send_once_def case_prod_beta Let_def)
  qed
qed

text \<open>The counter as a nonce query answered it; or it is marked untrusted and the breaker is locked.\<close>

definition counter_reread :: "'w api \<Rightarrow> 'w sender \<Rightarrow> 'w sender \<Rightarrow> bool" where
  "counter_reread api s u \<longleftrightarrow>
     (if s_nonce_ok u
      then \<exists>w n. fst (a_next_nonce api (nm_account_index (s_nonce s)) (nm_api_key_index (s_nonce s)) w) = Some n \<and>
                 nonce (s_nonce u) = n - 1
      else locked (s_risk u))"

lemma refresh_nonce_cases:
  obtains (answered) n where "fst (a_next_nonce api (nm_account_index (s_nonce s)) (nm_api_key_index (s_nonce s)) (s_world s)) = Some n"
      "fst (refresh_nonce api s)" "s_nonce (snd (refresh_nonce api s)) = (s_nonce s)\<lparr>nonce := n - 1\<rparr>"
  | (failed) "\<not> fst (refresh_nonce api s)" "s_nonce (snd (refresh_nonce api s)) = s_nonce s"
  by (cases "fst (a_next_nonce api (nm_account_index (s_nonce s)) (nm_api_key_index (s_nonce s)) (s_world s))")
    (auto simp: refresh_nonce_def hard_refresh_def case_prod_beta Let_def)

lemma resync_attempts_reread:
  "fst (resync_attempts api k s) \<Longrightarrow>
   \<exists>w n. fst (a_next_nonce api (nm_account_index (s_nonce s)) (nm_api_key_index (s_nonce s)) w) = Some n \<and>
     nonce (s_nonce (snd (resync_attempts api k s))) = n - 1"
proof (induction k arbitrary: s)
  case (Suc k)
  show ?case
    by (cases rule: refresh_nonce_cases [of api s]) (use Suc in \<open>fastforce simp: case_prod_beta Let_def\<close>)+
qed simp

lemma resync_rereads: "counter_reread api s (snd (resync_nonce_or_pause api s))"
  using resync_attempts_reread [of api NONCE_RESYNC_ATTEMPTS s]
    resync_frame(4,5) [of api s]
  by (auto simp: counter_reread_def resync_nonce_or_pause_def case_prod_beta Let_def split: if_splits)

lemma counter_reread_from:
  "counter_reread api (roll_back n s) u = counter_reread api s u" "counter_reread api (set_quotas q s) u = counter_reread api s u"
  by (simp_all add: counter_reread_def rollback_def)

lemma correct_nonce_effect:
  "if k = RateLimit then s_nonce (correct_nonce api n k s) = rollback (s_nonce s) n \<and> s_nonce_ok (correct_nonce api n k s) = s_nonce_ok s
   else counter_reread api s (correct_nonce api n k s)"
proof (cases k)
  case Quota
  then show ?thesis
    using resync_rereads [of api "roll_back n (set_quotas 0 s)"] by (simp add: correct_nonce_def counter_reread_from)
next
  case Nonce
  then show ?thesis by (simp add: correct_nonce_def resync_rereads)
next
  case MakerOnly
  then show ?thesis using resync_rereads [of api "roll_back n s"]
    by (simp add: correct_nonce_def counter_reread_from) (simp add: counter_reread_def)
next
  case Other
  then show ?thesis using resync_rereads [of api "roll_back n s"]
    by (simp add: correct_nonce_def counter_reread_from) (simp add: counter_reread_def)
qed (simp add: correct_nonce_def Let_def)

lemma on_rejected_nonce:
  "\<exists>u. (if classify_reject (reject_message r) = RateLimit
         then nonce (s_nonce u) = nonce (s_nonce s) - of_nat (length ops) \<and> s_nonce_ok u = s_nonce_ok s else counter_reread api s u) \<and>
     (on_rejected api n r ops s = u \<or> paused_until (s_risk u) \<noteq> None \<and> on_rejected api n r ops s = snd (cancel_all_and_verify api u))"
proof -
  let ?k = "classify_reject (reject_message r)"
  define t where "t = s\<lparr>s_rate := record_ops_sent_at (s_rate s) n (fst (a_now api (s_world s))),
    s_world := snd (a_now api (snd (a_now api (s_world s)))),
    s_risk := record_rejection (s_risk s) (fst (a_now api (snd (a_now api (s_world s))))) (show_kind ?k @ '':'' @ reject_message r)\<rparr>"
  define v where "v = clear_failed_creates ops (correct_nonce api (length ops) ?k t)"
  define u where "u = snd (ask_world (a_now api) v)"
  have e: "on_rejected api n r ops s = (if is_paused (s_risk u) (fst (ask_world (a_now api) v)) then snd (cancel_all_and_verify api u) else u)"
    by (simp add: on_rejected_def u_def v_def t_def Let_def)
  have "s_nonce t = s_nonce s" "s_nonce_ok t = s_nonce_ok s" by (simp_all add: t_def)
  with correct_nonce_effect [of ?k api "length ops" t]
  have "if ?k = RateLimit then nonce (s_nonce u) = nonce (s_nonce s) - of_nat (length ops) \<and> s_nonce_ok u = s_nonce_ok s
      else counter_reread api s u"
    by (cases "?k = RateLimit") (auto simp: u_def v_def counter_reread_def rollback_def split: if_splits)
  with e show ?thesis by (auto simp: is_paused_def split: option.splits)
qed

lemma on_unknown_nonce:
  "\<exists>u. counter_reread api s u \<and> s_nonce (on_unknown api s) = s_nonce (snd (cancel_all_and_verify api u)) \<and>
     s_nonce_ok (on_unknown api s) = s_nonce_ok u"
  using resync_rereads [of api s]
  by (intro exI [of _ "fail_and_pause api ''tx_unknown_outcome'' ''unknown_tx_outcome'' (snd (resync_nonce_or_pause api s))"])
    (simp add: on_unknown_def Let_def counter_reread_def)

lemma success_event_eq:
  "success_event op =
     (if op_action op = Cancel then ClearLive (op_side op) (op_level op) (op_client_order_id op)
      else BindLive (op_side op) (op_level op) (op_client_order_id op) (op_exchange_id op) (op_price op) (op_size op))"
  by (cases "op_action op") (simp_all add: success_event_def clear_event_def)

text \<open>
  C3. Every batch is resolved. By the outcome of the send: an accepted batch reports one event
  per operation in order (a create or modify bound live under its ids with its price and size, a
  cancel cleared) and keeps the reserved nonces; a batch that was not sent reports a clear for
  exactly its creates and gives its nonces back; a rejected batch reports the same clears, and its
  nonces are given back when the rate limiter turned it away and are re-read from the exchange
  otherwise, or the counter is marked untrusted and the breaker locked; only if the breaker is
  paused is a cancel-all run after that. An unknown outcome reports nothing, re-reads the counter in
  the same way, runs the cancel-all, wakes the reconcile poller and leaves the breaker refusing every
  recovery until a later reconcile succeeds. And whatever happens to a batch handed to \<open>send_once\<close> (rate
  gate, halt, signing failure, any send outcome), its operations are all reported as carried out, its
  creates are all cleared, or the sender is in that locked state with a reconcile requested.
\<close>

theorem batch_resolved:
  "let accepted = map (\<lambda>op. if op_action op = Cancel then ClearLive (op_side op) (op_level op) (op_client_order_id op)
         else BindLive (op_side op) (op_level op) (op_client_order_id op) (op_exchange_id op) (op_price op) (op_size op)) ops;
       cleared = map (\<lambda>op. ClearLive (op_side op) (op_level op) (op_client_order_id op)) (filter (\<lambda>op. op_action op = Create) ops);
       stuck = (\<lambda>s'. s_events s' = s_events s \<and> s_reconcile s' = Suc (s_reconcile s) \<and> (\<forall>t ws. \<not> fst (maybe_recover (s_risk s') t ws)))
   in (let s' = handle_result api n r ops s in
        case tx_status r of
          Ok \<Rightarrow> s_events s' = s_events s @ accepted \<and> s_nonce s' = s_nonce s
        | Rejected \<Rightarrow> s_events s' = s_events s @ cleared \<and>
            (\<exists>u. (if classify_reject (reject_message r) = RateLimit
                  then nonce (s_nonce u) = nonce (s_nonce s) - of_nat (length ops) \<and> s_nonce_ok u = s_nonce_ok s
                  else counter_reread api s u) \<and>
                 (s' = u \<or> paused_until (s_risk u) \<noteq> None \<and> s' = snd (cancel_all_and_verify api u)))
        | NotSent \<Rightarrow> s_events s' = s_events s @ cleared \<and> nonce (s_nonce s') = nonce (s_nonce s) - of_nat (length ops)
        | Unknown \<Rightarrow> stuck s' \<and>
            (\<exists>u. counter_reread api s u \<and> s_nonce s' = s_nonce (snd (cancel_all_and_verify api u)) \<and> s_nonce_ok s' = s_nonce_ok u)) \<and>
      (let s' = send_once api ops s in s_events s' = s_events s @ accepted \<or> s_events s' = s_events s @ cleared \<or> stuck s')"
proof -
  have acc: "map success_event ops = map (\<lambda>op. if op_action op = Cancel then ClearLive (op_side op) (op_level op) (op_client_order_id op)
      else BindLive (op_side op) (op_level op) (op_client_order_id op) (op_exchange_id op) (op_price op) (op_size op)) ops"
    by (simp add: success_event_eq)
  have clr: "failed_creates ops = map (\<lambda>op. ClearLive (op_side op) (op_level op) (op_client_order_id op)) (filter (\<lambda>op. op_action op = Create) ops)"
    by (simp add: clear_event_def)
  have once: "let s' = send_once api ops s in s_events s' = s_events s @ map success_event ops \<or> s_events s' = s_events s @ failed_creates ops \<or>
      s_events s' = s_events s \<and> s_reconcile s' = Suc (s_reconcile s) \<and> (\<forall>t ws. \<not> fst (maybe_recover (s_risk s') t ws))"
  proof (cases rule: send_once_cases [of api ops s])
    case (sent b nm t)
    then show ?thesis using transmit_fields [of api b t]
      by (cases "tx_status (fst (transmit api b t))")
        (simp_all add: handle_result_def Let_def on_rejected_events on_unknown_simps on_not_sent_simps locked_no_recovery)
  qed simp
  have handled: "let s' = handle_result api n r ops s in
      case tx_status r of
        Ok \<Rightarrow> s_events s' = s_events s @ map success_event ops \<and> s_nonce s' = s_nonce s
      | Rejected \<Rightarrow> s_events s' = s_events s @ failed_creates ops \<and>
          (\<exists>u. (if classify_reject (reject_message r) = RateLimit
                then nonce (s_nonce u) = nonce (s_nonce s) - of_nat (length ops) \<and> s_nonce_ok u = s_nonce_ok s
                else counter_reread api s u) \<and>
               (s' = u \<or> paused_until (s_risk u) \<noteq> None \<and> s' = snd (cancel_all_and_verify api u)))
      | NotSent \<Rightarrow> s_events s' = s_events s @ failed_creates ops \<and> nonce (s_nonce s') = nonce (s_nonce s) - of_nat (length ops)
      | Unknown \<Rightarrow> s_events s' = s_events s \<and> s_reconcile s' = Suc (s_reconcile s) \<and> (\<forall>t ws. \<not> fst (maybe_recover (s_risk s') t ws)) \<and>
          (\<exists>u. counter_reread api s u \<and> s_nonce s' = s_nonce (snd (cancel_all_and_verify api u)) \<and> s_nonce_ok s' = s_nonce_ok u)"
    using on_rejected_nonce [of r s ops api n] on_unknown_nonce [of api s]
    by (cases "tx_status r")
      (simp_all add: handle_result_def Let_def on_rejected_events on_unknown_simps on_not_sent_simps locked_no_recovery rollback_def)
  show ?thesis
    using handled once unfolding Let_def acc clr by (auto split: tx_send_status.splits)
qed

section \<open>The nonce counter follows the exchange\<close>

text \<open>
  What the sender relies on from the exchange, whose next expected nonce is \<open>expected w\<close>: local
  readings do not change it, the nonce query reports it, an accepted batch advances it by the
  number of its transactions, and neither an unsent batch nor one turned away by the rate
  limiter advances it. Nothing is said about other rejections and unknown outcomes.
\<close>

definition settled :: "tx_send_status \<Rightarrow> reject_kind \<Rightarrow> nat \<Rightarrow> i64w \<Rightarrow> i64w \<Rightarrow> bool" where
  "settled st kind n e e' =
     (case st of Ok \<Rightarrow> e' = e + of_nat n | NotSent \<Rightarrow> e' = e
      | Rejected \<Rightarrow> (kind = RateLimit \<longrightarrow> e' = e) | Unknown \<Rightarrow> True)"

definition exchange_nonces :: "'w api \<Rightarrow> ('w \<Rightarrow> i64w) \<Rightarrow> bool" where
  "exchange_nonces api expected \<longleftrightarrow>
     (\<forall>w. expected (snd (a_now api w)) = expected w \<and> expected (snd (a_delays api w)) = expected w \<and>
        expected (snd (a_halt api w)) = expected w) \<and>
     (\<forall>a k w. expected (snd (a_next_nonce api a k w)) = expected w \<and>
        (case fst (a_next_nonce api a k w) of None \<Rightarrow> True | Some n \<Rightarrow> n = expected w)) \<and>
     (\<forall>ts is w. case a_send_batch api ts is w of
        (r, w') \<Rightarrow> settled (tx_status r) (classify_reject (reject_message r)) (length ts) (expected w) (expected w')) \<and>
     (\<forall>t i w. case a_send_tx api t i w of
        (Inl _, w') \<Rightarrow> True
      | (Inr r, w') \<Rightarrow> settled (if resp_code r = 0 \<or> resp_code r = 200 then Ok else Rejected)
           (classify_reject (if trim (resp_message r) = [] then ''code='' @ show_int (resp_code r) else resp_message r))
           1 (expected w) (expected w'))"

definition in_sync :: "('w \<Rightarrow> i64w) \<Rightarrow> 'w sender \<Rightarrow> bool" where
  "in_sync expected s \<longleftrightarrow> nonce (s_nonce s) + 1 = expected (s_world s)"

lemma transmit_settled:
  assumes "exchange_nonces api expected" "length (sb_tx_types b) = n"
  shows "settled (tx_status (fst (transmit api b s))) (classify_reject (reject_message (fst (transmit api b s)))) n
    (expected (s_world s)) (expected (s_world (snd (transmit api b s))))"
proof (cases "(case derived_quota (s_derived s) of None \<Rightarrow> False | Some q \<Rightarrow> q \<le> 0) \<and> n = 1")
  case False
  then have "transmit api b s = ask_world (a_send_batch api (sb_tx_types b) (sb_tx_infos b)) s"
    using assms(2) by (auto simp: transmit_def Let_def)
  with assms show ?thesis by (auto simp: exchange_nonces_def case_prod_beta)
next
  case True
  obtain r w where rw: "a_send_tx api (sb_tx_types b ! 0) (sb_tx_infos b ! 0) (s_world s) = (r, w)" by fastforce
  note law = assms(1) [unfolded exchange_nonces_def, THEN conjunct2, THEN conjunct2, THEN conjunct2,
    THEN spec [of _ "sb_tx_types b ! 0"], THEN spec [of _ "sb_tx_infos b ! 0"], THEN spec [of _ "s_world s"], unfolded rw]
  from law True rw assms(2) show ?thesis
    by (cases r) (auto simp: transmit_def reject_message_def settled_def unknown_def)
qed

lemma resync_in_sync:
  assumes "exchange_nonces api expected"
  shows "fst (resync_nonce_or_pause api s) \<Longrightarrow> in_sync expected (snd (resync_nonce_or_pause api s))"
proof -
  have "fst (resync_attempts api k t) \<Longrightarrow> in_sync expected (snd (resync_attempts api k t))" for k t
  proof (induction k arbitrary: t)
    case (Suc k)
    have "fst (refresh_nonce api t) \<Longrightarrow> in_sync expected (snd (refresh_nonce api t)\<lparr>s_nonce_ok := True\<rparr>)"
      using assms by (auto simp: exchange_nonces_def refresh_nonce_def hard_refresh_def in_sync_def case_prod_beta Let_def split: option.splits)
    then show ?case using Suc by (auto simp: case_prod_beta split: if_splits)
  qed simp
  then show "fst (resync_nonce_or_pause api s) \<Longrightarrow> in_sync expected (snd (resync_nonce_or_pause api s))"
    by (auto simp: resync_nonce_or_pause_def case_prod_beta split: if_splits)
qed

definition sync_or_paused :: "('w \<Rightarrow> i64w) \<Rightarrow> 'w sender \<Rightarrow> bool" where
  "sync_or_paused expected s \<longleftrightarrow> in_sync expected s \<or> paused_until (s_risk s) \<noteq> None"

lemma sync_or_paused_frame [simp]:
  "sync_or_paused expected (force_reconcile s) = sync_or_paused expected s"
  "sync_or_paused expected (clear_failed_creates ops s) = sync_or_paused expected s"
  "sync_or_paused expected (emit es s) = sync_or_paused expected s"
  by (simp_all add: sync_or_paused_def in_sync_def)

lemma resync_safe:
  assumes "exchange_nonces api expected"
  shows "sync_or_paused expected (snd (resync_nonce_or_pause api s))"
  using resync_in_sync [OF assms, of s] by (cases "fst (resync_nonce_or_pause api s)") (auto simp: sync_or_paused_def locked_def dest: resync_frame(5))

lemma now_expected: "exchange_nonces api expected \<Longrightarrow> expected (snd (a_now api w)) = expected w"
  by (simp add: exchange_nonces_def)

lemma nonce_rollback [simp]: "nonce (rollback nm n) = nonce nm - of_nat n"
  by (simp add: rollback_def)

lemma correct_nonce_safe:
  assumes "exchange_nonces api expected"
    and "kind = RateLimit \<longrightarrow> nonce (s_nonce s) - of_nat n + 1 = expected (s_world s)"
  shows "sync_or_paused expected (correct_nonce api n kind s)"
  using assms resync_safe [OF assms(1)]
  by (cases kind) (simp_all add: correct_nonce_def sync_or_paused_def in_sync_def now_expected)

lemma on_rejected_safe:
  assumes "exchange_nonces api expected"
    and "classify_reject (reject_message r) = RateLimit \<longrightarrow> nonce (s_nonce s) - of_nat (length ops) + 1 = expected (s_world s)"
  shows "sync_or_paused expected (on_rejected api n r ops s)"
proof -
  let ?now = "\<lambda>t. t\<lparr>s_world := snd (a_now api (s_world t))\<rparr>"
  let ?s1 = "?now s\<lparr>s_rate := record_ops_sent_at (s_rate s) n (fst (a_now api (s_world s)))\<rparr>"
  let ?s3 = "?now ?s1\<lparr>s_risk := record_rejection (s_risk s) (fst (a_now api (s_world ?s1)))
      (show_kind (classify_reject (reject_message r)) @ '':'' @ reject_message r)\<rparr>"
  let ?s4 = "clear_failed_creates ops (correct_nonce api (length ops) (classify_reject (reject_message r)) ?s3)"
  have "sync_or_paused expected ?s4"
    using assms by (simp add: correct_nonce_safe now_expected)
  then have s5: "sync_or_paused expected (?now ?s4)"
    using now_expected [OF assms(1)] by (simp add: sync_or_paused_def in_sync_def)
  have "on_rejected api n r ops s =
      (if is_paused (s_risk ?s4) (fst (a_now api (s_world ?s4))) then snd (cancel_all_and_verify api (?now ?s4)) else ?now ?s4)"
    by (simp add: on_rejected_def Let_def)
  then show ?thesis using s5 cancel_all_frame [of api "?now ?s4"]
    by (auto simp: sync_or_paused_def is_paused_def split: option.splits)
qed

lemma pass_gate_expected:
  "exchange_nonces api expected \<Longrightarrow> expected (s_world (snd (pass_gate api ops s))) = expected (s_world s)"
  by (auto simp: pass_gate_def Let_def case_prod_beta exchange_nonces_def)

text \<open>
  C2. The counter never runs ahead of the exchange while trading. Whatever happens to a batch
  (dropped, aborted by the signer, accepted, rejected with any class, unsent, unknown), a sender
  whose counter agreed with the exchange before still agrees with it after, or a pause is armed.
  The exchange is assumed only to report its nonce truthfully, to advance it by an accepted batch
  and to keep it on an unsent or rate-limited one.
\<close>

theorem nonce_in_sync_unless_paused:
  assumes ex: "exchange_nonces api expected" and sync: "in_sync expected s"
  shows "in_sync expected (send_once api ops s) \<or> paused_until (s_risk (send_once api ops s)) \<noteq> None"
proof (cases rule: send_once_cases [of api ops s])
  case dropped
  then show ?thesis using sync by (simp add: in_sync_def pass_gate_expected [OF ex])
next
  case (sent b nm t)
  let ?r = "fst (transmit api b t)" and ?u = "snd (transmit api b t)"
  from sign_loop_spec [OF sent(1) [unfolded sign_batch_def]]
  have nm: "nonce nm = nonce (s_nonce s) + of_nat (length ops)" and len: "length (sb_tx_types b) = length ops" by auto
  have w: "expected (s_world t) = expected (s_world s)" using sent(3) pass_gate_expected [OF ex] by simp
  have "nonce (s_nonce s) = expected (s_world s) - 1" using sync by (simp only: in_sync_def eq_diff_eq)
  then have n: "nonce (s_nonce ?u) = expected (s_world t) - 1 + of_nat (length ops)" using nm sent(3) w by simp
  note st = transmit_settled [OF ex len, of t]
  have "sync_or_paused expected (handle_result api (length ops) ?r ops ?u)"
  proof (cases "tx_status ?r")
    case Ok
    then have "in_sync expected (on_ok api (length ops) ?r ops ?u)"
      using st n by (simp add: in_sync_def settled_def on_ok_def Let_def now_expected [OF ex] split: option.split)
    then show ?thesis using Ok by (simp add: handle_result_def sync_or_paused_def)
  next
    case Rejected
    then show ?thesis using st n on_rejected_safe [OF ex] by (auto simp: handle_result_def settled_def)
  next
    case NotSent
    then show ?thesis using st n
      by (simp add: handle_result_def settled_def on_not_sent_def sync_or_paused_def in_sync_def)
  next
    case Unknown
    then show ?thesis using on_unknown_simps(3) [of api ?u] by (simp add: handle_result_def sync_or_paused_def locked_def)
  qed
  then show ?thesis using sent(4) by (simp add: sync_or_paused_def)
qed

text \<open>An exchange that accepts everything, its world being the nonce it expects.\<close>

definition accepting_api :: "i64w api" where
  "accepting_api =
     \<lparr>a_now = (\<lambda>w. (0, w)), a_now_ms = (\<lambda>w. (0, w)), a_delays = (\<lambda>w. (\<lambda>_. 1, w)), a_halt = (\<lambda>w. (False, w)),
      a_next_nonce = (\<lambda>a k w. (Some w, w)), a_signer = (\<lambda>_. Inr \<lparr>st_type = 14, st_info = ''tx''\<rparr>),
      a_sign_cancel_all = (\<lambda>tif t n k. Inr \<lparr>st_type = 16, st_info = ''ca''\<rparr>),
      a_send_tx = (\<lambda>t i w. (Inr \<lparr>resp_code = 200, resp_message = [], volume_quota_remaining = None\<rparr>, w + 1)),
      a_send_batch = (\<lambda>ts is w. (\<lparr>tx_status = Ok, tx_code = 200, tx_message = [], tx_quota_remaining = None\<rparr>, w + of_nat (length ts))),
      a_tx_connect = (\<lambda>_ w. (True, w)), a_auth_token = (\<lambda>w. (Some ''token'', w)), a_active_orders = (\<lambda>a m t w. (Some [], w))\<rparr>"

definition sample_sender :: "'w \<Rightarrow> i64w \<Rightarrow> 'w sender" where
  "sample_sender w n =
     \<lparr>s_nonce = \<lparr>nm_account_index = 1, nm_api_key_index = 2, nonce = n\<rparr>, s_nonce_ok = True, s_risk = risk_new 3 60,
      s_derived = derived_new,
      s_rate = limiter_new 8 (1 / 10),
      s_market = \<lparr>market_id = 1, mc_symbol = ''BTC'', price_tick = 1, amount_tick = 1, min_base_amount = 1,
        min_quote_amount = 1, price_decimals = 0, size_decimals = 0\<rparr>,
      s_account_index = 1, s_events = [], s_pnl = None, s_reconcile = 0, s_world = w\<rparr>"

definition sample_create :: batch_op where
  "sample_create = \<lparr>op_side = Buy, op_level = 0, op_action = Create, op_price = 100, op_size = 1,
     op_client_order_id = 5, op_exchange_id = None, op_reduce_only = False\<rparr>"

theorem nonce_in_sync_unless_paused_witness:
  "exchange_nonces accepting_api id \<and> in_sync id (sample_sender 8 7) \<and>
   in_sync id (send_once accepting_api [sample_create] (sample_sender 8 7))"
proof -
  let ?s = "sample_sender 8 7 :: i64w sender"
  have ex: "exchange_nonces accepting_api id"
    by (simp add: exchange_nonces_def accepting_api_def settled_def)
  have sync: "in_sync id ?s" by (simp add: in_sync_def sample_sender_def)
  have "tx_status (fst (transmit accepting_api b t)) = Ok" for b t
    by (simp add: transmit_def accepting_api_def Let_def)
  then have "paused_until (s_risk (send_once accepting_api [sample_create] ?s)) = None"
    by (cases rule: send_once_cases [of accepting_api "[sample_create]" ?s])
      (simp_all add: handle_result_def record_success_def sample_sender_def risk_new_def)
  with ex sync nonce_in_sync_unless_paused [OF ex sync, of "[sample_create]"] show ?thesis by blast
qed

section \<open>The gates of the sender loop\<close>

text \<open>
  C35. A blocked sender sends nothing. When the wake-up finds the halt flag set, the nonce
  untrusted, or the breaker refusing recovery, a batch with a create or modify is not signed and
  not transmitted: the result does not depend on the signer or on either transport, no nonce is
  consumed, and (unless halting) the creates are reported cleared so they can be retried.
\<close>

theorem blocked_sender_sends_nothing:
  assumes clock: "a_now_ms api (s_world s) = (ms, w1)" "a_now api w1 = (t, w2)" "a_halt api w2 = (halted, w3)"
    and ops: "\<not> cancel_only ops"
    and blocked: "halted \<or> \<not> s_nonce_ok s \<or>
      \<not> fst (maybe_recover (s_risk s) t (md_age_ms (s_derived s) ms < MD_HEALTH_MS))"
  shows "sender_wake (api\<lparr>a_signer := sg, a_send_batch := sb, a_send_tx := st, a_sign_cancel_all := sc\<rparr>) (Some ops) s =
           sender_wake api (Some ops) s \<and>
         s_nonce (sender_wake api (Some ops) s) = s_nonce s \<and> s_world (sender_wake api (Some ops) s) = w3 \<and>
         s_events (sender_wake api (Some ops) s) = s_events s @ (if halted then [] else failed_creates ops)"
proof -
  have "ops \<noteq> []" using ops by (auto simp: cancel_only_def)
  then show ?thesis using clock ops blocked by (auto simp: sender_wake_def Let_def case_prod_beta)
qed

theorem blocked_sender_sends_nothing_witness:
  "s_events (sender_wake accepting_api (Some [sample_create]) ((sample_sender 8 7)\<lparr>s_nonce_ok := False\<rparr>)) = [ClearLive Buy 0 5]"
proof -
  have "\<not> cancel_only [sample_create]" by (simp add: cancel_only_def sample_create_def)
  from blocked_sender_sends_nothing [of accepting_api "(sample_sender 8 7)\<lparr>s_nonce_ok := False\<rparr>" 0 8 0 8 False 8, OF _ _ _ this]
  show ?thesis by (simp add: accepting_api_def sample_sender_def sample_create_def clear_event_def)
qed

section \<open>Cancel-all\<close>

text \<open>
  An exchange whose open orders are \<open>opn w\<close>: the query answers with them, and neither it nor the
  token changes them.
\<close>

definition honest_orders :: "'w api \<Rightarrow> ('w \<Rightarrow> remote_order list) \<Rightarrow> bool" where
  "honest_orders api opn \<longleftrightarrow>
     (\<forall>w. opn (snd (a_auth_token api w)) = opn w) \<and>
     (\<forall>a m t w. opn (snd (a_active_orders api a m t w)) = opn w \<and>
        fst (a_active_orders api a m t w) \<in> {None, Some (opn w)})"

lemma fetch_honest:
  assumes "honest_orders api opn"
  shows "opn (s_world (snd (fetch_active_orders api s))) = opn (s_world s)"
    and "fst (fetch_active_orders api s) = Some os \<Longrightarrow> os = opn (s_world s)"
proof -
  note token = assms [unfolded honest_orders_def, THEN conjunct1, THEN spec]
    and query = assms [unfolded honest_orders_def, THEN conjunct2, rule_format]
  show "opn (s_world (snd (fetch_active_orders api s))) = opn (s_world s)"
    by (simp add: fetch_active_orders_def Let_def token query split: option.split)
  show "os = opn (s_world s)" if "fst (fetch_active_orders api s) = Some os"
  proof (cases "fst (a_auth_token api (s_world s))")
    case (Some t)
    then show ?thesis using that query [of "s_account_index s" "market_id (s_market s)" t "snd (a_auth_token api (s_world s))"] token
      by (auto simp: fetch_active_orders_def Let_def)
  qed (use that in \<open>simp add: fetch_active_orders_def Let_def\<close>)
qed

lemma cancel_all_attempts_flat:
  assumes "honest_orders api opn"
  shows "fst (cancel_all_attempts api k s) \<Longrightarrow> opn (s_world (snd (cancel_all_attempts api k s))) = []"
  by (induction k arbitrary: s) (auto simp: case_prod_beta Let_def fetch_honest [OF assms] split: if_splits dest: fetch_honest(2) [OF assms])

lemma flat_when_reported:
  "honest_orders api opn \<Longrightarrow> fst (cancel_all_and_verify api s) \<Longrightarrow> opn (s_world (snd (cancel_all_and_verify api s))) = []"
  unfolding cancel_all_and_verify_def by (rule cancel_all_attempts_flat)

lemma reported_when_flat:
  assumes "honest_orders api opn" "fst (cancel_all_orders api s)" "opn (s_world (snd (cancel_all_orders api s))) = []"
    and "fst (fetch_active_orders api (snd (cancel_all_orders api s))) \<noteq> None"
  shows "fst (cancel_all_and_verify api s)"
proof -
  have "fst (fetch_active_orders api (snd (cancel_all_orders api s))) = Some []"
    using assms(3,4) fetch_honest(2) [OF assms(1), of "snd (cancel_all_orders api s)"] by auto
  then have "fst (cancel_all_attempts api (Suc k) s)" for k using assms(2) by (simp add: case_prod_beta Let_def)
  from this [of 4] show ?thesis by (simp add: cancel_all_and_verify_def)
qed

text \<open>
  C36. Cancel-all reports a flat book only when the book is flat, and it does report it when the
  exchange cooperates: on an exchange that answers the open-order query truthfully, a returned
  \<open>true\<close> means no order is open, and if the first cancel-all is signed, accepted and empties the
  book, and the query answers, it returns \<open>true\<close>. It touches only the nonce counter.
\<close>

theorem cancel_all_verified:
  assumes honest: "honest_orders api opn"
  shows "(fst (cancel_all_and_verify api s) \<longrightarrow> opn (s_world (snd (cancel_all_and_verify api s))) = []) \<and>
    (fst (cancel_all_orders api s) \<and> opn (s_world (snd (cancel_all_orders api s))) = [] \<and>
       fst (fetch_active_orders api (snd (cancel_all_orders api s))) \<noteq> None \<longrightarrow> fst (cancel_all_and_verify api s)) \<and>
    control (snd (cancel_all_and_verify api s)) = control s"
  using flat_when_reported [OF honest] reported_when_flat [OF honest] control_cancel_all_attempts
  unfolding cancel_all_and_verify_def by blast

theorem cancel_all_verified_witness:
  "fst (cancel_all_and_verify accepting_api (sample_sender 8 7))"
proof -
  have "honest_orders accepting_api (\<lambda>_. [])" by (simp add: honest_orders_def accepting_api_def)
  from cancel_all_verified [OF this, of "sample_sender 8 7"] show ?thesis
    by (simp add: cancel_all_orders_def fetch_active_orders_def accepting_api_def next_nonce_def Let_def)
qed

text \<open>
  A cancel-all whose transmissions and nonce queries all fail keeps the nonces it reserved:
  the counter ends five ahead, the refresh errors are discarded and the flag that marks the
  nonce as trusted is left as it was.
\<close>

theorem failed_cancel_all_keeps_nonces:
  assumes "\<forall>n k. \<exists>tx. a_sign_cancel_all api CANCEL_ALL_TIF_IMMEDIATE 0 n k = Inr tx"
    and "\<forall>t i w. \<exists>e w'. a_send_tx api t i w = (Inl e, w')"
    and "\<forall>a k w. fst (a_next_nonce api a k w) = None"
    and "\<forall>a m t w. fst (a_active_orders api a m t w) = None"
  shows "\<not> fst (cancel_all_and_verify api s) \<and>
    nonce (s_nonce (snd (cancel_all_and_verify api s))) = nonce (s_nonce s) + 5 \<and>
    s_nonce_ok (snd (cancel_all_and_verify api s)) = s_nonce_ok s"
proof -
  have cancel: "\<not> fst (cancel_all_orders api s)" "s_nonce (snd (cancel_all_orders api s)) = snd (next_nonce (s_nonce s))" for s
    using assms(1) [rule_format, of "fst (next_nonce (s_nonce s))" "nm_api_key_index (snd (next_nonce (s_nonce s)))"] assms(2)
    by (auto simp: cancel_all_orders_def case_prod_beta Let_def split: sum.split) (metis Inr_not_Inl fst_conv)+
  have refresh: "s_nonce (snd (refresh_nonce api s)) = s_nonce s" for s
    using assms(3) by (simp add: refresh_nonce_def hard_refresh_def case_prod_beta Let_def)
  have fetch: "fst (fetch_active_orders api s) = None" "s_nonce (snd (fetch_active_orders api s)) = s_nonce s" for s
    using assms(4) by (auto simp: fetch_active_orders_def Let_def split: option.split)
  have "\<not> fst (cancel_all_attempts api k s) \<and> nonce (s_nonce (snd (cancel_all_attempts api k s))) = nonce (s_nonce s) + of_nat k" for k
    by (induction k arbitrary: s) (simp_all add: case_prod_beta Let_def cancel refresh fetch next_nonce_def)
  from this [of 5] show ?thesis by (simp add: cancel_all_and_verify_def [symmetric])
qed

theorem failed_cancel_all_keeps_nonces_witness:
  "let api = accepting_api\<lparr>a_send_tx := (\<lambda>t i w. (Inl ''down'', w)), a_next_nonce := (\<lambda>a k w. (None, w)),
      a_active_orders := (\<lambda>a m t w. (None, w))\<rparr>;
       s' = snd (cancel_all_and_verify api (sample_sender 8 7))
   in nonce (s_nonce s') = 12 \<and> s_world s' = 8 \<and> s_nonce_ok s'"
proof -
  let ?api = "accepting_api\<lparr>a_send_tx := (\<lambda>t i w. (Inl ''down'', w)), a_next_nonce := (\<lambda>a k w. (None, w)),
      a_active_orders := (\<lambda>a m t w. (None, w))\<rparr>"
  have w: "s_world (snd (cancel_all_attempts ?api k s)) = s_world s" for k s
    by (induction k arbitrary: s)
      (simp_all add: case_prod_beta Let_def cancel_all_orders_def refresh_nonce_def fetch_active_orders_def accepting_api_def)
  from failed_cancel_all_keeps_nonces [of ?api "sample_sender 8 7"] w [of 5 "sample_sender 8 7"] show ?thesis
    by (simp add: accepting_api_def sample_sender_def cancel_all_and_verify_def)
qed

end
