(* ===== verification/Instance_Lock.thy ===== *)
theory Instance_Lock
  imports Paced_Send
begin

text \<open>
  \<^verbatim>\<open>src/src/exec/instance_lock.rs\<close> (the unix branch): the exclusive lock a live run takes on a file
  named after its account and API key before it touches the nonce. The file system and \<open>flock\<close>
  are the record \<open>lock_os\<close> of functions on their state; what the guard relies on from them is
  the predicate \<open>exclusive\<close>, the documented meaning of \<open>LOCK_EX | LOCK_NB\<close>. The source has no code that
  releases the lock: the operating system does when the process ends, so the runs considered here
  are alive together. The Windows variant of \<open>open_locked\<close> is not modelled.
\<close>

section \<open>The guard\<close>

datatype flock_result = Granted | Would_Block | Flock_Failed

record 'o lock_os =
  lo_open :: "string \<Rightarrow> 'o \<Rightarrow> bool \<times> 'o" \<comment> \<open>\<open>OpenOptions::open\<close>\<close>
  lo_flock :: "string \<Rightarrow> 'o \<Rightarrow> flock_result \<times> 'o"
  lo_read :: "string \<Rightarrow> 'o \<Rightarrow> string option"
  lo_stamp :: "string \<Rightarrow> string \<Rightarrow> 'o \<Rightarrow> 'o" \<comment> \<open>best-effort truncate and write\<close>

datatype lock_error = Lock_Open_Failed | Already_Running string | Lock_Io

definition lock_path :: "string \<Rightarrow> int \<Rightarrow> int \<Rightarrow> string" where
  "lock_path tmp account key = tmp @ ''/lighter-mm-acct'' @ show_int account @ ''-key'' @ show_int key @ ''.lock''"

definition open_locked :: "'o lock_os \<Rightarrow> string \<Rightarrow> 'o \<Rightarrow> (lock_error + unit) \<times> 'o" where
  "open_locked os path o' =
     (let (opened, o1) = lo_open os path o'
      in if \<not> opened then (Inl Lock_Open_Failed, o1)
         else let (r, o2) = lo_flock os path o1
              in ((case r of
                     Granted \<Rightarrow> Inr ()
                   | Would_Block \<Rightarrow>
                       (let other = (case lo_read os path o2 of None \<Rightarrow> [] | Some x \<Rightarrow> x)
                        in Inl (Already_Running (if trim other = [] then ''lock '' @ path
                                                 else ''lock '' @ path @ '', held by pid '' @ trim other)))
                   | Flock_Failed \<Rightarrow> Inl Lock_Io), o2))"

definition acquire :: "'o lock_os \<Rightarrow> string \<Rightarrow> nat \<Rightarrow> int \<Rightarrow> int \<Rightarrow> 'o \<Rightarrow> (lock_error + unit) \<times> 'o" where
  "acquire os tmp pid account key o' =
     (let path = lock_path tmp account key; (r, o1) = open_locked os path o'
      in case r of Inl e \<Rightarrow> (Inl e, o1) | Inr _ \<Rightarrow> (Inr (), lo_stamp os path (show_nat pid @ [CHR 10]) o1))"

section \<open>The file name determines the account and the key\<close>

lemma show_nat_chars: "c \<in> set (show_nat n) \<Longrightarrow> 48 \<le> (of_char c :: nat) \<and> (of_char c :: nat) < 58"
proof (induction n rule: show_nat.induct)
  case (1 n)
  then show ?case by (cases "n < 10") (auto simp: show_nat.simps [of n] of_char_of take_bit_eq_mod)
qed

definition read_digits :: "string \<Rightarrow> nat" where
  "read_digits s = foldl (\<lambda>a c. 10 * a + (of_char c - 48)) 0 s"

lemma read_show_nat [simp]: "read_digits (show_nat n) = n"
proof (induction n rule: show_nat.induct)
  case (1 n)
  show ?case
  proof (cases "n < 10")
    case False
    then show ?thesis using 1 by (simp add: show_nat.simps [of n] read_digits_def of_char_of take_bit_eq_mod)
  qed (simp add: show_nat.simps [of n] read_digits_def of_char_of take_bit_eq_mod)
qed

lemma show_nat_inject [simp]: "show_nat m = show_nat n \<longleftrightarrow> m = n"
  by (metis read_show_nat)

lemma show_nat_no_sign: "show_nat n \<noteq> CHR ''-'' # xs" "CHR ''-'' # xs \<noteq> show_nat n"
  using show_nat_chars [of "CHR ''-''" n] list.set_intros(1) [of "CHR ''-''" xs] by force+

lemma show_int_inject [simp]: "show_int i = show_int j \<longleftrightarrow> i = j"
  by (auto simp: show_int_def show_nat_no_sign)

lemma show_int_no_k: "CHR ''k'' \<notin> set (show_int i)"
  using show_nat_chars [of "CHR ''k''" "nat i"] show_nat_chars [of "CHR ''k''" "nat (- i)"] by (auto simp: show_int_def)

lemma lock_path_inject: "lock_path tmp a k = lock_path tmp a' k' \<longleftrightarrow> a = a' \<and> k = k'"
proof
  assume eq: "lock_path tmp a k = lock_path tmp a' k'"
  let ?cut = "takeWhile (\<lambda>c. c \<noteq> CHR ''k'')"
  have cut: "?cut (show_int i @ ''-key'' @ xs) = show_int i @ ''-''" for i xs
    using show_int_no_k [of i] by (subst takeWhile_append2) auto
  from eq have tails: "show_int a @ ''-key'' @ show_int k @ ''.lock'' = show_int a' @ ''-key'' @ show_int k' @ ''.lock''"
    by (simp add: lock_path_def)
  from arg_cong [OF this, of ?cut] have "a = a'" unfolding cut by simp
  with tails show "a = a' \<and> k = k'" by simp
qed simp

section \<open>One instance per account and key\<close>

text \<open>
  \<open>held o path\<close>: some process holds the lock. Opening and stamping a file leave every lock as it
  is, and \<open>flock\<close> grants a lock only when it is free, after which it is held.
\<close>

definition exclusive :: "'o lock_os \<Rightarrow> ('o \<Rightarrow> string \<Rightarrow> bool) \<Rightarrow> bool" where
  "exclusive os held \<longleftrightarrow>
     (\<forall>p o'. held (snd (lo_open os p o')) = held o') \<and> (\<forall>p s o'. held (lo_stamp os p s o') = held o') \<and>
     (\<forall>p o'. case lo_flock os p o' of
        (Granted, o1) \<Rightarrow> \<not> held o' p \<and> held o1 = (held o')(p := True)
      | (_, o1) \<Rightarrow> held o1 = held o')"

lemma acquire_exclusive:
  assumes "exclusive os held"
  shows "(case acquire os tmp pid a k o' of
      (Inr _, o1) \<Rightarrow> \<not> held o' (lock_path tmp a k) \<and> held o1 = (held o')(lock_path tmp a k := True)
    | (Inl _, o1) \<Rightarrow> held o1 = held o')"
proof -
  note opn = assms [unfolded exclusive_def, THEN conjunct1, rule_format]
    and stamp = assms [unfolded exclusive_def, THEN conjunct2, THEN conjunct1, rule_format]
    and flock = assms [unfolded exclusive_def, THEN conjunct2, THEN conjunct2, THEN spec [of _ "lock_path tmp a k"], THEN spec]
  obtain b o1 where o1: "lo_open os (lock_path tmp a k) o' = (b, o1)" by fastforce
  obtain r o2 where o2: "lo_flock os (lock_path tmp a k) o1 = (r, o2)" by fastforce
  have "held o1 = held o'" using opn [of "lock_path tmp a k" o'] o1 by simp
  then show ?thesis using flock [of o1] o1 o2
    by (cases b; cases r) (simp_all add: acquire_def open_locked_def Let_def stamp)
qed

text \<open>The processes that start one after the other on one host, and the pairs whose lock was granted.\<close>

fun start_all :: "'o lock_os \<Rightarrow> string \<Rightarrow> (nat \<times> int \<times> int) list \<Rightarrow> 'o \<Rightarrow> (int \<times> int) list" where
  "start_all os tmp [] o' = []"
| "start_all os tmp ((pid, a, k) # rs) o' =
     (case acquire os tmp pid a k o' of
        (Inl _, o1) \<Rightarrow> start_all os tmp rs o1
      | (Inr _, o1) \<Rightarrow> (a, k) # start_all os tmp rs o1)"

lemma start_all_free:
  "(a, k) \<in> set (start_all os tmp rs o') \<Longrightarrow> exclusive os held \<Longrightarrow> \<not> held o' (lock_path tmp a k)"
proof (induction os tmp rs o' rule: start_all.induct)
  case (2 os tmp pid b l rs o')
  obtain r o1 where r: "acquire os tmp pid b l o' = (r, o1)" by fastforce
  with acquire_exclusive [OF 2(4), where tmp = tmp and pid = pid and a = b and k = l and o' = o'] 2 show ?case by (cases r) (auto split: if_splits)
qed simp

text \<open>
  C29. Two live runs on one host never share an account and key: however many processes start,
  for any pairs and in any order, no pair is granted twice, because the lock file's name
  determines the account and the key and the lock is exclusive. A start is refused as already
  running only when \<open>flock\<close> found the lock of that very pair taken.
\<close>

theorem single_instance:
  assumes ex: "exclusive os held"
  shows "distinct (start_all os tmp rs o') \<and> (lock_path tmp a k = lock_path tmp a' k' \<longleftrightarrow> a = a' \<and> k = k') \<and>
    (fst (acquire os tmp pid a k o') = Inl (Already_Running why) \<longrightarrow>
       fst (lo_flock os (lock_path tmp a k) (snd (lo_open os (lock_path tmp a k) o'))) = Would_Block)"
proof (intro conjI impI)
  show "distinct (start_all os tmp rs o')" using ex
  proof (induction os tmp rs o' rule: start_all.induct)
    case (2 os tmp pid b l rs o')
    obtain r o1 where r: "acquire os tmp pid b l o' = (r, o1)" by fastforce
    with acquire_exclusive [OF 2(3), where tmp = tmp and pid = pid and a = b and k = l and o' = o'] 2 start_all_free [of b l os tmp rs o1 held] show ?case
      by (cases r) auto
  qed simp
  show "lock_path tmp a k = lock_path tmp a' k' \<longleftrightarrow> a = a' \<and> k = k'" by (rule lock_path_inject)
  assume "fst (acquire os tmp pid a k o') = Inl (Already_Running why)"
  then show "fst (lo_flock os (lock_path tmp a k) (snd (lo_open os (lock_path tmp a k) o'))) = Would_Block"
    by (auto simp: acquire_def open_locked_def case_prod_beta Let_def split: if_splits flock_result.splits sum.splits)
qed

text \<open>A file system that keeps the set of the held locks.\<close>

definition set_locks :: "string set lock_os" where
  "set_locks = \<lparr>lo_open = (\<lambda>p o'. (True, o')), lo_flock = (\<lambda>p o'. if p \<in> o' then (Would_Block, o') else (Granted, insert p o')),
     lo_read = (\<lambda>p o'. None), lo_stamp = (\<lambda>p s o'. o')\<rparr>"

theorem single_instance_witness:
  "exclusive set_locks (\<lambda>o' p. p \<in> o') \<and> start_all set_locks ''/tmp'' [(10, 7, 0), (11, 7, 1), (12, 7, 0)] {} = [(7, 0), (7, 1)]"
proof -
  have ex: "exclusive set_locks (\<lambda>o' p. p \<in> o')" by (auto simp: exclusive_def set_locks_def fun_eq_iff)
  have flock: "acquire set_locks tmp pid a k o' = (if lock_path tmp a k \<in> o' then (Inl (Already_Running (''lock '' @ lock_path tmp a k)), o')
     else (Inr (), insert (lock_path tmp a k) o'))" for tmp pid a k o'
    by (simp add: acquire_def open_locked_def set_locks_def trim_def Let_def)
  from single_instance [OF ex] have "lock_path tmp a k = lock_path tmp a' k' \<longleftrightarrow> a = a' \<and> k = k'" for tmp a k a' k' by blast
  with ex show ?thesis by (simp add: flock)
qed

end
