(* ===== verification/Cold_Tasks.thy ===== *)
theory Cold_Tasks
  imports Instance_Lock Config
begin

text \<open>
  The cold tasks of \<^verbatim>\<open>src/src/orchestrator.rs\<close> around the sender: the reconcile poller with its
  dead-man switch and orphan cancellation, the handlers of the three account channels, and the
  live start-up and shutdown sequences. They share the sender's cells (nonce counter, breaker,
  derived parameters, event queue), so their state extends the record \<open>sender\<close>; the SDK lock
  makes each use of the nonce atomic and the model runs them one after the other. A timer or a
  wake-up is one call of \<open>poll_once\<close>. It is one step here; in the source other tasks may run while the
  poller waits for the exchange, between the dead-man check, the fetch and each orphan's cancel, so
  what is proved of a poll is what it does to cells no other task changes meanwhile.
\<close>

section \<open>State\<close>

record poller_cfg =
  p_max_live :: nat
  p_deadman_ms :: nat
  p_pos_fallback_ms :: nat
  p_debounce_min :: u32

record 'w cold =
  c_sender :: "'w sender"
  c_prev_orphans :: "int set"
  c_tracked_ids :: "int list" \<comment> \<open>published by the decision task\<close>
  c_reconcile_swap :: "remote_order list option" \<comment> \<open>read by the decision task\<close>
  c_shared_pos :: shared_position

text \<open>\<open>f64 as u64\<close>: truncation, saturating.\<close>

definition secs_to_ms :: "f64 \<Rightarrow> nat" where
  "secs_to_ms x = min (nat \<lfloor>x * 1000\<rfloor>) U64_MAX"

definition poller_cfg_of :: "safety \<Rightarrow> poller_cfg" where
  "poller_cfg_of sf =
     (let interval = max (stale_order_poller_interval_sec sf) 1
      in \<lparr>p_max_live = max (max_live_orders_per_market sf) 1,
          p_deadman_ms = secs_to_ms (max (md_deadman_sec sf) 1),
          p_pos_fallback_ms = secs_to_ms (2 * interval),
          p_debounce_min = max (stale_order_debounce_count sf) 1\<rparr>)"

definition on_sender :: "('w sender \<Rightarrow> 'a \<times> 'w sender) \<Rightarrow> 'w cold \<Rightarrow> 'a \<times> 'w cold" where
  "on_sender f c = (let (x, s) = f (c_sender c) in (x, c\<lparr>c_sender := s\<rparr>))"

definition upd_sender :: "('w sender \<Rightarrow> 'w sender) \<Rightarrow> 'w cold \<Rightarrow> 'w cold" where
  "upd_sender f c = c\<lparr>c_sender := f (c_sender c)\<rparr>"

section \<open>The reconcile poller\<close>

definition mark_rec :: "'w api \<Rightarrow> bool \<Rightarrow> string \<Rightarrow> 'w sender \<Rightarrow> 'w sender" where
  "mark_rec api ok why s =
     (let (t, s1) = ask_world (a_now api) s in s1\<lparr>s_risk := mark_reconcile (s_risk s1) t ok why\<rparr>)"

definition pause_now :: "'w api \<Rightarrow> string \<Rightarrow> 'w sender \<Rightarrow> 'w sender" where
  "pause_now api reason s =
     (let (t, s1) = ask_world (a_now api) s in s1\<lparr>s_risk := trigger_pause (s_risk s1) t reason\<rparr>)"

definition pause_if_streak :: "poller_cfg \<Rightarrow> 'w api \<Rightarrow> string \<Rightarrow> 'w sender \<Rightarrow> 'w sender" where
  "pause_if_streak pc api reason s =
     (let streak = mismatch_streak (s_risk s)
      in if p_debounce_min pc \<le> streak
         then pause_now api (''reconcile mismatch ('' @ reason @ '') streak='' @ show_nat (unat streak)) s
         else s)"

text \<open>The dead-man switch: park trading on a stale feed and cancel everything once per pause.\<close>

definition arm_pause :: "'w api \<Rightarrow> string \<Rightarrow> 'w sender \<Rightarrow> 'w sender" where
  "arm_pause api reason s =
     (let (t, s1) = ask_world (a_now api) s in if is_paused (s_risk s1) t then s1 else pause_now api reason s1)"

definition cancel_once :: "'w api \<Rightarrow> 'w sender \<Rightarrow> 'w sender" where
  "cancel_once api s =
     (if pause_cancel_done (s_risk s) then s
      else snd (cancel_all_and_verify api (s\<lparr>s_risk := set_pause_cancel_done (s_risk s) True\<rparr>)))"

definition deadman :: "poller_cfg \<Rightarrow> 'w api \<Rightarrow> 'w sender \<Rightarrow> 'w sender" where
  "deadman pc api s =
     (let (ms, s1) = ask_world (a_now_ms api) s;
          md_age = md_age_ms (s_derived s1) ms
      in if md_age = U64_MAX \<or> md_age \<le> p_deadman_ms pc then s1
         else cancel_once api (arm_pause api (''market data stale '' @ show_nat md_age @ ''ms'') (mark_rec api False ''md_stale'' s1)))"

text \<open>The verdict on a full snapshot.\<close>

definition orphan_ids :: "int list \<Rightarrow> remote_order list \<Rightarrow> int set" where
  "orphan_ids tracked orders = set (List.map_filter ro_client_order_index orders) - set tracked"

definition judge_snapshot :: "poller_cfg \<Rightarrow> 'w api \<Rightarrow> int list \<Rightarrow> remote_order list \<Rightarrow> 'w sender \<Rightarrow> 'w sender" where
  "judge_snapshot pc api tracked orders s =
     (if p_max_live pc < length orders
      then pause_now api (''exchange has '' @ show_nat (length orders) @ '' live orders (> '' @ show_nat (p_max_live pc) @ '')'')
             (mark_rec api False ''too_many_orders'' s)
      else if orphan_ids tracked orders = {} then mark_rec api True ''poll_ok'' s
      else pause_if_streak pc api ''orphans_present'' (mark_rec api False ''orphans_present'' s))"

text \<open>The REST position, used only when the account channel has gone quiet.\<close>

definition position_fallback ::
  "poller_cfg \<Rightarrow> 'w api \<Rightarrow> (i64w \<Rightarrow> u32 \<Rightarrow> 'w \<Rightarrow> f64 option \<times> 'w) \<Rightarrow> 'w cold \<Rightarrow> 'w cold" where
  "position_fallback pc api account_position c =
     (let (ms, c1) = on_sender (ask_world (a_now_ms api)) c;
          age = position_age_ms (c_shared_pos c1) ms
      in if age = U64_MAX \<or> p_pos_fallback_ms pc < age
         then let (r, c2) = on_sender (\<lambda>s. ask_world (account_position (s_account_index s) (market_id (s_market s))) s) c1
              in (case r of
                    None \<Rightarrow> c2
                  | Some pos \<Rightarrow> let (ms', c3) = on_sender (ask_world (a_now_ms api)) c2
                                in c3\<lparr>c_shared_pos := position_set (c_shared_pos c3) ms' pos\<rparr>)
         else c1)"

definition resync_if_untrusted :: "'w api \<Rightarrow> 'w sender \<Rightarrow> 'w sender" where
  "resync_if_untrusted api s =
     (if s_nonce_ok s then s
      else let (ok, s1) = refresh_nonce api s in if ok then s1\<lparr>s_nonce_ok := True\<rparr> else s1)"

definition refresh_or_distrust :: "'w api \<Rightarrow> 'w sender \<Rightarrow> 'w sender" where
  "refresh_or_distrust api s =
     (let (ok, s1) = refresh_nonce api s in if ok then s1 else s1\<lparr>s_nonce_ok := False\<rparr>)"

definition cancel_orphan :: "'w api \<Rightarrow> int \<Rightarrow> 'w sender \<Rightarrow> 'w sender" where
  "cancel_orphan api eid s =
     (let (n, nm) = next_nonce (s_nonce s)
      in case a_signer api (Sign_Cancel (market_id (s_market s)) eid n (nm_api_key_index nm)) of
           Inl e \<Rightarrow> s\<lparr>s_nonce := acknowledge_failure nm\<rparr>
         | Inr tx \<Rightarrow>
             let (r, s1) = ask_world (a_send_tx api (st_type tx) (st_info tx)) (s\<lparr>s_nonce := nm\<rparr>)
             in (case r of
                   Inr resp \<Rightarrow> if resp_code resp = 0 \<or> resp_code resp = 200 then s1 else refresh_or_distrust api s1
                 | Inl e \<Rightarrow> refresh_or_distrust api s1))"

text \<open>The orders the orphan loop cancels: untracked now and at the previous poll, with a known id.\<close>

definition orphan_targets :: "int list \<Rightarrow> int set \<Rightarrow> remote_order list \<Rightarrow> int list" where
  "orphan_targets tracked prev orders =
     List.map_filter (\<lambda>o'. case ro_client_order_index o' of
        None \<Rightarrow> None
      | Some cid \<Rightarrow> if cid \<notin> set tracked \<and> cid \<in> prev then ro_order_index o' else None) orders"

definition poll_once ::
  "poller_cfg \<Rightarrow> 'w api \<Rightarrow> (i64w \<Rightarrow> u32 \<Rightarrow> 'w \<Rightarrow> f64 option \<times> 'w) \<Rightarrow> 'w cold \<Rightarrow> 'w cold" where
  "poll_once pc api account_position c =
     (let c1 = upd_sender (deadman pc api) c;
          (tok, c2) = on_sender (ask_world (a_auth_token api)) c1
      in case tok of
           None \<Rightarrow> upd_sender (\<lambda>s. pause_if_streak pc api ''auth_token'' (mark_rec api False ''auth_token'' s)) c2
         | Some t \<Rightarrow>
             let (fetched, c3) = on_sender (\<lambda>s. ask_world (a_active_orders api (s_account_index s) (market_id (s_market s)) t) s) c2
             in (case fetched of
                   None \<Rightarrow> upd_sender (\<lambda>s. pause_if_streak pc api ''rest_active_orders'' (mark_rec api False ''rest_active_orders'' s)) c3
                 | Some orders \<Rightarrow>
                     let tracked = c_tracked_ids c3;
                         c4 = upd_sender (judge_snapshot pc api tracked orders) c3;
                         c5 = position_fallback pc api account_position (c4\<lparr>c_reconcile_swap := Some orders\<rparr>)
                     in if p_max_live pc < length orders
                        then (upd_sender (\<lambda>s. snd (cancel_all_and_verify api s)) c5)\<lparr>c_prev_orphans := {}\<rparr>
                        else let c6 = upd_sender (resync_if_untrusted api) c5;
                                 c7 = upd_sender (\<lambda>s. foldl (\<lambda>s eid. cancel_orphan api eid s) s
                                        (orphan_targets tracked (c_prev_orphans c6) orders)) c6
                             in c7\<lparr>c_prev_orphans := orphan_ids tracked orders\<rparr>))"

section \<open>The account channels\<close>

definition id_events :: "remote_order list \<Rightarrow> order_event list" where
  "id_events os = List.map_filter (\<lambda>o'. case (ro_client_order_index o', ro_order_index o') of
     (Some cl, Some e) \<Rightarrow> Some (IdResolved cl e) | _ \<Rightarrow> None) os"

definition on_account_orders :: "account_orders_msg \<Rightarrow> 'w cold \<Rightarrow> 'w cold" where
  "on_account_orders msg c = upd_sender (emit (concat (map (\<lambda>(_, os). id_events os) (ao_orders msg)))) c"

definition fill_events :: "(string \<Rightarrow> f64 option) \<Rightarrow> int \<Rightarrow> trade_payload \<Rightarrow> order_event list" where
  "fill_events fp acct t =
     (let sz = (case parse_opt_f64 fp (tp_size t) of None \<Rightarrow> 0 | Some x \<Rightarrow> x)
      in if sz \<le> 0 then []
         else (case (ask_account_id t = Some acct, ask_client_id t) of (True, Some cid) \<Rightarrow> [Fill cid sz] | _ \<Rightarrow> []) @
              (case (bid_account_id t = Some acct, bid_client_id t) of (True, Some cid) \<Rightarrow> [Fill cid sz] | _ \<Rightarrow> []))"

definition tell_pnl :: "pnl_event \<Rightarrow> 'w sender \<Rightarrow> 'w sender" where
  "tell_pnl e s = s\<lparr>s_pnl := map_option (\<lambda>q. q @ [e]) (s_pnl s)\<rparr>"

definition snapshot_of :: "(string \<Rightarrow> f64 option) \<Rightarrow> position_payload \<Rightarrow> position_snapshot" where
  "snapshot_of fp p = \<lparr>ps_signed_position = signed_position fp p, ps_entry_vwap = parse_opt_f64 fp (pp_avg_entry_price p)\<rparr>"

text \<open>The position (when the message has one) is stored before the fills are reported.\<close>

definition on_account_all ::
  "(string \<Rightarrow> f64 option) \<Rightarrow> string \<Rightarrow> nat \<Rightarrow> account_all_msg \<Rightarrow> 'w cold \<Rightarrow> 'w cold" where
  "on_account_all fp mkt ms msg c =
     (let position = map_option (snapshot_of fp) (map_of (aa_positions msg) mkt);
          c1 = (case position of
                  None \<Rightarrow> c
                | Some p \<Rightarrow> c\<lparr>c_shared_pos := position_set (c_shared_pos c) ms (ps_signed_position p)\<rparr>);
          trades = (case map_of (aa_trades msg) mkt of None \<Rightarrow> [] | Some ts \<Rightarrow> ts);
          c2 = upd_sender (emit (concat (map (fill_events fp (sint (s_account_index (c_sender c)))) trades))) c1
      in if position \<noteq> None \<or> trades \<noteq> [] then upd_sender (tell_pnl (AccountAll position trades)) c2 else c2)"

definition on_user_stats :: "(string \<Rightarrow> f64 option) \<Rightarrow> user_stats_msg \<Rightarrow> 'w cold \<Rightarrow> 'w cold" where
  "on_user_stats fp msg c =
     (let cap = available_capital fp (us_stats msg); pv = portfolio_value fp (us_stats msg);
          c1 = (case cap of
                  None \<Rightarrow> c
                | Some x \<Rightarrow> upd_sender (\<lambda>s. s\<lparr>s_derived := set_capital (s_derived s) x\<rparr>) c)
      in if cap \<noteq> None \<or> pv \<noteq> None then upd_sender (tell_pnl (Capital cap pv)) c1 else c1)"

section \<open>Start-up and shutdown\<close>

definition MARGIN_MODE_CROSS :: int where "MARGIN_MODE_CROSS = 0"
definition MARGIN_MODE_ISOLATED :: int where "MARGIN_MODE_ISOLATED = 1"

datatype start_error = No_Private_Key | Lock_Refused lock_error | Signer_Unusable | Nonce_Unavailable
  | Pnl_Unusable | Leverage_Sign_Failed string | Leverage_Send_Failed string
  | Leverage_Rejected int string | Book_Not_Flat

text \<open>The update-leverage transaction; the signer call is the parameter \<open>sign\<close>.\<close>

definition set_leverage ::
  "'w api \<Rightarrow> (u32 \<Rightarrow> int \<Rightarrow> int \<Rightarrow> i64w \<Rightarrow> 32 word \<Rightarrow> string + signed_tx) \<Rightarrow> trading \<Rightarrow> 'w sender
   \<Rightarrow> start_error option \<times> 'w sender" where
  "set_leverage api sign tr s =
     (if \<not> set_leverage_on_startup tr then (None, s)
      else let mm = (if eq_ignore_ascii_case (margin_mode tr) ''isolated'' then MARGIN_MODE_ISOLATED else MARGIN_MODE_CROSS);
               lev = max (leverage tr) 1;
               imf = 10000 div lev;
               (n, nm) = next_nonce (s_nonce s)
           in case sign (market_id (s_market s)) imf mm n (nm_api_key_index nm) of
                Inl e \<Rightarrow> (Some (Leverage_Sign_Failed e), s\<lparr>s_nonce := acknowledge_failure nm\<rparr>)
              | Inr tx \<Rightarrow>
                  let (r, s1) = ask_world (a_send_tx api (st_type tx) (st_info tx)) (s\<lparr>s_nonce := nm\<rparr>)
                  in (case r of
                        Inl e \<Rightarrow> (Some (Leverage_Send_Failed e), s1)
                      | Inr resp \<Rightarrow> if resp_code resp \<noteq> 0 \<and> resp_code resp \<noteq> 200
                                    then (Some (Leverage_Rejected (resp_code resp) (resp_message resp)), s1)
                                    else (None, s1)))"

text \<open>
  The gate every live run passes before its sender starts: key, instance lock, signer, nonce,
  leverage, verified flat book, PnL actor; the first failure aborts the run. The signer library
  and the actor's files are outside the program: \<open>signer_ok\<close> and \<open>pnl_ok\<close> say whether they load.
\<close>

definition live_start ::
  "'w api \<Rightarrow> 'o lock_os \<Rightarrow> string \<Rightarrow> nat \<Rightarrow> bool \<Rightarrow> (u32 \<Rightarrow> int \<Rightarrow> int \<Rightarrow> i64w \<Rightarrow> 32 word \<Rightarrow> string + signed_tx) \<Rightarrow> bool
   \<Rightarrow> config \<Rightarrow> credentials \<Rightarrow> 'w sender \<Rightarrow> 'o \<Rightarrow> start_error option \<times> 'w sender \<times> 'o" where
  "live_start api locks tmp pid signer_ok sign pnl_ok cfg creds s o' =
     (let acct = word_of_int (cr_account_index creds); key = word_of_int (cr_api_key_index creds)
      in if api_key_private_key creds = [] then (Some No_Private_Key, s, o')
         else case acquire locks tmp pid (cr_account_index creds) (cr_api_key_index creds) o' of
           (Inl e, o1) \<Rightarrow> (Some (Lock_Refused e), s, o1)
         | (Inr _, o1) \<Rightarrow>
             if \<not> signer_ok then (Some Signer_Unusable, s, o1)
             else let (n, s1) = ask_world (a_next_nonce api acct key) s
                  in case nonce_init (\<lambda>_ _. n) acct key of
                       None \<Rightarrow> (Some Nonce_Unavailable, s1, o1)
                     | Some nm \<Rightarrow>
                         (case set_leverage api sign (cfg_trading cfg) (s1\<lparr>s_nonce := nm, s_account_index := acct\<rparr>) of
                            (Some e, s2) \<Rightarrow> (Some e, s2, o1)
                          | (None, s2) \<Rightarrow>
                              let (_, s2a) = ask_world (a_tx_connect api (ping_interval (cfg_websocket cfg))) s2;
                                  (flat, s3) = cancel_all_and_verify api s2a
                              in if \<not> flat then (Some Book_Not_Flat, s3, o1)
                                 else if pnl_enabled (cfg_pnl cfg) \<and> \<not> pnl_ok then (Some Pnl_Unusable, s3, o1)
                                 else (None, s3\<lparr>s_rate := limiter_new (tr_default_quote_update_threshold_bps (cfg_trading cfg))
                                                   (rate_limit_send_interval (cfg_performance cfg)),
                                                 s_risk := risk_new (sf_max_consecutive_order_rejections (cfg_safety cfg))
                                                   (sf_circuit_breaker_cooldown_sec (cfg_safety cfg)),
                                                 s_nonce_ok := True,
                                                 s_pnl := (if pnl_enabled (cfg_pnl cfg) then Some [] else None)\<rparr>, o1)))"

text \<open>Shutdown with the halt flag set and the sender stopped: one verified cancel-all, then the actor's end.\<close>

definition live_shutdown :: "'w api \<Rightarrow> 'w sender \<Rightarrow> bool \<times> 'w sender" where
  "live_shutdown api s = (let (flat, s1) = cancel_all_and_verify api s in (flat, tell_pnl Shutdown s1))"

section \<open>What the poller leaves alone\<close>

lemma upd_sender_simps [simp]:
  "c_sender (upd_sender f c) = f (c_sender c)" "c_prev_orphans (upd_sender f c) = c_prev_orphans c"
  "c_tracked_ids (upd_sender f c) = c_tracked_ids c" "c_reconcile_swap (upd_sender f c) = c_reconcile_swap c"
  "c_shared_pos (upd_sender f c) = c_shared_pos c"
  by (simp_all add: upd_sender_def)

lemma on_sender_eq [simp]: "on_sender f c = (fst (f (c_sender c)), c\<lparr>c_sender := snd (f (c_sender c))\<rparr>)"
  by (simp add: on_sender_def case_prod_beta)

lemma mark_rec_risk [simp]:
  "last_reconcile_ok (s_risk (mark_rec api ok why s)) = ok" "paused_until (s_risk (mark_rec api ok why s)) = paused_until (s_risk s)"
  "s_nonce (mark_rec api ok why s) = s_nonce s" "s_nonce_ok (mark_rec api ok why s) = s_nonce_ok s"
  by (simp_all add: mark_rec_def mark_reconcile_def)

lemma pause_now_risk [simp]:
  "last_reconcile_ok (s_risk (pause_now api r s)) = last_reconcile_ok (s_risk s)" "\<exists>u. paused_until (s_risk (pause_now api r s)) = Some u"
  "s_nonce (pause_now api r s) = s_nonce s" "s_nonce_ok (pause_now api r s) = s_nonce_ok s"
  by (auto simp: pause_now_def trigger_pause_def Let_def split: option.split)

lemma pause_if_streak_risk [simp]:
  "last_reconcile_ok (s_risk (pause_if_streak pc api r s)) = last_reconcile_ok (s_risk s)"
  "\<exists>u. paused_until (s_risk s) = Some u \<Longrightarrow> \<exists>u. paused_until (s_risk (pause_if_streak pc api r s)) = Some u"
  "s_nonce (pause_if_streak pc api r s) = s_nonce s" "s_nonce_ok (pause_if_streak pc api r s) = s_nonce_ok s"
  by (simp_all add: pause_if_streak_def Let_def)

lemma refresh_frame [simp]:
  "s_risk (snd (refresh_nonce api s)) = s_risk s" "s_nonce_ok (snd (refresh_nonce api s)) = s_nonce_ok s"
  "s_market (snd (refresh_nonce api s)) = s_market s"
  using control_fields [OF control_refresh_nonce [of api s]] by blast+

lemma cancel_orphan_risk [simp]: "s_risk (cancel_orphan api eid s) = s_risk s"
  by (simp add: cancel_orphan_def refresh_or_distrust_def case_prod_beta Let_def split: sum.split)

lemma cancel_orphans_risk [simp]: "s_risk (foldl (\<lambda>s eid. cancel_orphan api eid s) s es) = s_risk s"
  by (induction es arbitrary: s) simp_all

lemma resync_if_untrusted_risk [simp]: "s_risk (resync_if_untrusted api s) = s_risk s"
  by (simp add: resync_if_untrusted_def case_prod_beta)

lemma position_fallback_frame [simp]:
  "s_risk (c_sender (position_fallback pc api ap c)) = s_risk (c_sender c)"
  "s_nonce (c_sender (position_fallback pc api ap c)) = s_nonce (c_sender c)"
  "s_nonce_ok (c_sender (position_fallback pc api ap c)) = s_nonce_ok (c_sender c)"
  "c_reconcile_swap (position_fallback pc api ap c) = c_reconcile_swap c"
  "c_prev_orphans (position_fallback pc api ap c) = c_prev_orphans c"
  by (simp_all add: position_fallback_def Let_def split: option.split)

lemma judge_snapshot_risk:
  "last_reconcile_ok (s_risk (judge_snapshot pc api tracked os s)) \<longleftrightarrow> length os \<le> p_max_live pc \<and> orphan_ids tracked os = {}"
  "p_max_live pc < length os \<Longrightarrow> locked (s_risk (judge_snapshot pc api tracked os s))"
  "paused_until (s_risk s) \<noteq> None \<Longrightarrow> paused_until (s_risk (judge_snapshot pc api tracked os s)) \<noteq> None"
  "s_nonce (judge_snapshot pc api tracked os s) = s_nonce s" "s_nonce_ok (judge_snapshot pc api tracked os s) = s_nonce_ok s"
  by (simp_all add: judge_snapshot_def locked_def)

text \<open>The snapshot a poll works on: \<open>None\<close> when the token or the query fails.\<close>

definition polled_orders :: "poller_cfg \<Rightarrow> 'w api \<Rightarrow> 'w cold \<Rightarrow> remote_order list option" where
  "polled_orders pc api c =
     (let s = deadman pc api (c_sender c); (tok, w) = a_auth_token api (s_world s)
      in case tok of None \<Rightarrow> None
         | Some t \<Rightarrow> fst (a_active_orders api (s_account_index s) (market_id (s_market s)) t w))"

lemma poll_failed:
  assumes "polled_orders pc api c = None"
  shows "\<exists>why w. poll_once pc api ap c = c\<lparr>c_sender := pause_if_streak pc api why
    (mark_rec api False why ((deadman pc api (c_sender c))\<lparr>s_world := w\<rparr>))\<rparr>"
proof (cases "fst (a_auth_token api (s_world (deadman pc api (c_sender c))))")
  case None
  then show ?thesis by (auto simp: poll_once_def upd_sender_def Let_def)
next
  case (Some t)
  then show ?thesis using assms by (auto simp: poll_once_def polled_orders_def upd_sender_def case_prod_beta Let_def)
qed

text \<open>What a poll does with a fetched snapshot, \<open>s\<close> being the sender after the verdict.\<close>

definition act_on_snapshot ::
  "poller_cfg \<Rightarrow> 'w api \<Rightarrow> (i64w \<Rightarrow> u32 \<Rightarrow> 'w \<Rightarrow> f64 option \<times> 'w) \<Rightarrow> remote_order list \<Rightarrow> 'w sender \<Rightarrow> 'w cold \<Rightarrow> 'w cold" where
  "act_on_snapshot pc api ap os s c =
     (let c5 = position_fallback pc api ap (c\<lparr>c_sender := s, c_reconcile_swap := Some os\<rparr>)
      in if p_max_live pc < length os
         then (upd_sender (\<lambda>s. snd (cancel_all_and_verify api s)) c5)\<lparr>c_prev_orphans := {}\<rparr>
         else (upd_sender (\<lambda>s. foldl (\<lambda>s eid. cancel_orphan api eid s) (resync_if_untrusted api s)
                (orphan_targets (c_tracked_ids c) (c_prev_orphans c) os)) c5)\<lparr>c_prev_orphans := orphan_ids (c_tracked_ids c) os\<rparr>)"

lemma poll_fetched_at:
  assumes "polled_orders pc api c = Some os"
  obtains w t where "w = snd (a_active_orders api (s_account_index (deadman pc api (c_sender c)))
      (market_id (s_market (deadman pc api (c_sender c)))) t (snd (a_auth_token api (s_world (deadman pc api (c_sender c))))))"
    and "poll_once pc api ap c =
      act_on_snapshot pc api ap os (judge_snapshot pc api (c_tracked_ids c) os ((deadman pc api (c_sender c))\<lparr>s_world := w\<rparr>)) c"
proof (cases "fst (a_auth_token api (s_world (deadman pc api (c_sender c))))")
  case None
  then show ?thesis using assms by (simp add: polled_orders_def case_prod_beta Let_def)
next
  case (Some t)
  let ?s = "deadman pc api (c_sender c)"
  show ?thesis
    using Some assms
    by (intro that [OF refl, of t])
      (simp add: poll_once_def act_on_snapshot_def polled_orders_def upd_sender_def case_prod_beta Let_def)
qed

lemma poll_fetched:
  assumes "polled_orders pc api c = Some os"
  obtains w where "poll_once pc api ap c =
    act_on_snapshot pc api ap os (judge_snapshot pc api (c_tracked_ids c) os ((deadman pc api (c_sender c))\<lparr>s_world := w\<rparr>)) c"
  using poll_fetched_at [OF assms] by metis

lemma act_on_snapshot_fields:
  "s_risk (c_sender (act_on_snapshot pc api ap os s c)) = s_risk s"
  "c_reconcile_swap (act_on_snapshot pc api ap os s c) = Some os"
  "c_prev_orphans (act_on_snapshot pc api ap os s c) = (if p_max_live pc < length os then {} else orphan_ids (c_tracked_ids c) os)"
  by (simp_all add: act_on_snapshot_def Let_def)

lemma act_on_snapshot_nonce:
  assumes "length os \<le> p_max_live pc" "orphan_targets (c_tracked_ids c) (c_prev_orphans c) os = []" "s_nonce_ok s"
  shows "s_nonce (c_sender (act_on_snapshot pc api ap os s c)) = s_nonce s"
  using assms by (simp add: act_on_snapshot_def Let_def resync_if_untrusted_def)

lemma deadman_unfired:
  assumes "a_now_ms api (s_world s) = (ms, w)" "md_age_ms (s_derived s) ms = U64_MAX \<or> md_age_ms (s_derived s) ms \<le> p_deadman_ms pc"
  shows "deadman pc api s = s\<lparr>s_world := w\<rparr>"
  using assms by (auto simp: deadman_def Let_def)

lemma deadman_repeat:
  assumes "a_now_ms api (s_world s) = (ms, w)" "a_now api w = (t1, w1)" "a_now api w1 = (t2, w2)"
    and "is_paused (s_risk s) t2" "pause_cancel_done (s_risk s)"
  shows "s_nonce (deadman pc api s) = s_nonce s"
    and "md_age_ms (s_derived s) ms \<noteq> U64_MAX \<Longrightarrow> p_deadman_ms pc < md_age_ms (s_derived s) ms \<Longrightarrow> s_world (deadman pc api s) = w2"
proof -
  define s2 where "s2 = mark_rec api False ''md_stale'' (s\<lparr>s_world := w\<rparr>)"
  have s2: "s_world s2 = w1" "is_paused (s_risk s2) t2" "pause_cancel_done (s_risk s2)" "s_nonce s2 = s_nonce s"
    using assms by (simp_all add: s2_def mark_rec_def mark_reconcile_def is_paused_def)
  then have "cancel_once api (arm_pause api msg s2) = s2\<lparr>s_world := w2\<rparr>" for msg
    using assms(3) by (simp add: cancel_once_def arm_pause_def)
  then show "s_nonce (deadman pc api s) = s_nonce s"
    and "md_age_ms (s_derived s) ms \<noteq> U64_MAX \<Longrightarrow> p_deadman_ms pc < md_age_ms (s_derived s) ms \<Longrightarrow> s_world (deadman pc api s) = w2"
    using assms(1) s2(4) by (simp_all add: deadman_def Let_def flip: s2_def)
qed

lemma arm_pause_locks: "\<not> last_reconcile_ok (s_risk s) \<Longrightarrow> locked (s_risk (arm_pause api reason s))"
  by (auto simp: arm_pause_def locked_def is_paused_def split: option.splits)

lemma cancel_once_risk: "s_risk (cancel_once api s) = (s_risk s)\<lparr>pause_cancel_done := True\<rparr>"
  by (cases "s_risk s") (auto simp: cancel_once_def set_pause_cancel_done_def)

lemma deadman_fired:
  assumes "a_now_ms api (s_world s) = (ms, w)" "md_age_ms (s_derived s) ms \<noteq> U64_MAX" "p_deadman_ms pc < md_age_ms (s_derived s) ms"
  shows "locked (s_risk (deadman pc api s)) \<and> pause_cancel_done (s_risk (deadman pc api s))"
proof -
  obtain msg where d: "deadman pc api s = cancel_once api (arm_pause api msg (mark_rec api False ''md_stale'' (s\<lparr>s_world := w\<rparr>)))"
    using assms by (simp add: deadman_def Let_def)
  have "locked (s_risk (arm_pause api msg (mark_rec api False ''md_stale'' (s\<lparr>s_world := w\<rparr>))))"
    by (rule arm_pause_locks) simp
  then show ?thesis by (simp add: d cancel_once_risk locked_def)
qed

section \<open>The poller's verdict\<close>

text \<open>
  C11. Every poll records its verdict. When the token or the query fails, the last reconcile is
  marked failed and neither the snapshot handed to the decision task nor the orphan memory
  changes. Otherwise the snapshot is handed over, and the reconcile is marked good exactly when
  the exchange shows no more orders than allowed and none that the decision task does not track;
  above the limit the breaker is paused and locked and the orphan memory emptied, and otherwise
  the memory holds exactly this poll's orphans.
\<close>

theorem poll_verdict:
  "(let c' = poll_once pc api ap c; r = s_risk (c_sender c') in
    case polled_orders pc api c of
      None \<Rightarrow> \<not> last_reconcile_ok r \<and> c_reconcile_swap c' = c_reconcile_swap c \<and> c_prev_orphans c' = c_prev_orphans c
    | Some os \<Rightarrow>
        (last_reconcile_ok r \<longleftrightarrow> length os \<le> p_max_live pc \<and> orphan_ids (c_tracked_ids c) os = {}) \<and>
        c_reconcile_swap c' = Some os \<and>
        (if p_max_live pc < length os then locked r \<and> c_prev_orphans c' = {}
         else c_prev_orphans c' = orphan_ids (c_tracked_ids c) os))"
proof (cases "polled_orders pc api c")
  case None
  from poll_failed [OF this, of ap] None show ?thesis by (auto simp: Let_def)
next
  case (Some os)
  then obtain w where e: "poll_once pc api ap c =
    act_on_snapshot pc api ap os (judge_snapshot pc api (c_tracked_ids c) os ((deadman pc api (c_sender c))\<lparr>s_world := w\<rparr>)) c"
    by (rule poll_fetched)
  show ?thesis
    using Some by (simp add: e act_on_snapshot_fields judge_snapshot_risk)
qed

section \<open>What is posted\<close>

text \<open>
  An observer of the transactions: the same environment, which also writes down every transaction
  handed to it, in order. It answers every call as before.
\<close>

type_synonym posts = "(8 word \<times> string) list"

definition observed :: "('w \<Rightarrow> 'a \<times> 'w) \<Rightarrow> 'w \<times> posts \<Rightarrow> 'a \<times> 'w \<times> posts" where
  "observed f = (\<lambda>(w, l). let (x, w') = f w in (x, w', l))"

definition observing :: "'w api \<Rightarrow> ('w \<times> posts) api" where
  "observing api =
     \<lparr>a_now = observed (a_now api), a_now_ms = observed (a_now_ms api), a_delays = observed (a_delays api), a_halt = observed (a_halt api),
      a_next_nonce = (\<lambda>acct key. observed (a_next_nonce api acct key)), a_signer = a_signer api, a_sign_cancel_all = a_sign_cancel_all api,
      a_send_tx = (\<lambda>ty info (w, l). let (r, w') = a_send_tx api ty info w in (r, w', l @ [(ty, info)])),
      a_send_batch = (\<lambda>tys infos (w, l). let (r, w') = a_send_batch api tys infos w in (r, w', l @ zip tys infos)),
      a_tx_connect = (\<lambda>iv. observed (a_tx_connect api iv)), a_auth_token = observed (a_auth_token api),
      a_active_orders = (\<lambda>acct market t. observed (a_active_orders api acct market t))\<rparr>"

abbreviation posted :: "('w \<times> posts) sender \<Rightarrow> posts" where
  "posted s \<equiv> snd (s_world s)"

definition post_of :: "string + signed_tx \<Rightarrow> posts" where
  "post_of r = (case r of Inl _ \<Rightarrow> [] | Inr tx \<Rightarrow> [(st_type tx, st_info tx)])"

lemma observed_simps [simp]: "fst (observed f x) = fst (f (fst x))" "snd (observed f x) = (snd (f (fst x)), snd x)"
  by (cases x; simp add: observed_def case_prod_beta Let_def)+

lemma observing_simps [simp]:
  "a_now (observing api) = observed (a_now api)" "a_now_ms (observing api) = observed (a_now_ms api)"
  "a_next_nonce (observing api) acct key = observed (a_next_nonce api acct key)" "a_signer (observing api) = a_signer api"
  "a_sign_cancel_all (observing api) = a_sign_cancel_all api" "a_auth_token (observing api) = observed (a_auth_token api)"
  "a_active_orders (observing api) acct market t = observed (a_active_orders api acct market t)"
  "snd (snd (a_send_tx (observing api) ty info x)) = snd x @ [(ty, info)]"
  by (cases x; simp add: observing_def case_prod_beta Let_def)+

lemma posted_refresh_nonce [simp]: "posted (snd (refresh_nonce (observing api) s)) = posted s"
  by (simp add: refresh_nonce_def case_prod_beta Let_def)

lemma refresh_nonce_key [simp]: "nm_api_key_index (s_nonce (snd (refresh_nonce api s))) = nm_api_key_index (s_nonce s)"
  by (cases rule: refresh_nonce_cases [of api s]) simp_all

lemma next_nonce_fields [simp]: "fst (next_nonce nm) = nonce nm + 1" "nm_api_key_index (snd (next_nonce nm)) = nm_api_key_index nm"
  by (simp_all add: next_nonce_def Let_def)

lemma cancel_all_orders_posts:
  "posted (snd (cancel_all_orders (observing api) s)) =
     posted s @ post_of (a_sign_cancel_all api CANCEL_ALL_TIF_IMMEDIATE 0 (nonce (s_nonce s) + 1) (nm_api_key_index (s_nonce s)))"
  "nm_api_key_index (s_nonce (snd (cancel_all_orders api' t))) = nm_api_key_index (s_nonce t)"
  by (simp_all add: cancel_all_orders_def case_prod_beta Let_def post_of_def acknowledge_failure_def split: sum.split)

lemma fetch_active_orders_posts:
  "posted (snd (fetch_active_orders (observing api) s)) = posted s" "s_nonce (snd (fetch_active_orders api' t)) = s_nonce t"
  by (simp_all add: fetch_active_orders_def case_prod_beta Let_def split: option.split)

lemma cancel_all_attempts_posts:
  "\<exists>ns. length ns \<le> k \<and> (0 < k \<longrightarrow> ns \<noteq> [] \<and> hd ns = nonce (s_nonce s) + 1) \<and>
     posted (snd (cancel_all_attempts (observing api) k s)) =
       posted s @ concat (map (\<lambda>n. post_of (a_sign_cancel_all api CANCEL_ALL_TIF_IMMEDIATE 0 n (nm_api_key_index (s_nonce s)))) ns)"
proof (induction k arbitrary: s)
  case (Suc k)
  let ?p = "\<lambda>n. post_of (a_sign_cancel_all api CANCEL_ALL_TIF_IMMEDIATE 0 n (nm_api_key_index (s_nonce s)))"
  define s1 where "s1 = snd (cancel_all_orders (observing api) s)"
  define s2 where "s2 = (if fst (cancel_all_orders (observing api) s) then s1 else snd (refresh_nonce (observing api) s1))"
  define s3 where "s3 = snd (fetch_active_orders (observing api) s2)"
  have e: "cancel_all_attempts (observing api) (Suc k) s =
      (if fst (fetch_active_orders (observing api) s2) = Some [] then (True, s3) else cancel_all_attempts (observing api) k s3)"
    by (simp add: s3_def s2_def s1_def case_prod_beta Let_def)
  have p: "posted s3 = posted s @ ?p (nonce (s_nonce s) + 1)" "nm_api_key_index (s_nonce s3) = nm_api_key_index (s_nonce s)"
    by (simp_all add: s3_def s2_def s1_def cancel_all_orders_posts fetch_active_orders_posts)
  from Suc.IH [of s3] p obtain ns where ns: "length ns \<le> k" "posted (snd (cancel_all_attempts (observing api) k s3)) =
      posted s @ ?p (nonce (s_nonce s) + 1) @ concat (map ?p ns)" by auto
  let ?ns = "if fst (fetch_active_orders (observing api) s2) = Some [] then [] else ns"
  show ?case
    by (intro exI [of _ "(nonce (s_nonce s) + 1) # ?ns"], unfold e) (use ns p in simp)
qed simp

lemmas cancel_all_posts = cancel_all_attempts_posts [of 5, folded cancel_all_and_verify_def, simplified]

lemma quiet_posts [simp]:
  "posted (mark_rec (observing api) ok why s) = posted s" "posted (pause_now (observing api) reason s) = posted s"
  "posted (pause_if_streak pc (observing api) reason s) = posted s" "posted (arm_pause (observing api) reason s) = posted s"
  "posted (judge_snapshot pc (observing api) tracked os s) = posted s" "posted (resync_if_untrusted (observing api) s) = posted s"
  "posted (refresh_or_distrust (observing api) s) = posted s"
  by (simp_all add: mark_rec_def pause_now_def pause_if_streak_def arm_pause_def judge_snapshot_def resync_if_untrusted_def
      refresh_or_distrust_def case_prod_beta Let_def)

section \<open>The dead-man switch\<close>

lemma poll_keeps_pause:
  assumes "paused_until (s_risk (deadman pc api (c_sender c))) \<noteq> None"
  shows "paused_until (s_risk (c_sender (poll_once pc api ap c))) \<noteq> None"
proof (cases "polled_orders pc api c")
  case None
  from poll_failed [OF this, of ap] assms show ?thesis by auto
next
  case (Some os)
  then obtain w where e: "poll_once pc api ap c =
    act_on_snapshot pc api ap os (judge_snapshot pc api (c_tracked_ids c) os ((deadman pc api (c_sender c))\<lparr>s_world := w\<rparr>)) c"
    by (rule poll_fetched)
  show ?thesis
    using assms judge_snapshot_risk(3) [of "(deadman pc api (c_sender c))\<lparr>s_world := w\<rparr>"] by (simp add: e act_on_snapshot_fields)
qed

lemma arm_pause_fresh:
  "\<not> (is_paused (s_risk s) (fst (a_now api (s_world s))) \<and> pause_cancel_done (s_risk s)) \<Longrightarrow> \<not> pause_cancel_done (s_risk (arm_pause api reason s))"
  by (auto simp: arm_pause_def pause_now_def trigger_pause_def Let_def)

lemma arm_pause_nonce [simp]: "s_nonce (arm_pause api reason s) = s_nonce s"
  by (simp add: arm_pause_def)

lemma deadman_posts:
  assumes clock: "a_now_ms api (fst (s_world s)) = (ms, w)" "a_now api w = (t1, w1)" "a_now api w1 = (t2, w2)"
    and stale: "md_age_ms (s_derived s) ms \<noteq> U64_MAX" "p_deadman_ms pc < md_age_ms (s_derived s) ms"
    and fresh: "\<not> (is_paused (s_risk s) t2 \<and> pause_cancel_done (s_risk s))"
  shows "\<exists>ns. ns \<noteq> [] \<and> length ns \<le> 5 \<and> hd ns = nonce (s_nonce s) + 1 \<and> posted (deadman pc (observing api) s) =
    posted s @ concat (map (\<lambda>n. post_of (a_sign_cancel_all api CANCEL_ALL_TIF_IMMEDIATE 0 n (nm_api_key_index (s_nonce s)))) ns)"
proof -
  define s2 where "s2 = mark_rec (observing api) False ''md_stale'' (s\<lparr>s_world := (w, posted s)\<rparr>)"
  obtain msg where d: "deadman pc (observing api) s = cancel_once (observing api) (arm_pause (observing api) msg s2)"
    using clock(1) stale by (auto simp: deadman_def s2_def Let_def)
  have "is_paused (s_risk s2) = is_paused (s_risk s)" "pause_cancel_done (s_risk s2) = pause_cancel_done (s_risk s)" "fst (s_world s2) = w1"
    using clock by (simp_all add: s2_def mark_rec_def mark_reconcile_def is_paused_def fun_eq_iff)
  then have "\<not> pause_cancel_done (s_risk (arm_pause (observing api) msg s2))"
    using fresh clock(3) by (intro arm_pause_fresh) simp
  then have "deadman pc (observing api) s = snd (cancel_all_and_verify (observing api)
      ((arm_pause (observing api) msg s2)\<lparr>s_risk := set_pause_cancel_done (s_risk (arm_pause (observing api) msg s2)) True\<rparr>))"
    by (simp add: d cancel_once_def)
  moreover have "posted s2 = posted s" "s_nonce s2 = s_nonce s" by (simp_all add: s2_def)
  ultimately show ?thesis
    using cancel_all_posts [of "(arm_pause (observing api) msg s2)\<lparr>s_risk := set_pause_cancel_done (s_risk (arm_pause (observing api) msg s2)) True\<rparr>" api]
    by auto
qed

text \<open>
  C12. Stale market data parks trading. When the book feed has been seen and its age exceeds the
  dead-man limit, the switch leaves the breaker paused and locked against recovery, and cancels
  everything once per pause: if the breaker was not paused, or the cancel-all of its pause was not
  yet run, what the switch posts is between one and five attempts at a cancel-all (each posted when it
  can be signed, the first with the next nonce); if it was already run in this pause, the switch posts
  nothing, spends no nonce and only reads the clock. Whatever the rest of the poll finds, the pause
  is still armed after it; a clean snapshot in the same poll lifts the lock, not the pause.
\<close>

theorem deadman_parks_trading:
  assumes clock: "a_now_ms api (fst (s_world (c_sender c))) = (ms, w)" "a_now api w = (t1, w1)" "a_now api w1 = (t2, w2)"
    and stale: "md_age_ms (s_derived (c_sender c)) ms \<noteq> U64_MAX" "p_deadman_ms pc < md_age_ms (s_derived (c_sender c)) ms"
  shows "let s = c_sender c; s' = deadman pc (observing api) s in
    locked (s_risk s') \<and> pause_cancel_done (s_risk s') \<and>
    (if is_paused (s_risk s) t2 \<and> pause_cancel_done (s_risk s)
     then s_world s' = (w2, posted s) \<and> s_nonce s' = s_nonce s
     else \<exists>ns. ns \<noteq> [] \<and> length ns \<le> 5 \<and> hd ns = nonce (s_nonce s) + 1 \<and> posted s' =
       posted s @ concat (map (\<lambda>n. post_of (a_sign_cancel_all api CANCEL_ALL_TIF_IMMEDIATE 0 n (nm_api_key_index (s_nonce s)))) ns)) \<and>
    paused_until (s_risk (c_sender (poll_once pc (observing api) ap c))) \<noteq> None"
proof -
  let ?l = "posted (c_sender c)" and ?a = "observing api"
  have o: "a_now_ms ?a (s_world (c_sender c)) = (ms, w, ?l)" "a_now ?a (w, ?l) = (t1, w1, ?l)" "a_now ?a (w1, ?l) = (t2, w2, ?l)"
    using clock by (simp_all add: observed_def case_prod_beta)
  from deadman_fired [OF o(1) stale]
  have l: "locked (s_risk (deadman pc ?a (c_sender c)))" "pause_cancel_done (s_risk (deadman pc ?a (c_sender c)))" by simp_all
  moreover from l(1) have "paused_until (s_risk (c_sender (poll_once pc ?a ap c))) \<noteq> None" by (intro poll_keeps_pause) (simp add: locked_def)
  ultimately show ?thesis
    using deadman_repeat [OF o] deadman_posts [OF clock stale] stale by (simp add: Let_def)
qed

text \<open>A poller next to the sample sender, with a poll limit of four orders and a dead-man limit of ten seconds.\<close>

definition sample_poller_cfg :: poller_cfg where
  "sample_poller_cfg = \<lparr>p_max_live = 4, p_deadman_ms = 10000, p_pos_fallback_ms = 6000, p_debounce_min = 2\<rparr>"

definition sample_cold :: "i64w cold" where
  "sample_cold = \<lparr>c_sender = sample_sender 8 7, c_prev_orphans = {}, c_tracked_ids = [5], c_reconcile_swap = None,
     c_shared_pos = position_new\<rparr>"

theorem deadman_parks_trading_witness:
  "let api = accepting_api\<lparr>a_now_ms := (\<lambda>w. (20000, w)), a_sign_cancel_all := (\<lambda>_ _ _ _. Inr \<lparr>st_type = 16, st_info = ''all''\<rparr>)\<rparr>;
       s = (sample_sender (8, []) 7)\<lparr>s_derived := set_md_now derived_new 5000\<rparr>;
       s' = deadman sample_poller_cfg (observing api) s
   in locked (s_risk s') \<and> (16, ''all'') \<in> set (posted s')"
proof -
  let ?api = "accepting_api\<lparr>a_now_ms := (\<lambda>w. (20000, w)), a_sign_cancel_all := (\<lambda>_ _ _ _. Inr \<lparr>st_type = 16, st_info = ''all''\<rparr>)\<rparr>"
  let ?s = "(sample_sender (8, []) 7)\<lparr>s_derived := set_md_now derived_new 5000\<rparr>"
  let ?c = "\<lparr>c_sender = ?s, c_prev_orphans = {}, c_tracked_ids = [], c_reconcile_swap = None, c_shared_pos = position_new\<rparr>"
  from deadman_parks_trading [of ?api ?c 20000 8 0 8 0 8 sample_poller_cfg "\<lambda>a m w. (None, w)"]
  have "locked (s_risk (deadman sample_poller_cfg (observing ?api) ?s)) \<and>
      (\<exists>ns. ns \<noteq> [] \<and> posted (deadman sample_poller_cfg (observing ?api) ?s) =
         concat (map (\<lambda>n. post_of (a_sign_cancel_all ?api CANCEL_ALL_TIF_IMMEDIATE 0 n (nm_api_key_index (s_nonce ?s)))) ns))"
    by (auto simp: accepting_api_def sample_sender_def sample_poller_cfg_def set_md_now_def md_age_ms_def derived_new_def U64_MAX_def
        is_paused_def risk_new_def Let_def)
  then show ?thesis by (auto simp: Let_def post_of_def neq_Nil_conv)
qed

section \<open>Orphans\<close>

lemma poll_verdict_prev:
  assumes "polled_orders pc api c = Some os" "length os \<le> p_max_live pc"
  shows "c_prev_orphans (poll_once pc api ap c) = orphan_ids (c_tracked_ids c) os"
  by (rule poll_fetched [OF assms(1), of ap]) (use assms(2) in \<open>simp add: act_on_snapshot_fields\<close>)

text \<open>
  The exchange ids of the orders, in the order of the second snapshot, whose client id neither snapshot's
  tracked list knows and both snapshots show.
\<close>

definition seen_twice :: "int list \<Rightarrow> remote_order list \<Rightarrow> int list \<Rightarrow> remote_order list \<Rightarrow> int list" where
  "seen_twice tracked os tracked' os' = concat (map (\<lambda>o'. case (ro_client_order_index o', ro_order_index o') of
       (Some cid, Some e) \<Rightarrow>
         if (\<exists>o'' \<in> set os. ro_client_order_index o'' = Some cid) \<and> cid \<notin> set tracked \<and> cid \<notin> set tracked' then [e] else []
     | _ \<Rightarrow> []) os')"

lemma orphan_ids_iff: "cid \<in> orphan_ids tr xs \<longleftrightarrow> cid \<notin> set tr \<and> (\<exists>o'\<in>set xs. ro_client_order_index o' = Some cid)"
  by (force simp: orphan_ids_def List.map_filter_def)

lemma orphan_targets_twice: "orphan_targets tracked' (orphan_ids tracked os) os' = seen_twice tracked os tracked' os'"
  by (induction os') (auto simp: orphan_targets_def seen_twice_def List.map_filter_def orphan_ids_iff split: option.splits)

lemma cancel_orphan_fields [simp]:
  "s_market (cancel_orphan api e s) = s_market s" "nm_api_key_index (s_nonce (cancel_orphan api e s)) = nm_api_key_index (s_nonce s)"
  by (simp_all add: cancel_orphan_def refresh_or_distrust_def next_nonce_def acknowledge_failure_def case_prod_beta Let_def split: sum.split)

lemma cancel_orphan_posts:
  "posted (cancel_orphan (observing api) e s) =
     posted s @ post_of (a_signer api (Sign_Cancel (market_id (s_market s)) e (nonce (s_nonce s) + 1) (nm_api_key_index (s_nonce s))))"
  by (simp add: cancel_orphan_def post_of_def case_prod_beta Let_def split: sum.split)

lemma cancel_orphans_posts:
  "\<exists>ns. length ns = length es \<and> (es \<noteq> [] \<longrightarrow> hd ns = nonce (s_nonce s) + 1) \<and>
     posted (foldl (\<lambda>s e. cancel_orphan (observing api) e s) s es) = posted s @
       concat (map2 (\<lambda>e n. post_of (a_signer api (Sign_Cancel (market_id (s_market s)) e n (nm_api_key_index (s_nonce s))))) es ns)"
proof (induction es arbitrary: s)
  case (Cons e es)
  from Cons.IH [of "cancel_orphan (observing api) e s"] obtain ns where "length ns = length es"
    "posted (foldl (\<lambda>s e. cancel_orphan (observing api) e s) (cancel_orphan (observing api) e s) es) = posted (cancel_orphan (observing api) e s) @
       concat (map2 (\<lambda>e n. post_of (a_signer api (Sign_Cancel (market_id (s_market s)) e n (nm_api_key_index (s_nonce s))))) es ns)" by auto
  then show ?case by (intro exI [of _ "(nonce (s_nonce s) + 1) # ns"]) (simp add: cancel_orphan_posts)
qed simp

lemma poll_market [simp]:
  "s_market (judge_snapshot pc api tracked os s) = s_market s" "s_market (c_sender (position_fallback pc api ap c)) = s_market (c_sender c)"
  by (simp_all add: judge_snapshot_def mark_rec_def pause_now_def pause_if_streak_def position_fallback_def Let_def split: option.split)

lemma position_fallback_posts:
  "posted (c_sender (position_fallback pc (observing api) (\<lambda>a m. observed (ap a m)) c)) = posted (c_sender c)"
  by (simp add: position_fallback_def Let_def split: option.split)

text \<open>
  C14. An order the decision task does not track is cancelled when two polls in a row saw it, and only
  then. A poll on a fresh feed and a trusted nonce, within the order limit, posts exactly this: in the
  order of its snapshot, for each order with a known exchange id whose client id is untracked now and
  was untracked and shown in the snapshot of the previous poll, one cancel of that order (when it can
  be signed), the first with the next nonce; and when there is no such order it spends no nonce.
\<close>

theorem orphans_cancelled_after_two_polls:
  assumes first: "polled_orders pc api c = Some os" "length os \<le> p_max_live pc"
    and fresh: "a_now_ms api' (fst (s_world (c_sender d))) = (ms, w)"
      "md_age_ms (s_derived (c_sender d)) ms = U64_MAX \<or> md_age_ms (s_derived (c_sender d)) ms \<le> p_deadman_ms pc"
    and second: "polled_orders pc (observing api') d = Some os'" "length os' \<le> p_max_live pc" "s_nonce_ok (c_sender d)"
    and kept: "c_prev_orphans d = c_prev_orphans (poll_once pc api ap c)"
  shows "let s = c_sender d; s' = c_sender (poll_once pc (observing api') (\<lambda>a m. observed (ap' a m)) d);
             es = seen_twice (c_tracked_ids c) os (c_tracked_ids d) os' in
    (\<exists>ns. length ns = length es \<and> (es \<noteq> [] \<longrightarrow> hd ns = nonce (s_nonce s) + 1) \<and>
       posted s' = posted s @
         concat (map2 (\<lambda>e n. post_of (a_signer api' (Sign_Cancel (market_id (s_market s)) e n (nm_api_key_index (s_nonce s))))) es ns)) \<and>
    (es = [] \<longrightarrow> s_nonce s' = s_nonce s)"
proof -
  let ?a = "observing api'" and ?p = "\<lambda>a m. observed (ap' a m)" and ?s = "c_sender d"
  let ?es = "seen_twice (c_tracked_ids c) os (c_tracked_ids d) os'"
  have targets: "orphan_targets (c_tracked_ids d) (c_prev_orphans d) os' = ?es"
    using poll_verdict_prev [OF first, of ap] kept orphan_targets_twice by simp
  have "a_now_ms ?a (s_world ?s) = (ms, w, posted ?s)" using fresh(1) by (simp add: observed_def case_prod_beta)
  from deadman_unfired [OF this fresh(2)] have dm: "deadman pc ?a ?s = ?s\<lparr>s_world := (w, posted ?s)\<rparr>" .
  obtain w' t where "w' = snd (a_active_orders ?a (s_account_index (deadman pc ?a ?s)) (market_id (s_market (deadman pc ?a ?s))) t
      (snd (a_auth_token ?a (s_world (deadman pc ?a ?s)))))" and poll: "poll_once pc ?a ?p d =
      act_on_snapshot pc ?a ?p os' (judge_snapshot pc ?a (c_tracked_ids d) os' ((deadman pc ?a ?s)\<lparr>s_world := w'\<rparr>)) d"
    by (rule poll_fetched_at [OF second(1)])
  then have w': "snd w' = posted ?s" by (simp add: dm)
  define u where "u = judge_snapshot pc ?a (c_tracked_ids d) os' (?s\<lparr>s_world := w'\<rparr>)"
  define v where "v = c_sender (position_fallback pc ?a ?p (d\<lparr>c_sender := u, c_reconcile_swap := Some os'\<rparr>))"
  have u: "posted u = posted ?s" "s_nonce u = s_nonce ?s" "s_nonce_ok u" "s_market u = s_market ?s"
    using w' second(3) by (simp_all add: u_def judge_snapshot_risk)
  have v: "posted v = posted u" "s_nonce v = s_nonce u" "s_nonce_ok v = s_nonce_ok u" "s_market v = s_market u"
    by (simp_all add: v_def position_fallback_posts)
  have "c_sender (poll_once pc ?a ?p d) = foldl (\<lambda>s e. cancel_orphan ?a e s) v ?es"
    using second(2) u v by (simp add: poll dm act_on_snapshot_def resync_if_untrusted_def targets Let_def flip: u_def v_def)
  with cancel_orphans_posts [of ?es v api'] u v show ?thesis by (auto simp: Let_def)
qed

definition sample_orphan :: remote_order where
  "sample_orphan = \<lparr>ro_client_order_index = Some 77, ro_order_index = Some 900, ro_is_ask = Some False, ro_price = None,
     ro_remaining_base_amount = None, ro_filled_base_amount = None, ro_status = None\<rparr>"

definition orphan_api :: "i64w api" where
  "orphan_api = accepting_api\<lparr>a_active_orders := (\<lambda>a m t w. (Some [sample_orphan], w)),
     a_signer := (\<lambda>r. Inr \<lparr>st_type = 15, st_info = (case r of Sign_Cancel _ e _ _ \<Rightarrow> show_int e | _ \<Rightarrow> [])\<rparr>)\<rparr>"

theorem orphans_cancelled_after_two_polls_witness:
  "let c = poll_once sample_poller_cfg orphan_api (\<lambda>a m w. (None, w)) sample_cold;
       d = \<lparr>c_sender = sample_sender (8, []) 7, c_prev_orphans = c_prev_orphans c, c_tracked_ids = [5], c_reconcile_swap = None, c_shared_pos = position_new\<rparr>
   in posted (c_sender (poll_once sample_poller_cfg (observing orphan_api) (\<lambda>a m. observed (\<lambda>w. (None, w))) d)) = [(15, show_int 900)]"
proof -
  let ?c = "poll_once sample_poller_cfg orphan_api (\<lambda>a m w. (None, w)) sample_cold"
  let ?d = "\<lparr>c_sender = sample_sender (8, []) 7, c_prev_orphans = c_prev_orphans ?c, c_tracked_ids = [5], c_reconcile_swap = None, c_shared_pos = position_new\<rparr>"
  have calls: "a_auth_token orphan_api w = (Some ''token'', w)" "a_active_orders orphan_api a m t w = (Some [sample_orphan], w)"
    "a_now_ms orphan_api w = (0, w)" for a m t w by (simp_all add: orphan_api_def accepting_api_def)
  have polled: "polled_orders sample_poller_cfg orphan_api sample_cold = Some [sample_orphan]"
    "polled_orders sample_poller_cfg (observing orphan_api) ?d = Some [sample_orphan]"
    by (simp_all add: polled_orders_def calls Let_def case_prod_beta)
  have rest: "length [sample_orphan] \<le> p_max_live sample_poller_cfg" "s_nonce_ok (c_sender ?d)"
    "md_age_ms (s_derived (c_sender ?d)) 0 = U64_MAX \<or> md_age_ms (s_derived (c_sender ?d)) 0 \<le> p_deadman_ms sample_poller_cfg"
    by (simp_all add: sample_poller_cfg_def sample_sender_def md_age_ms_def derived_new_def)
  have clk: "a_now_ms orphan_api (fst (s_world (c_sender ?d))) = (0, 8)" by (simp add: calls sample_sender_def)
  have signs: "a_signer orphan_api (Sign_Cancel m e n k) = Inr \<lparr>st_type = 15, st_info = show_int e\<rparr>" for m e n k by (simp add: orphan_api_def)
  have twice: "seen_twice (c_tracked_ids sample_cold) [sample_orphan] (c_tracked_ids ?d) [sample_orphan] = [900]"
    by (simp add: seen_twice_def sample_cold_def sample_orphan_def)
  show ?thesis
    using orphans_cancelled_after_two_polls [OF polled(1) rest(1) clk rest(3) polled(2) rest(1,2), of "\<lambda>a m w. (None, w)" "\<lambda>a m w. (None, w)"]
    unfolding twice by (auto simp: Let_def post_of_def signs length_Suc_conv) (simp add: sample_sender_def)
qed

section \<open>Start-up\<close>

lemma set_leverage_done:
  assumes "set_leverage api sign tr s = (None, s')"
  shows "if set_leverage_on_startup tr
    then s_nonce s' = (s_nonce s)\<lparr>nonce := nonce (s_nonce s) + 1\<rparr> \<and>
      (\<exists>tx resp. sign (market_id (s_market s)) (10000 div max (leverage tr) 1)
        (if eq_ignore_ascii_case (margin_mode tr) ''isolated'' then 1 else 0) (nonce (s_nonce s) + 1) (nm_api_key_index (s_nonce s)) = Inr tx \<and>
      fst (a_send_tx api (st_type tx) (st_info tx) (s_world s)) = Inr resp \<and> resp_code resp \<in> {0, 200})
    else s' = s"
  using assms
  by (auto simp: set_leverage_def MARGIN_MODE_CROSS_def MARGIN_MODE_ISOLATED_def next_nonce_def Let_def split: sum.splits if_splits)

text \<open>
  C15. A live run starts only with a key, with the instance lock, a fresh nonce, the leverage set and
  on a verified flat book. When \<open>live_start\<close> reports no error, the private key was present, the lock of this
  account and key was granted and the signer loaded; the exchange answered the nonce query, and
  every transaction since was numbered from that answer: the leverage transaction (when configured) with the
  answer itself, for the configured leverage and margin mode, and the exchange accepted it; then the
  cancel-all with the next nonce, which found the book flat and is the last the start did. On an exchange
  that answers the open-order query truthfully no order is open; the sender starts with a
  trusted nonce and a closed breaker.
\<close>

theorem live_start_on_flat_book:
  assumes honest: "honest_orders api opn"
    and started: "live_start api locks tmp pid signer_ok sign pnl_ok cfg creds s o' = (None, s', o1)"
  shows "let acct = word_of_int (cr_account_index creds); key = word_of_int (cr_api_key_index creds); tr = cfg_trading cfg in
    api_key_private_key creds \<noteq> [] \<and>
    fst (acquire locks tmp pid (cr_account_index creds) (cr_api_key_index creds) o') = Inr () \<and> signer_ok \<and>
    (\<exists>n w u. a_next_nonce api acct key (s_world s) = (Some n, w) \<and>
       (if set_leverage_on_startup tr
        then nonce (s_nonce u) = n \<and>
          (\<exists>tx resp. sign (market_id (s_market s)) (10000 div max (leverage tr) 1)
              (if eq_ignore_ascii_case (margin_mode tr) ''isolated'' then 1 else 0) n key = Inr tx \<and>
            fst (a_send_tx api (st_type tx) (st_info tx) w) = Inr resp \<and> resp_code resp \<in> {0, 200})
        else nonce (s_nonce u) = n - 1) \<and>
       nm_account_index (s_nonce u) = acct \<and> nm_api_key_index (s_nonce u) = key \<and> fst (cancel_all_and_verify api u) \<and>
       s_nonce s' = s_nonce (snd (cancel_all_and_verify api u)) \<and> s_world s' = s_world (snd (cancel_all_and_verify api u))) \<and>
    opn (s_world s') = [] \<and> s_nonce_ok s' \<and> paused_until (s_risk s') = None"
proof -
  let ?acct = "word_of_int (cr_account_index creds)" and ?key = "word_of_int (cr_api_key_index creds)" and ?tr = "cfg_trading cfg"
  obtain lk o2 where lk: "acquire locks tmp pid (cr_account_index creds) (cr_api_key_index creds) o' = (lk, o2)" by fastforce
  with started have gates: "api_key_private_key creds \<noteq> []" "lk = Inr ()" "signer_ok"
    by (auto simp: live_start_def Let_def split: if_splits sum.splits)
  obtain n w where n: "a_next_nonce api ?acct ?key (s_world s) = (n, w)" by fastforce
  with started gates lk obtain m where m: "n = Some m" by (cases n) (auto simp: live_start_def nonce_init_def Let_def)
  let ?s0 = "s\<lparr>s_world := w, s_nonce := \<lparr>nm_account_index = ?acct, nm_api_key_index = ?key, nonce = m - 1\<rparr>, s_account_index := ?acct\<rparr>"
  obtain e s1 where e: "set_leverage api sign ?tr ?s0 = (e, s1)" by fastforce
  with started gates lk n m have "e = None" by (cases e) (auto simp: live_start_def nonce_init_def Let_def)
  note lev = set_leverage_done [OF e [unfolded this]]
  define u where "u = snd (ask_world (a_tx_connect api (ping_interval (cfg_websocket cfg))) s1)"
  have nu: "s_nonce u = s_nonce s1" by (simp add: u_def)
  from started gates lk n m e \<open>e = None\<close> have flat: "fst (cancel_all_and_verify api u)"
    and s': "s_nonce s' = s_nonce (snd (cancel_all_and_verify api u))" "s_world s' = s_world (snd (cancel_all_and_verify api u))"
      "s_nonce_ok s'" "paused_until (s_risk s') = None"
    by (auto simp: live_start_def nonce_init_def u_def Let_def case_prod_beta risk_new_def split: if_splits)
  have "opn (s_world s') = []" using flat_when_reported [OF honest flat] s'(2) by simp
  moreover have "\<exists>u. (if set_leverage_on_startup ?tr
        then nonce (s_nonce u) = m \<and>
          (\<exists>tx resp. sign (market_id (s_market s)) (10000 div max (leverage ?tr) 1)
              (if eq_ignore_ascii_case (margin_mode ?tr) ''isolated'' then 1 else 0) m ?key = Inr tx \<and>
            fst (a_send_tx api (st_type tx) (st_info tx) w) = Inr resp \<and> resp_code resp \<in> {0, 200})
        else nonce (s_nonce u) = m - 1) \<and>
       nm_account_index (s_nonce u) = ?acct \<and> nm_api_key_index (s_nonce u) = ?key \<and> fst (cancel_all_and_verify api u) \<and>
       s_nonce s' = s_nonce (snd (cancel_all_and_verify api u)) \<and> s_world s' = s_world (snd (cancel_all_and_verify api u))"
    using lev flat s' by (intro exI [of _ u]) (simp add: nu split: if_splits)
  ultimately show ?thesis using gates lk n m s'(3,4) by (simp add: Let_def)
qed

text \<open>
  And it does start, when the key is there, the lock is granted, the libraries load, no leverage
  update is configured and the exchange accepts and carries out the first cancel-all.
\<close>

lemma live_start_succeeds:
  assumes "honest_orders api opn" "api_key_private_key creds \<noteq> []" "signer_ok" "pnl_ok"
    and "acquire locks tmp pid (cr_account_index creds) (cr_api_key_index creds) o' = (Inr (), o1)"
    and "a_next_nonce api (word_of_int (cr_account_index creds)) (word_of_int (cr_api_key_index creds)) (s_world s) = (Some n, w)"
    and "\<not> set_leverage_on_startup (cfg_trading cfg)"
    and "\<And>s. fst (cancel_all_orders api s)" "\<And>s. opn (s_world (snd (cancel_all_orders api s))) = []"
    and "\<And>s. fst (fetch_active_orders api s) \<noteq> None"
  shows "fst (live_start api locks tmp pid signer_ok sign pnl_ok cfg creds s o') = None"
  using assms reported_when_flat [OF assms(1)]
  by (simp add: live_start_def nonce_init_def set_leverage_def case_prod_beta Let_def)

theorem live_start_on_flat_book_witness:
  "\<exists>s' o1. live_start accepting_api set_locks ''/tmp'' 10 True (\<lambda>_ _ _ _ _. Inl ''unused'') True
     (default_config\<lparr>cfg_trading := default_trading\<lparr>set_leverage_on_startup := False\<rparr>\<rparr>)
     \<lparr>api_key_private_key = ''key'', cr_api_key_index = 2, cr_account_index = 1, wallet_address = [], market_symbol = ''BTC''\<rparr>
     (sample_sender 8 7) {} = (None, s', o1) \<and> s_nonce_ok s'"
proof -
  have honest: "honest_orders accepting_api (\<lambda>_. [])" by (simp add: honest_orders_def accepting_api_def)
  have lk: "acquire set_locks ''/tmp'' 10 1 2 {} = (Inr (), {lock_path ''/tmp'' 1 2})"
    by (simp add: acquire_def open_locked_def set_locks_def Let_def)
  have "fst (live_start accepting_api set_locks ''/tmp'' 10 True (\<lambda>_ _ _ _ _. Inl ''unused'') True
     (default_config\<lparr>cfg_trading := default_trading\<lparr>set_leverage_on_startup := False\<rparr>\<rparr>)
     \<lparr>api_key_private_key = ''key'', cr_api_key_index = 2, cr_account_index = 1, wallet_address = [], market_symbol = ''BTC''\<rparr>
     (sample_sender 8 7) {}) = None"
    using lk by (intro live_start_succeeds [OF honest])
      (simp_all add: cancel_all_orders_def fetch_active_orders_def accepting_api_def next_nonce_def sample_sender_def Let_def)
  with live_start_on_flat_book [OF honest] show ?thesis by (metis prod.collapse)
qed

end
