(* ===== verification/System.thy ===== *)
theory System
  imports Hot_Task Cold_Tasks
begin

text \<open>
  The program as a whole (\<open>App::bootstrap\<close> and \<open>App::run\<close> of \<^verbatim>\<open>src/src/orchestrator.rs\<close>): the
  decision task and the cold tasks with the cells, the mailbox and the queues that join them.
  A handler of a task runs to its end before another starts; every order of handlers is a run
  of the model. The mailbox is a \<open>watch\<close> channel: it holds one batch, a newer one replaces a batch
  the sender has not taken. The event queue and the id events are lossless.
\<close>

section \<open>Start\<close>

definition bootstrap :: "(string \<Rightarrow> f64 option) \<Rightarrow> order_book_detail \<Rightarrow> market_config" where
  "bootstrap fp d =
     \<lparr>market_id = obd_market_id d, mc_symbol = obd_symbol d,
      price_tick = 1 / 10 ^ unat (supported_price_decimals d), amount_tick = 1 / 10 ^ unat (supported_size_decimals d),
      min_base_amount = parse_f64 fp (obd_min_base_amount d), min_quote_amount = parse_f64 fp (obd_min_quote_amount d),
      price_decimals = supported_price_decimals d, size_decimals = supported_size_decimals d\<rparr>"

definition base_amount_seed :: "config \<Rightarrow> market_config \<Rightarrow> f64" where
  "base_amount_seed cfg m =
     (if 0 < tr_base_amount (cfg_trading cfg) then tr_base_amount (cfg_trading cfg) else max (min_base_amount m) (1 / 10 ^ 5))"

definition seed_derived :: "mode \<Rightarrow> f64 \<Rightarrow> derived" where
  "seed_derived md base = set_max_pos_usd (set_base_amount derived_new base) (if md = Live_Mode then 0 else 10 ^ 12)"

record 'w system =
  y_hot :: "hot_task option" \<comment> \<open>\<open>None\<close>: the decision task panicked\<close>
  y_cold :: "'w cold"
  y_mail :: "batch_op list option" \<comment> \<open>a batch the sender has not taken\<close>

text \<open>The live start: the decision task begins its warm-up at \<open>now\<close>.\<close>

definition launch ::
  "(string \<Rightarrow> f64 option) \<Rightarrow> instant \<Rightarrow> config \<Rightarrow> order_book_detail \<Rightarrow> 'w sender \<Rightarrow> 'w system option" where
  "launch fp now cfg d s =
     (let m = bootstrap fp d;
          base = base_amount_seed cfg m;
          der = seed_derived Live_Mode base;
          sp = position_new
      in map_option (\<lambda>h. \<lparr>y_hot = Some (h\<lparr>h_loop_start := Some now\<rparr>),
           y_cold = \<lparr>c_sender = s\<lparr>s_market := m, s_derived := der, s_events := []\<rparr>, c_prev_orphans = {}, c_tracked_ids = [],
                     c_reconcile_swap = None, c_shared_pos = sp\<rparr>,
           y_mail = None\<rparr>)
         (hot_new now m cfg base (alpha_new (al_min_samples (tr_alpha (cfg_trading cfg)))) sp der (Some 0) Live_Mode))"

section \<open>Steps\<close>

text \<open>The decision task reads the shared cells and takes everything queued for it, handles a message, and its writes become visible.\<close>

definition to_hot :: "'w cold \<Rightarrow> hot_task \<Rightarrow> hot_task" where
  "to_hot c h = h\<lparr>h_events := h_events h @ s_events (c_sender c), h_derived := s_derived (c_sender c),
     h_shared_pos := c_shared_pos c,
     h_reconcile_swap := (case c_reconcile_swap c of None \<Rightarrow> h_reconcile_swap h | Some os \<Rightarrow> Some os)\<rparr>"

definition from_hot :: "hot_task \<Rightarrow> 'w cold \<Rightarrow> 'w cold" where
  "from_hot h c = c\<lparr>c_sender := (c_sender c)\<lparr>s_events := [], s_derived := h_derived h\<rparr>, c_reconcile_swap := None,
     c_tracked_ids := h_tracked_ids h\<rparr>"

definition newest_mail :: "hot_task \<Rightarrow> hot_task \<Rightarrow> batch_op list option \<Rightarrow> batch_op list option" where
  "newest_mail h h' mail = (if length (h_ops h) < length (h_ops h') then Some (last (h_ops h')) else mail)"

definition market_data ::
  "(string \<Rightarrow> f64 option) \<Rightarrow> order_book_msg \<Rightarrow> instant \<Rightarrow> nat \<Rightarrow> 'w system \<Rightarrow> 'w system" where
  "market_data fp msg t ms y =
     (case y_hot y of
        None \<Rightarrow> y
      | Some h \<Rightarrow>
          (let h0 = to_hot (y_cold y) h
           in case on_orderbook fp h0 msg t ms of
                None \<Rightarrow> y\<lparr>y_hot := None\<rparr>
              | Some h' \<Rightarrow> y\<lparr>y_hot := Some h', y_cold := from_hot h' (y_cold y), y_mail := newest_mail h0 h' (y_mail y)\<rparr>))"

datatype sys_step =
    Market_Data order_book_msg instant nat
  | Ticker ticker_msg instant
  | Md_Disconnect
  | Alpha_Update shared_alpha
  | Sender_Batch
  | Sender_Tick
  | Poll
  | Account_Orders account_orders_msg
  | Account_All_Msg nat account_all_msg
  | User_Stats user_stats_msg

definition sys_step_fun ::
  "(string \<Rightarrow> f64 option) \<Rightarrow> 'w api \<Rightarrow> (i64w \<Rightarrow> u32 \<Rightarrow> 'w \<Rightarrow> f64 option \<times> 'w) \<Rightarrow> poller_cfg \<Rightarrow> string
   \<Rightarrow> 'w system \<Rightarrow> sys_step \<Rightarrow> 'w system" where
  "sys_step_fun fp api ap pc mkt y e =
     (case e of
        Market_Data msg t ms \<Rightarrow> market_data fp msg t ms y
      | Ticker msg t \<Rightarrow> y\<lparr>y_hot := map_option (\<lambda>h. on_ticker fp h msg t) (y_hot y)\<rparr>
      | Md_Disconnect \<Rightarrow> y\<lparr>y_hot := map_option on_disconnect (y_hot y)\<rparr>
      | Alpha_Update a \<Rightarrow> y\<lparr>y_hot := map_option (\<lambda>h. h\<lparr>h_shared_alpha := a\<rparr>) (y_hot y)\<rparr>
      | Sender_Batch \<Rightarrow>
          (case y_mail y of
             None \<Rightarrow> y
           | Some ops \<Rightarrow> y\<lparr>y_cold := upd_sender (sender_wake api (Some ops)) (y_cold y), y_mail := None\<rparr>)
      | Sender_Tick \<Rightarrow> y\<lparr>y_cold := upd_sender (sender_wake api None) (y_cold y)\<rparr>
      | Poll \<Rightarrow> y\<lparr>y_cold := poll_once pc api ap (y_cold y)\<rparr>
      | Account_Orders msg \<Rightarrow> y\<lparr>y_cold := on_account_orders msg (y_cold y)\<rparr>
      | Account_All_Msg ms msg \<Rightarrow> y\<lparr>y_cold := on_account_all fp mkt ms msg (y_cold y)\<rparr>
      | User_Stats msg \<Rightarrow> y\<lparr>y_cold := on_user_stats fp msg (y_cold y)\<rparr>)"

section \<open>Events name slots of the ladder\<close>

definition ops_fit :: "nat \<Rightarrow> batch_op list \<Rightarrow> bool" where
  "ops_fit n ops \<longleftrightarrow> (\<forall>op \<in> set ops. op_level op < n)"

definition queue_fits :: "nat \<Rightarrow> 'w sender \<Rightarrow> bool" where
  "queue_fits n s \<longleftrightarrow> (\<forall>e \<in> set (s_events s). event_fits n e)"

lemma success_event_fits: "event_fits n (success_event op) \<longleftrightarrow> op_level op < n"
  by (cases "op_action op") (simp_all add: success_event_def clear_event_def event_fits_def)

lemma clear_event_fits [simp]: "event_fits n (clear_event op) \<longleftrightarrow> op_level op < n"
  by (simp add: clear_event_def event_fits_def)

lemma send_once_outcome:
  "s_events (send_once api ops s) = s_events s @ map success_event ops \<or>
   s_events (send_once api ops s) = s_events s @ failed_creates ops \<or>
   s_events (send_once api ops s) = s_events s \<and> s_reconcile (send_once api ops s) = Suc (s_reconcile s) \<and>
     (\<forall>t ws. \<not> fst (maybe_recover (s_risk (send_once api ops s)) t ws))"
proof (cases rule: send_once_cases [of api ops s])
  case (sent b nm t)
  then show ?thesis using transmit_fields [of api b t]
    by (cases "tx_status (fst (transmit api b t))")
      (simp_all add: handle_result_def on_rejected_events on_unknown_simps on_not_sent_simps locked_no_recovery)
qed simp

lemma send_once_fits: "ops_fit n ops \<Longrightarrow> queue_fits n s \<Longrightarrow> queue_fits n (send_once api ops s)"
  using send_once_outcome [of api ops s] by (auto simp: queue_fits_def ops_fit_def success_event_fits)

lemma sender_wake_fits:
  assumes "case b of None \<Rightarrow> True | Some ops \<Rightarrow> ops_fit n ops" "queue_fits n s"
  shows "queue_fits n (sender_wake api b s)"
proof (cases b)
  case None
  then show ?thesis using assms by (simp add: sender_wake_def queue_fits_def case_prod_beta Let_def)
next
  case (Some ops)
  have q: "queue_fits n (t\<lparr>s_world := w\<rparr>) = queue_fits n t" "queue_fits n (t\<lparr>s_risk := r\<rparr>) = queue_fits n t" for t w r
    by (simp_all add: queue_fits_def)
  have c: "queue_fits n t \<Longrightarrow> queue_fits n (clear_failed_creates ops t)" for t
    using assms(1) Some by (auto simp: queue_fits_def ops_fit_def)
  show ?thesis using assms Some by (simp add: sender_wake_def case_prod_beta Let_def send_once_fits q c)
qed

lemma pause_now_events [simp]: "s_events (pause_now api r s) = s_events s"
  by (simp add: pause_now_def)

lemma poller_events [simp]:
  "s_events (mark_rec api ok why s) = s_events s"
  "s_events (pause_if_streak pc api r s) = s_events s" "s_events (arm_pause api r s) = s_events s"
  "s_events (cancel_once api s) = s_events s" "s_events (judge_snapshot pc api tr os s) = s_events s"
  by (simp_all add: mark_rec_def pause_if_streak_def arm_pause_def cancel_once_def judge_snapshot_def Let_def)

lemma refresh_events [simp]: "s_events (snd (refresh_nonce api s)) = s_events s"
  using control_fields [OF control_refresh_nonce [of api s]] by blast

lemma cancel_orphan_events [simp]: "s_events (cancel_orphan api eid s) = s_events s"
  by (simp add: cancel_orphan_def refresh_or_distrust_def case_prod_beta Let_def split: sum.split)

lemma cancel_orphans_events [simp]: "s_events (foldl (\<lambda>s eid. cancel_orphan api eid s) s es) = s_events s"
  by (induction es arbitrary: s) simp_all

lemma resync_if_untrusted_events [simp]: "s_events (resync_if_untrusted api s) = s_events s"
  by (simp add: resync_if_untrusted_def case_prod_beta)

lemma position_fallback_events [simp]: "s_events (c_sender (position_fallback pc api ap c)) = s_events (c_sender c)"
  by (simp add: position_fallback_def Let_def split: option.split)

lemma deadman_events [simp]: "s_events (deadman pc api s) = s_events s"
  by (simp add: deadman_def Let_def)

lemma poll_events: "s_events (c_sender (poll_once pc api ap c)) = s_events (c_sender c)"
proof (cases "polled_orders pc api c")
  case None
  from poll_failed [OF this, of ap] show ?thesis by auto
next
  case (Some os)
  then show ?thesis by (rule poll_fetched [of _ _ _ _ ap]) (simp add: act_on_snapshot_def Let_def)
qed

lemma queue_fits_emit: "queue_fits n (emit es s) \<longleftrightarrow> queue_fits n s \<and> (\<forall>e \<in> set es. event_fits n e)"
  by (auto simp: queue_fits_def)

lemma queue_fits_tell_pnl [simp]: "queue_fits n (tell_pnl e s) = queue_fits n s"
  by (simp add: queue_fits_def tell_pnl_def)

lemma id_events_fit: "e \<in> set (id_events os) \<Longrightarrow> event_fits n e"
  by (auto simp: id_events_def List.map_filter_def event_fits_def split: option.splits)

lemma fill_events_fit: "e \<in> set (fill_events fp acct t) \<Longrightarrow> event_fits n e"
  by (auto simp: fill_events_def event_fits_def Let_def split: if_splits option.splits bool.splits)

lemma account_events_fit:
  assumes "queue_fits n (c_sender c)"
  shows "queue_fits n (c_sender (on_account_orders msg c))" "queue_fits n (c_sender (on_account_all fp mkt ms msg' c))"
    "queue_fits n (c_sender (on_user_stats fp msg'' c))"
proof -
  show "queue_fits n (c_sender (on_account_orders msg c))"
    using assms by (auto simp: on_account_orders_def queue_fits_emit intro: id_events_fit)
  show "queue_fits n (c_sender (on_account_all fp mkt ms msg' c))"
    using assms by (auto simp: on_account_all_def queue_fits_emit Let_def intro: fill_events_fit split: option.splits)
  show "queue_fits n (c_sender (on_user_stats fp msg'' c))"
    using assms by (auto simp: on_user_stats_def queue_fits_def tell_pnl_def Let_def split: option.splits)
qed

lemma account_tracked [simp]:
  "c_tracked_ids (on_account_orders msg c) = c_tracked_ids c" "c_tracked_ids (on_account_all fp mkt ms msg' c) = c_tracked_ids c"
  "c_tracked_ids (on_user_stats fp msg'' c) = c_tracked_ids c"
  by (simp_all add: on_account_orders_def on_account_all_def on_user_stats_def Let_def split: option.split)

lemma position_fallback_tracked [simp]: "c_tracked_ids (position_fallback pc api ap c) = c_tracked_ids c"
  by (simp add: position_fallback_def Let_def split: option.split)

lemma poll_tracked [simp]: "c_tracked_ids (poll_once pc api ap c) = c_tracked_ids c"
proof (cases "polled_orders pc api c")
  case None
  from poll_failed [OF this, of ap] show ?thesis by auto
next
  case (Some os)
  then show ?thesis by (rule poll_fetched [of _ _ _ _ ap]) (simp add: act_on_snapshot_def Let_def)
qed

section \<open>What a batch's outcome does to the ladder\<close>

definition settled_slot :: "instant \<Rightarrow> batch_op \<Rightarrow> order_slot \<Rightarrow> order_slot" where
  "settled_slot t op x =
     (case op_action op of Cancel \<Rightarrow> idle_slot t | _ \<Rightarrow> bind_live_slot t (op_client_order_id op) (op_price op) (op_size op) x)"

text \<open>A slot of the manager holds the order of the operation.\<close>

definition holds_op :: "order_manager \<Rightarrow> batch_op \<Rightarrow> bool" where
  "holds_op m op \<longleftrightarrow> op_level op < length (side_slots m (op_side op)) \<and>
     order_id (slot m (op_side op) (op_level op)) = Some (op_client_order_id op)"

lemma apply_success_event:
  assumes "holds_op m op"
  shows "\<exists>m'. apply_event m t (success_event op) = Some m' \<and> (\<forall>s. length (side_slots m' s) = length (side_slots m s)) \<and>
    (\<forall>s l. slot m' s l = (if op_key op = (l, s) then settled_slot t op (slot m s l) else slot m s l))"
  using assms
  by (cases "op_action op")
    (auto simp: holds_op_def success_event_def clear_event_def apply_event_def bind_live_def clear_live_def settled_slot_def slot_slot_mut
      split: option.split)

lemma apply_clear_event:
  assumes "holds_op m op"
  shows "\<exists>m'. apply_event m t (clear_event op) = Some m' \<and> (\<forall>s. length (side_slots m' s) = length (side_slots m s)) \<and>
    (\<forall>s l. slot m' s l = (if op_key op = (l, s) then idle_slot t else slot m s l))"
  using assms by (auto simp: holds_op_def clear_event_def apply_event_def clear_live_def slot_slot_mut)

text \<open>One event per operation, each touching only its own slot.\<close>

lemma apply_op_events:
  assumes one: "\<And>m op. holds_op m op \<Longrightarrow> \<exists>m'. apply_event m t (ev op) = Some m' \<and>
      (\<forall>s. length (side_slots m' s) = length (side_slots m s)) \<and>
      (\<forall>s l. slot m' s l = (if op_key op = (l, s) then upd op (slot m s l) else slot m s l))"
    and "distinct (map op_key ops)" "\<forall>op \<in> set ops. holds_op m op"
  shows "\<exists>m'. apply_events m t (map ev ops) = Some m' \<and>
    (\<forall>op \<in> set ops. slot m' (op_side op) (op_level op) = upd op (slot m (op_side op) (op_level op))) \<and>
    (\<forall>s l. (l, s) \<notin> op_key ` set ops \<longrightarrow> slot m' s l = slot m s l)"
  using assms(2,3)
proof (induction ops arbitrary: m)
  case (Cons op ops)
  from one [of m op] Cons.prems(2) obtain m1 where m1: "apply_event m t (ev op) = Some m1"
    "\<forall>s. length (side_slots m1 s) = length (side_slots m s)"
    "\<forall>s l. slot m1 s l = (if op_key op = (l, s) then upd op (slot m s l) else slot m s l)" by auto
  have other: "op_key x \<noteq> op_key op" if "x \<in> set ops" for x
    using Cons.prems(1) image_eqI [OF refl that, of op_key] by auto
  have kept: "slot m1 (op_side x) (op_level x) = slot m (op_side x) (op_level x)" if "x \<in> set ops" for x
    using m1(3) other [OF that] by auto
  have "\<forall>x \<in> set ops. holds_op m1 x" using Cons.prems(2) m1(2) kept by (simp add: holds_op_def)
  with Cons.IH [of m1] Cons.prems(1) obtain m2 where m2: "apply_events m1 t (map ev ops) = Some m2"
    "\<forall>x \<in> set ops. slot m2 (op_side x) (op_level x) = upd x (slot m1 (op_side x) (op_level x))"
    "\<forall>s l. (l, s) \<notin> op_key ` set ops \<longrightarrow> slot m2 s l = slot m1 s l" by auto
  have "op_key op \<notin> op_key ` set ops" using Cons.prems(1) by simp
  with m1 m2 kept show ?case by auto
qed simp

lemma published_batch:
  assumes "hot_wf h" "on_orderbook fp h msg t ms = Some h'" "h_ops h' = h_ops h @ [ops]"
  shows "distinct (map op_key ops)" "\<forall>op \<in> set ops. holds_op (h_om h') op"
proof -
  from on_orderbook_spec [OF assms(1), of fp msg t ms] assms(2,3) have b: "batch_promise h' t ms ops" "hot_wf h'" by auto
  then show "distinct (map op_key ops)" by (auto simp: batch_promise_def strict_sorted_iff)
  show "\<forall>op \<in> set ops. holds_op (h_om h') op"
    using b by (auto simp: batch_promise_def order_kept_def holds_op_def hot_wf_def om_wf_def)
qed

text \<open>
  C5. A published batch comes back to the ladder. The decision task publishes a batch, the sender
  handles it (gate, signing, transmission, any outcome), and the decision task applies the events
  this produced: either every operation has taken effect (a create or modify is live with its
  client id, price and size, a cancelled slot is idle), or every slot of a create is idle again,
  free for a new quote, and the rest is as published, or no event came, and then a reconcile has
  been requested and the breaker refuses to resume before one succeeds.
\<close>

theorem batch_round_trip:
  assumes "hot_wf h" "on_orderbook fp h msg t ms = Some h'" "h_ops h' = h_ops h @ [ops]"
    and "s' = send_once api ops s" and "s_events s' = s_events s @ evs"
  shows "\<exists>m. apply_events (h_om h') u evs = Some m \<and>
    ((\<forall>op \<in> set ops. let x = slot m (op_side op) (op_level op) in
        if op_action op = Cancel then x = idle_slot u
        else status x = Live \<and> order_id x = Some (op_client_order_id op) \<and> slot_price x = Some (op_price op) \<and>
             slot_size x = Some (op_size op)) \<or>
     (\<forall>op \<in> set ops. slot m (op_side op) (op_level op) =
        (if op_action op = Create then idle_slot u else slot (h_om h') (op_side op) (op_level op))) \<or>
     m = h_om h' \<and> s_reconcile s' = Suc (s_reconcile s) \<and> (\<forall>now ws. \<not> fst (maybe_recover (s_risk s') now ws)))"
proof -
  note pub = published_batch [OF assms(1-3)]
  consider (ok) "evs = map success_event ops" | (failed) "evs = failed_creates ops"
    | (unknown) "evs = []" "s_reconcile s' = Suc (s_reconcile s)" "\<forall>now ws. \<not> fst (maybe_recover (s_risk s') now ws)"
    using send_once_outcome [of api ops s] assms(4,5) by auto
  then show ?thesis
  proof cases
    case ok
    from apply_op_events [OF apply_success_event pub] obtain m where m: "apply_events (h_om h') u evs = Some m"
      "\<forall>op \<in> set ops. slot m (op_side op) (op_level op) = settled_slot u op (slot (h_om h') (op_side op) (op_level op))"
      unfolding ok by blast
    then have "\<forall>op \<in> set ops. let x = slot m (op_side op) (op_level op) in
        if op_action op = Cancel then x = idle_slot u
        else status x = Live \<and> order_id x = Some (op_client_order_id op) \<and> slot_price x = Some (op_price op) \<and>
             slot_size x = Some (op_size op)"
      by (auto simp: settled_slot_def bind_live_slot_def Let_def split: order_action.splits)
    with m(1) show ?thesis by blast
  next
    case failed
    let ?cs = "filter (\<lambda>op. op_action op = Create) ops"
    have "distinct (map op_key ?cs)" "\<forall>op \<in> set ?cs. holds_op (h_om h') op"
      using pub by (auto intro: distinct_map_filter)
    from apply_op_events [where upd = "\<lambda>_ _. idle_slot u", OF apply_clear_event this] obtain m
      where m: "apply_events (h_om h') u evs = Some m"
        "\<forall>op \<in> set ?cs. slot m (op_side op) (op_level op) = idle_slot u"
        "\<forall>s l. (l, s) \<notin> op_key ` set ?cs \<longrightarrow> slot m s l = slot (h_om h') s l"
      unfolding failed by blast
    have "op_key op \<notin> op_key ` set ?cs" if "op \<in> set ops" "op_action op \<noteq> Create" for op
    proof
      assume "op_key op \<in> op_key ` set ?cs"
      then obtain x where x: "op_key op = op_key x" "x \<in> set ?cs" by (rule imageE)
      then have "x \<in> set ops" by simp
      then have "x = op" using inj_onD [OF conjunct2 [OF pub(1) [unfolded distinct_map]] x(1) [symmetric]] that(1) by blast
      with x(2) that(2) show False by simp
    qed
    with m have "\<forall>op \<in> set ops. slot m (op_side op) (op_level op) =
        (if op_action op = Create then idle_slot u else slot (h_om h') (op_side op) (op_level op))" by auto
    with m(1) show ?thesis by blast
  next
    case unknown
    then show ?thesis by simp
  qed
qed

theorem batch_round_trip_witness:
  "\<exists>h' m. on_orderbook (\<lambda>_. None) holding_hot sample_snapshot 0 1 = Some h' \<and> h_ops h' = [[exit_op]] \<and>
     apply_events (h_om h') 5 (s_events (send_once accepting_api [exit_op] (sample_sender 8 7))) = Some m"
proof -
  obtain h' where h': "on_orderbook (\<lambda>_. None) holding_hot sample_snapshot 0 1 = Some h'" "h_ops h' = [[exit_op]]"
    using holding_run by blast
  then have "h_ops h' = h_ops holding_hot @ [[exit_op]]" by (simp add: holding_fields)
  from batch_round_trip [OF holding_wf h'(1) this refl, of accepting_api "sample_sender 8 7"
      "s_events (send_once accepting_api [exit_op] (sample_sender 8 7))" 5] h'
  show ?thesis by (auto simp: sample_sender_def)
qed

section \<open>The program never panics\<close>

definition sys_wf :: "nat \<Rightarrow> 'w system \<Rightarrow> bool" where
  "sys_wf n y \<longleftrightarrow>
     (case y_hot y of None \<Rightarrow> False | Some h \<Rightarrow> hot_wf h \<and> h_num_levels h = n \<and> c_tracked_ids (y_cold y) = h_tracked_ids h) \<and>
     queue_fits n (c_sender (y_cold y)) \<and> (case y_mail y of None \<Rightarrow> True | Some ops \<Rightarrow> ops_fit n ops)"

lemma to_hot_wf: "hot_wf h \<Longrightarrow> queue_fits (h_num_levels h) (c_sender c) \<Longrightarrow> hot_wf (to_hot c h)"
  by (auto simp: hot_wf_def to_hot_def queue_fits_def)

lemma market_data_wf:
  assumes "sys_wf n y"
  shows "sys_wf n (market_data fp msg t ms y)"
proof -
  from assms obtain h where h: "y_hot y = Some h" "hot_wf h" "h_num_levels h = n" "queue_fits n (c_sender (y_cold y))"
    "case y_mail y of None \<Rightarrow> True | Some ops \<Rightarrow> ops_fit n ops"
    by (auto simp: sys_wf_def split: option.splits)
  let ?h = "to_hot (y_cold y) h"
  from on_orderbook_spec [OF to_hot_wf [of h "y_cold y"], of fp msg t ms] h obtain h'
    where h': "on_orderbook fp ?h msg t ms = Some h'" "hot_wf h'" "h_num_levels h' = n"
      and pub: "h_ops h' = h_ops ?h \<or> (\<exists>ops. h_ops h' = h_ops ?h @ [ops] \<and> batch_promise h' t ms ops)"
    by (auto simp: to_hot_def)
  have "case newest_mail ?h h' (y_mail y) of None \<Rightarrow> True | Some ops \<Rightarrow> ops_fit n ops"
    using pub h(5) h'(3) by (auto simp: newest_mail_def batch_promise_def order_kept_def ops_fit_def)
  then show ?thesis using h h' by (simp add: market_data_def sys_wf_def from_hot_def queue_fits_def Let_def)
qed

interpretation sys: step_system "sys_step_fun fp api ap pc mkt" "\<lambda>_ _. True" "sys_wf n"
  for fp and api :: "'w api" and ap pc mkt n
proof
  fix y :: "'w system" and e
  assume wf: "sys_wf n y"
  show "sys_wf n (sys_step_fun fp api ap pc mkt y e)"
  proof (cases e)
    case (Market_Data msg t ms)
    then show ?thesis using market_data_wf [OF wf] by (simp add: sys_step_fun_def)
  next
    case (Ticker msg t)
    then show ?thesis using wf
      by (auto simp: sys_step_fun_def sys_wf_def hot_wf_def on_ticker_def split: option.splits)
  next
    case Sender_Batch
    then show ?thesis using wf sender_wake_fits [where b = "y_mail y" and n = n and s = "c_sender (y_cold y)" and api = api]
      by (cases "y_mail y") (auto simp: sys_step_fun_def sys_wf_def split: option.splits)
  next
    case Sender_Tick
    then show ?thesis using wf sender_wake_fits [where b = None and n = n and s = "c_sender (y_cold y)" and api = api]
      by (auto simp: sys_step_fun_def sys_wf_def split: option.splits)
  next
    case Poll
    then show ?thesis using wf by (auto simp: sys_step_fun_def sys_wf_def queue_fits_def poll_events split: option.splits)
  qed (use wf account_events_fit in \<open>auto simp: sys_step_fun_def sys_wf_def hot_wf_def on_disconnect_def split: option.splits\<close>)
qed

lemma launch_wf:
  assumes "launch fp now cfg d s = Some y"
  shows "sys_wf (max (levels_per_side (cfg_trading cfg)) 1) y"
proof -
  let ?n = "max (levels_per_side (cfg_trading cfg)) 1" and ?m = "bootstrap fp d"
  let ?base = "base_amount_seed cfg ?m"
  from assms obtain h where h: "hot_new now ?m cfg ?base (alpha_new (al_min_samples (tr_alpha (cfg_trading cfg)))) position_new
      (seed_derived Live_Mode ?base) (Some 0) Live_Mode = Some h" "y_hot y = Some (h\<lparr>h_loop_start := Some now\<rparr>)"
    "y_mail y = None" "s_events (c_sender (y_cold y)) = []" "c_tracked_ids (y_cold y) = []"
    by (auto simp: launch_def Let_def)
  have "h_tracked_ids h = []" using h(1) by (auto simp: hot_new_def Let_def bind_eq_Some_conv)
  with h hot_new_wf [OF h(1)] show ?thesis
    by (auto simp: sys_wf_def hot_state_wf_def hot_wf_def queue_fits_def)
qed

text \<open>
  C4. The launched program never panics. From a live start on, whatever the exchange answers
  and in whatever order market data, ticks, disconnects, alpha updates, sender turns, recovery
  ticks, reconcile polls and account messages are handled, the decision task is alive with a
  well-formed order manager of the configured size, every event waiting for it names a slot of
  its ladder, a batch in the mailbox names only such slots, and the client ids the reconcile
  poller compares against are those the decision task last published.
\<close>

theorem system_never_panics:
  assumes "launch fp now cfg d s = Some y0" and "y = foldl (sys_step_fun fp api ap pc mkt) y0 es"
  shows "\<exists>h. y_hot y = Some h \<and> om_wf (h_om h) \<and> num_levels (h_om h) = max (levels_per_side (cfg_trading cfg)) 1 \<and>
    c_tracked_ids (y_cold y) = h_tracked_ids h \<and> h_tracked_ids h = h_last_tracked h \<and>
    (\<forall>e \<in> set (s_events (c_sender (y_cold y))). event_fits (num_levels (h_om h)) e) \<and>
    (case y_mail y of None \<Rightarrow> True | Some ops \<Rightarrow> \<forall>op \<in> set ops. op_level op < num_levels (h_om h))"
  using sys.run_inv [OF launch_wf [OF assms(1)], of fp api ap pc mkt es] assms(2)
  by (auto simp: sys_wf_def hot_wf_def queue_fits_def ops_fit_def split: option.splits)

definition sample_detail :: order_book_detail where
  "sample_detail = \<lparr>obd_symbol = ''BTC'', obd_market_id = 1, obd_min_base_amount = ''1'', obd_min_quote_amount = ''1'',
     supported_size_decimals = 2, supported_price_decimals = 1, obd_maker_fee = [], obd_status = ''active''\<rparr>"

theorem system_never_panics_witness:
  "\<exists>y0 h. launch (\<lambda>_. Some 1) 0 sample_config sample_detail (sample_sender 8 7) = Some y0 \<and>
     y_hot (foldl (sys_step_fun (\<lambda>_. Some 1) accepting_api (\<lambda>a m w. (Some 2, w)) sample_poller_cfg ''1'') y0
       [Poll, Market_Data sample_snapshot 0 1, Sender_Batch, Md_Disconnect, Sender_Tick, Market_Data sample_snapshot 9 2]) = Some h \<and>
     om_wf (h_om h) \<and> num_levels (h_om h) = 2"
proof -
  obtain y0 where y0: "launch (\<lambda>_. Some 1) 0 sample_config sample_detail (sample_sender 8 7 :: i64w sender) = Some y0"
    by (simp add: launch_def hot_new_def calculator_new_def rolling_new_def bootstrap_def sample_config_def sample_detail_def
        default_config_def default_trading_def default_vol_obi_cfg_def Let_def)
  have "levels_per_side (cfg_trading sample_config) = 2" by (simp add: sample_config_def)
  with system_never_panics [OF y0 refl, of accepting_api "\<lambda>a m w. (Some 2, w)" sample_poller_cfg "''1''"
      "[Poll, Market_Data sample_snapshot 0 1, Sender_Batch, Md_Disconnect, Sender_Tick, Market_Data sample_snapshot 9 2]"] y0
  show ?thesis by auto
qed

end
