(* ===== verification/Json.thy ===== *)
theory Json
  imports Prelude
begin

text \<open>
  Decoded JSON values (\<open>serde_json::Value\<close>) and the accessors the sources use on them. Parsing text
  into a value and printing one are library code: the components take them as parameters.
\<close>

datatype json = JNull | JBool bool | JInt int | JReal f64 | JStr string | JArr "json list" | JObj "(string \<times> json) list"

text \<open>An object of \<open>serde_json\<close> keeps the last of several members with one name.\<close>

definition json_get :: "json \<Rightarrow> string \<Rightarrow> json option" where
  "json_get v k = (case v of JObj kvs \<Rightarrow> map_of (rev kvs) k | _ \<Rightarrow> None)"

definition json_i64 :: "json \<Rightarrow> int option" where
  "json_i64 v = (case v of JInt i \<Rightarrow> if i64_min \<le> i \<and> i \<le> i64_max then Some i else None | _ \<Rightarrow> None)"

definition json_str :: "json \<Rightarrow> string option" where
  "json_str v = (case v of JStr s \<Rightarrow> Some s | _ \<Rightarrow> None)"

definition json_array :: "json \<Rightarrow> json list option" where
  "json_array v = (case v of JArr xs \<Rightarrow> Some xs | _ \<Rightarrow> None)"

text \<open>\<open>v.get(k).and_then(as_i64).unwrap_or(d)\<close>\<close>

definition int_field :: "json \<Rightarrow> string \<Rightarrow> int \<Rightarrow> int" where
  "int_field v k d = (case Option.bind (json_get v k) json_i64 of None \<Rightarrow> d | Some i \<Rightarrow> i)"

end
