(* ===== verification/Tx_Ws.thy ===== *)
theory Tx_Ws
  imports Json Paced_Send
begin

text \<open>
  \<^verbatim>\<open>src/src/lighter/tx_ws.rs\<close>: the transaction websocket and the outcome it reports for a batch. The
  network is a record of functions on a world: opening a connection, writing a frame, what the
  socket delivers while a send waits, and what happened on the connection since the last send. The
  background reader (\<open>recv_loop\<close>) queues responses on the connection and the send takes the head of
  that queue. The frame's JSON text and the printer of a JSON value are parameters.
\<close>

section \<open>Responses\<close>

text \<open>The message field as raw text; anything but a string is printed.\<close>

definition extract_message :: "(json \<Rightarrow> string) \<Rightarrow> json option \<Rightarrow> string" where
  "extract_message render v =
     (case v of Some (JStr s) \<Rightarrow> s | Some JNull \<Rightarrow> [] | Some other \<Rightarrow> render other | None \<Rightarrow> [])"

definition norm_code :: "int \<Rightarrow> int" where
  "norm_code c = (if c = 200 then 0 else c)"

definition plain_code :: "(json \<Rightarrow> string) \<Rightarrow> json \<Rightarrow> int \<times> string" where
  "plain_code render resp =
     (let c = (case json_get resp ''code'' of None \<Rightarrow> json_get resp ''status_code'' | Some x \<Rightarrow> Some x);
          code = (case Option.bind c json_i64 of None \<Rightarrow> 0 | Some i \<Rightarrow> i)
      in (norm_code code, extract_message render (json_get resp ''message'')))"

definition code_message :: "(json \<Rightarrow> string) \<Rightarrow> json \<Rightarrow> int \<times> string" where
  "code_message render resp =
     (case json_get resp ''error'' of
        Some (JObj kvs) \<Rightarrow> (norm_code (int_field (JObj kvs) ''code'' (- 1)), extract_message render (json_get (JObj kvs) ''message''))
      | Some JNull \<Rightarrow> plain_code render resp
      | Some err \<Rightarrow> (- 1, render err)
      | None \<Rightarrow> plain_code render resp)"

section \<open>The reader\<close>

datatype ws_message = Ws_Text "json option" \<comment> \<open>\<open>None\<close>: not JSON\<close> | Ws_Ping | Ws_Pong | Ws_Close | Ws_Other | Ws_Error

datatype recv_action = Skip | App_Pong | Route json | Stop_Reading

definition recv_action_of :: "ws_message \<Rightarrow> recv_action" where
  "recv_action_of m =
     (case m of
        Ws_Text None \<Rightarrow> Skip
      | Ws_Text (Some v) \<Rightarrow>
          (let ty = Option.bind (json_get v ''type'') json_str
           in if ty = Some ''ping'' then App_Pong
              else if ty = Some ''connected'' \<or> ty = Some ''subscribed'' then Skip
              else Route v)
      | Ws_Close \<Rightarrow> Stop_Reading
      | Ws_Error \<Rightarrow> Stop_Reading
      | _ \<Rightarrow> Skip)"

section \<open>Sending\<close>

record 'w network =
  n_open :: "'w \<Rightarrow> bool \<times> 'w"
  n_write :: "string \<Rightarrow> 'w \<Rightarrow> string option \<times> 'w" \<comment> \<open>the error, if any\<close>
  n_incoming :: "'w \<Rightarrow> (bool \<times> ws_message list) \<times> 'w" \<comment> \<open>can pongs be written, and what arrives until the send resumes\<close>
  n_between :: "'w \<Rightarrow> (bool \<times> ws_message list \<times> bool list) \<times> 'w" \<comment> \<open>the same since the last send, and the results of the pinger's writes\<close>

record conn =
  cn_alive :: bool
  cn_queue :: "json list" \<comment> \<open>routed responses nobody has taken\<close>

record tx_web_socket =
  tw_ping_interval :: duration
  tw_conn :: "conn option"

definition with_ping_interval :: "duration \<Rightarrow> tx_web_socket" where
  "with_ping_interval d = \<lparr>tw_ping_interval = from_secs_f64 (max 5 (min (as_secs_f64 d) 110)), tw_conn = None\<rparr>"

definition DEFAULT_PING_INTERVAL :: duration where "DEFAULT_PING_INTERVAL = 20 * 10 ^ 9"

definition tx_ws_new :: tx_web_socket where "tx_ws_new = with_ping_interval DEFAULT_PING_INTERVAL"

definition tx_open :: "'w network \<Rightarrow> 'w \<Rightarrow> conn option \<times> 'w" where
  "tx_open net w = (case n_open net w of (ok, w1) \<Rightarrow> (if ok then Some \<lparr>cn_alive = True, cn_queue = []\<rparr> else None, w1))"

definition tx_connect :: "'w network \<Rightarrow> tx_web_socket \<Rightarrow> 'w \<Rightarrow> bool \<times> tx_web_socket \<times> 'w" where
  "tx_connect net tw w =
     (case tx_open net w of
        (None, w1) \<Rightarrow> (False, tw, w1)
      | (Some cn, w1) \<Rightarrow> (True, tw\<lparr>tw_conn := Some cn\<rparr>, w1))"

text \<open>
  The background reader over what the socket delivers: responses are queued, and the connection is
  dead once the reader stops (after the last delivery it is still waiting). The pinger, over the
  results of its writes, stops on a dead connection or kills it.
\<close>

fun recv_loop :: "bool \<Rightarrow> ws_message list \<Rightarrow> conn \<Rightarrow> conn" where
  "recv_loop pong_ok [] cn = cn"
| "recv_loop pong_ok (m # ms) cn =
     (case recv_action_of m of
        Skip \<Rightarrow> recv_loop pong_ok ms cn
      | App_Pong \<Rightarrow> if pong_ok then recv_loop pong_ok ms cn else cn\<lparr>cn_alive := False\<rparr>
      | Route v \<Rightarrow> recv_loop pong_ok ms (cn\<lparr>cn_queue := cn_queue cn @ [v]\<rparr>)
      | Stop_Reading \<Rightarrow> cn\<lparr>cn_alive := False\<rparr>)"

fun ping_loop :: "bool list \<Rightarrow> conn \<Rightarrow> conn" where
  "ping_loop [] cn = cn"
| "ping_loop (write_ok # ticks) cn =
     (if \<not> cn_alive cn then cn else if write_ok then ping_loop ticks cn else cn\<lparr>cn_alive := False\<rparr>)"

text \<open>The frame of a batch: the two lists are JSON texts inside it.\<close>

definition batch_frame :: "(json \<Rightarrow> string) \<Rightarrow> 8 word list \<Rightarrow> string list \<Rightarrow> string" where
  "batch_frame render ts infos =
     render (JObj
       [(''data'', JObj [(''tx_infos'', JStr (render (JArr (map JStr infos)))),
                         (''tx_types'', JStr (render (JArr (map (\<lambda>t. JInt (uint t)) ts))))]),
        (''type'', JStr ''jsonapi/sendtxbatch'')])"

definition response_result :: "(json \<Rightarrow> string) \<Rightarrow> json \<Rightarrow> tx_send_result" where
  "response_result render resp =
     (let (code, msg) = code_message render resp
      in \<lparr>tx_status = (if code = 0 then Ok else Rejected), tx_code = code, tx_message = msg,
          tx_quota_remaining = Option.bind (json_get resp ''volume_quota_remaining'') json_i64\<rparr>)"

text \<open>
  With a live connection: drop the responses still queued, write the frame, and take the first
  response the reader queues from then on; more may follow it and stay queued.
\<close>

definition send_on ::
  "'w network \<Rightarrow> (json \<Rightarrow> string) \<Rightarrow> string \<Rightarrow> tx_web_socket \<Rightarrow> conn \<Rightarrow> 'w \<Rightarrow> tx_send_result \<times> tx_web_socket \<times> 'w" where
  "send_on net render frame tw cn w =
     (let cn1 = cn\<lparr>cn_queue := []\<rparr>
      in case n_write net frame w of
           (Some e, w1) \<Rightarrow> (unknown (''send_failed:'' @ e), tw\<lparr>tw_conn := Some (cn1\<lparr>cn_alive := False\<rparr>)\<rparr>, w1)
         | (None, w1) \<Rightarrow>
             let ((pong_ok, msgs), w2) = n_incoming net w1;
                 cn2 = recv_loop pong_ok msgs cn1
             in (case cn_queue cn2 of
                   resp # rest \<Rightarrow> (response_result render resp, tw\<lparr>tw_conn := Some (cn2\<lparr>cn_queue := rest\<rparr>)\<rparr>, w2)
                 | [] \<Rightarrow> (unknown (if cn_alive cn2 then ''response_timeout'' else ''disconnected_after_send''),
                         tw\<lparr>tw_conn := Some (cn2\<lparr>cn_alive := False\<rparr>)\<rparr>, w2)))"

definition is_connected :: "tx_web_socket \<Rightarrow> bool" where
  "is_connected tw = (case tw_conn tw of None \<Rightarrow> False | Some cn \<Rightarrow> cn_alive cn)"

text \<open>What the two background tasks of a live connection did since the last send.\<close>

definition between_sends :: "'w network \<Rightarrow> tx_web_socket \<Rightarrow> 'w \<Rightarrow> tx_web_socket \<times> 'w" where
  "between_sends net tw w =
     (if is_connected tw
      then let ((pong_ok, msgs, ticks), w1) = n_between net w
           in (tw\<lparr>tw_conn := Some (ping_loop ticks (recv_loop pong_ok msgs (the (tw_conn tw))))\<rparr>, w1)
      else (tw, w))"

definition ws_send_batch ::
  "'w network \<Rightarrow> (json \<Rightarrow> string) \<Rightarrow> (8 word list \<Rightarrow> string list \<Rightarrow> string) \<Rightarrow> 8 word list \<Rightarrow> string list
   \<Rightarrow> tx_web_socket \<Rightarrow> 'w \<Rightarrow> tx_send_result \<times> tx_web_socket \<times> 'w" where
  "ws_send_batch net render frame_of ts infos tw w =
     (let (tw0, w0) = between_sends net tw w
      in if is_connected tw0 then send_on net render (frame_of ts infos) tw0 (the (tw_conn tw0)) w0
         else case tx_open net w0 of
                (None, w1) \<Rightarrow> (not_sent ''connect_failed'', tw0, w1)
              | (Some cn, w1) \<Rightarrow> send_on net render (frame_of ts infos) (tw0\<lparr>tw_conn := Some cn\<rparr>) cn w1)"

section \<open>What the exchange said\<close>

text \<open>
  The meaning of a message, in its own words: a response is a JSON text of no informational type; a
  member says an integer when it is one of 64 bits.
\<close>

definition typed :: "json \<Rightarrow> string \<Rightarrow> bool" where
  "typed v t \<longleftrightarrow> json_get v ''type'' = Some (JStr t)"

definition tx_response :: "ws_message \<Rightarrow> json \<Rightarrow> bool" where
  "tx_response m v \<longleftrightarrow> m = Ws_Text (Some v) \<and> \<not> typed v ''ping'' \<and> \<not> typed v ''connected'' \<and> \<not> typed v ''subscribed''"

definition ends_reading :: "bool \<Rightarrow> ws_message \<Rightarrow> bool" where
  "ends_reading pong_ok m \<longleftrightarrow> m = Ws_Close \<or> m = Ws_Error \<or> (\<not> pong_ok \<and> (\<exists>v. m = Ws_Text (Some v) \<and> typed v ''ping''))"

definition says_int :: "json \<Rightarrow> string \<Rightarrow> int \<Rightarrow> bool" where
  "says_int v k c \<longleftrightarrow> json_get v k = Some (JInt c) \<and> i64_min \<le> c \<and> c \<le> i64_max"

text \<open>
  The code of a response: that of its error object, \<open>-1\<close> for an error without one, otherwise its
  \<open>code\<close>, or \<open>status_code\<close> when it has no \<open>code\<close>, and 0 when that is no integer or there is neither.
\<close>

inductive reply_code :: "json \<Rightarrow> int \<Rightarrow> bool" where
  error_code: "json_get v ''error'' = Some (JObj e) \<Longrightarrow> says_int (JObj e) ''code'' c \<Longrightarrow> reply_code v c"
| error_bare: "json_get v ''error'' = Some (JObj e) \<Longrightarrow> (\<And>c. \<not> says_int (JObj e) ''code'' c) \<Longrightarrow> reply_code v (- 1)"
| error_value: "json_get v ''error'' = Some x \<Longrightarrow> x \<noteq> JNull \<Longrightarrow> (\<And>e. x \<noteq> JObj e) \<Longrightarrow> reply_code v (- 1)"
| own_code: "json_get v ''error'' \<in> {None, Some JNull} \<Longrightarrow> says_int v ''code'' c \<Longrightarrow> reply_code v c"
| status_code: "json_get v ''error'' \<in> {None, Some JNull} \<Longrightarrow> json_get v ''code'' = None \<Longrightarrow> says_int v ''status_code'' c \<Longrightarrow> reply_code v c"
| no_code: "json_get v ''error'' \<in> {None, Some JNull} \<Longrightarrow> json_get v ''code'' \<noteq> None \<or> (\<forall>c. \<not> says_int v ''status_code'' c) \<Longrightarrow>
    (\<And>c. \<not> says_int v ''code'' c) \<Longrightarrow> reply_code v 0"

inductive reply_text :: "json \<Rightarrow> string \<Rightarrow> bool" where
  error_text: "json_get v ''error'' = Some (JObj e) \<Longrightarrow> json_get (JObj e) ''message'' = Some (JStr s) \<Longrightarrow> reply_text v s"
| own_text: "json_get v ''error'' \<in> {None, Some JNull} \<Longrightarrow> json_get v ''message'' = Some (JStr s) \<Longrightarrow> reply_text v s"

lemma json_i64_Some [simp]: "Option.bind (json_get v k) json_i64 = Some c \<longleftrightarrow> says_int v k c"
  by (auto simp: says_int_def json_i64_def split: option.splits json.splits bind_splits if_splits)

lemma json_i64_None [simp]: "Option.bind (json_get v k) json_i64 = None \<longleftrightarrow> (\<forall>c. \<not> says_int v k c)"
  by (metis json_i64_Some not_Some_eq)

lemma recv_action_meaning:
  "recv_action_of m = Route v \<longleftrightarrow> tx_response m v"
  "recv_action_of m = Stop_Reading \<or> (recv_action_of m = App_Pong \<and> \<not> p) \<longleftrightarrow> ends_reading p m"
  by (auto simp: recv_action_of_def tx_response_def ends_reading_def typed_def json_str_def Let_def
      split: ws_message.splits option.splits json.splits bind_splits if_splits)

text \<open>The responses the reader queues, and whether it ends.\<close>

fun routed :: "bool \<Rightarrow> ws_message list \<Rightarrow> json list" where
  "routed pong_ok [] = []"
| "routed pong_ok (m # ms) =
     (case recv_action_of m of
        Skip \<Rightarrow> routed pong_ok ms
      | App_Pong \<Rightarrow> if pong_ok then routed pong_ok ms else []
      | Route v \<Rightarrow> v # routed pong_ok ms
      | Stop_Reading \<Rightarrow> [])"

lemma recv_loop_queue: "cn_queue (recv_loop p ms cn) = cn_queue cn @ routed p ms"
  by (induction p ms cn rule: recv_loop.induct) (auto split: recv_action.splits)

lemma recv_loop_alive: "cn_alive (recv_loop p ms cn) \<longleftrightarrow> cn_alive cn \<and> (\<forall>m \<in> set ms. \<not> ends_reading p m)"
  by (induction p ms cn rule: recv_loop.induct) (auto simp: recv_action_meaning(2) [symmetric] split: recv_action.splits)

definition first_is :: "bool \<Rightarrow> ws_message list \<Rightarrow> json \<Rightarrow> bool" where
  "first_is pong_ok ms v \<longleftrightarrow>
     (\<exists>pre m post. ms = pre @ m # post \<and> tx_response m v \<and> (\<forall>x \<in> set pre. \<not> ends_reading pong_ok x \<and> (\<forall>u. \<not> tx_response x u)))"

lemma first_is_Nil [simp]: "\<not> first_is p [] v"
  by (simp add: first_is_def)

lemma first_is_Cons: "first_is p (m # ms) v \<longleftrightarrow> tx_response m v \<or> (\<not> ends_reading p m \<and> (\<forall>u. \<not> tx_response m u) \<and> first_is p ms v)"
proof
  assume "first_is p (m # ms) v"
  then obtain pre x post where h: "m # ms = pre @ x # post" "tx_response x v"
    "\<forall>y \<in> set pre. \<not> ends_reading p y \<and> (\<forall>u. \<not> tx_response y u)" unfolding first_is_def by blast
  then show "tx_response m v \<or> (\<not> ends_reading p m \<and> (\<forall>u. \<not> tx_response m u) \<and> first_is p ms v)"
    by (cases pre) (auto simp: first_is_def)
next
  assume "tx_response m v \<or> (\<not> ends_reading p m \<and> (\<forall>u. \<not> tx_response m u) \<and> first_is p ms v)"
  then show "first_is p (m # ms) v"
  proof
    assume "tx_response m v"
    then show ?thesis unfolding first_is_def by (intro exI [of _ "[]"] exI [of _ m] exI [of _ ms]) simp
  next
    assume h: "\<not> ends_reading p m \<and> (\<forall>u. \<not> tx_response m u) \<and> first_is p ms v"
    then obtain pre x post where "ms = pre @ x # post" "tx_response x v"
      "\<forall>y \<in> set pre. \<not> ends_reading p y \<and> (\<forall>u. \<not> tx_response y u)" unfolding first_is_def by blast
    then show ?thesis using h unfolding first_is_def by (intro exI [of _ "m # pre"] exI [of _ x] exI [of _ post]) auto
  qed
qed

lemma routed_first: "(\<exists>vs. routed p ms = v # vs) \<longleftrightarrow> first_is p ms v"
proof (induction p ms rule: routed.induct)
  case (2 p m ms)
  note meaning = recv_action_meaning(1) [of m, symmetric] recv_action_meaning(2) [of m p, symmetric]
  show ?case
  proof (cases "recv_action_of m")
    case (Route u)
    then show ?thesis by (auto simp: first_is_Cons meaning)
  next
    case Skip
    then show ?thesis using 2(1) by (simp add: first_is_Cons meaning)
  next
    case App_Pong
    then show ?thesis using 2(2) by (simp add: first_is_Cons meaning)
  next
    case Stop_Reading
    then show ?thesis by (simp add: first_is_Cons meaning)
  qed
qed simp

lemma plain_code_reply:
  assumes "json_get v ''error'' \<in> {None, Some JNull}"
  shows "\<exists>c. reply_code v c \<and> fst (plain_code render v) = (if c = 200 then 0 else c)"
proof (cases "json_get v ''code''")
  case None
  then have no: "\<not> says_int v ''code'' c" for c by (simp add: says_int_def)
  show ?thesis
  proof (cases "\<exists>c. says_int v ''status_code'' c")
    case True
    then obtain c where c: "says_int v ''status_code'' c" by blast
    then have "Option.bind (json_get v ''status_code'') json_i64 = Some c" by simp
    then have "fst (plain_code render v) = norm_code c" using None by (simp add: plain_code_def del: json_i64_Some)
    then show ?thesis using reply_code.status_code [OF assms None c] by (auto simp: norm_code_def)
  next
    case False
    then have "Option.bind (json_get v ''status_code'') json_i64 = None" by simp
    then have "fst (plain_code render v) = norm_code 0" using None by (simp add: plain_code_def del: json_i64_None)
    then show ?thesis using reply_code.no_code [OF assms _ no] False by (intro exI [of _ 0]) (simp add: norm_code_def)
  qed
next
  case (Some x)
  show ?thesis
  proof (cases "\<exists>c. says_int v ''code'' c")
    case True
    then obtain c where c: "says_int v ''code'' c" by blast
    then have "Option.bind (json_get v ''code'') json_i64 = Some c" by simp
    then have "fst (plain_code render v) = norm_code c" using Some by (simp add: plain_code_def del: json_i64_Some)
    then show ?thesis using reply_code.own_code [OF assms c] by (auto simp: norm_code_def)
  next
    case False
    then have "Option.bind (json_get v ''code'') json_i64 = None" by simp
    then have "fst (plain_code render v) = norm_code 0" using Some by (simp add: plain_code_def del: json_i64_None)
    then show ?thesis using reply_code.no_code [OF assms] False Some by (intro exI [of _ 0]) (simp add: norm_code_def)
  qed
qed

lemma error_code_reply:
  assumes "json_get v ''error'' = Some (JObj e)"
  shows "\<exists>c. reply_code v c \<and> norm_code (int_field (JObj e) ''code'' (- 1)) = (if c = 200 then 0 else c)"
proof (cases "Option.bind (json_get (JObj e) ''code'') json_i64")
  case None
  then have "reply_code v (- 1)" using reply_code.error_bare [OF assms] by simp
  moreover have "norm_code (int_field (JObj e) ''code'' (- 1)) = - 1" unfolding int_field_def None by (simp add: norm_code_def)
  ultimately show ?thesis by (intro exI [of _ "- 1"]) simp
next
  case (Some c)
  then have "reply_code v c" using reply_code.error_code [OF assms] by simp
  moreover have "norm_code (int_field (JObj e) ''code'' (- 1)) = (if c = 200 then 0 else c)" unfolding int_field_def Some by (simp add: norm_code_def)
  ultimately show ?thesis by blast
qed

lemma code_message_reply: "\<exists>c. reply_code v c \<and> fst (code_message render v) = (if c = 200 then 0 else c)"
proof (cases "json_get v ''error''")
  case None
  then show ?thesis using plain_code_reply [of v render] by (simp add: code_message_def)
next
  case (Some x)
  show ?thesis
  proof (cases "x = JNull \<or> (\<exists>e. x = JObj e)")
    case True
    then consider "x = JNull" | e where "x = JObj e" by blast
    then show ?thesis
      by cases (use Some plain_code_reply [of v render] error_code_reply [of v] in \<open>simp_all add: code_message_def\<close>)
  next
    case False
    then have "reply_code v (- 1)" using reply_code.error_value [OF Some] by simp
    moreover have "fst (code_message render v) = - 1" using False Some by (cases x) (simp_all add: code_message_def)
    ultimately show ?thesis by (intro exI [of _ "- 1"]) simp
  qed
qed

lemma code_message_text: "reply_text v s \<Longrightarrow> snd (code_message render v) = s"
  by (auto simp: reply_text.simps code_message_def plain_code_def extract_message_def Let_def)

text \<open>What the socket delivered once the frame was written in world \<open>w\<close>; which message answers it; whether the peer hung up.\<close>

definition delivered :: "'w network \<Rightarrow> string \<Rightarrow> 'w \<Rightarrow> (bool \<times> ws_message list) option" where
  "delivered net frame w = (case n_write net frame w of (None, w1) \<Rightarrow> Some (fst (n_incoming net w1)) | _ \<Rightarrow> None)"

definition answers :: "'w network \<Rightarrow> string \<Rightarrow> 'w \<Rightarrow> json \<Rightarrow> bool" where
  "answers net frame w v \<longleftrightarrow>
     (\<exists>pong_ok pre m post. delivered net frame w = Some (pong_ok, pre @ m # post) \<and> tx_response m v \<and>
        (\<forall>x \<in> set pre. \<not> ends_reading pong_ok x \<and> (\<forall>u. \<not> tx_response x u)))"

definition hung_up :: "'w network \<Rightarrow> string \<Rightarrow> 'w \<Rightarrow> bool" where
  "hung_up net frame w \<longleftrightarrow> (\<exists>pong_ok ms. delivered net frame w = Some (pong_ok, ms) \<and> (\<exists>m \<in> set ms. ends_reading pong_ok m))"

text \<open>The result carries the response: its code with 200 read as 0, its text, the quota it reports.\<close>

definition carries :: "tx_send_result \<Rightarrow> json \<Rightarrow> bool" where
  "carries r v \<longleftrightarrow>
     (\<exists>c. reply_code v c \<and> tx_code r = (if c = 200 then 0 else c)) \<and>
     (\<forall>s. reply_text v s \<longrightarrow> tx_message r = s) \<and>
     (\<forall>q. tx_quota_remaining r = Some q \<longleftrightarrow> says_int v ''volume_quota_remaining'' q)"

lemma response_result_carries: "carries (response_result render v) v"
  using code_message_reply [of v render] code_message_text [of v _ render]
  by (auto simp: carries_def response_result_def case_prod_beta)

section \<open>What an outcome means\<close>

definition outcome_ok :: "'w network \<Rightarrow> string \<Rightarrow> 'w \<Rightarrow> tx_send_result \<times> tx_web_socket \<times> 'w \<Rightarrow> bool" where
  "outcome_ok net frame w = (\<lambda>(r, tw', w').
     (case tx_status r of
        Ok \<Rightarrow> (\<exists>v. answers net frame w v \<and> carries r v) \<and> tx_code r = 0 \<and> (is_connected tw' \<or> hung_up net frame w)
      | Rejected \<Rightarrow> (\<exists>v. answers net frame w v \<and> carries r v) \<and> tx_code r \<noteq> 0 \<and> (is_connected tw' \<or> hung_up net frame w)
      | Unknown \<Rightarrow> (\<nexists>v. answers net frame w v) \<and> \<not> is_connected tw'
      | NotSent \<Rightarrow> False))"

lemma response_result_status: "tx_status (response_result render v) = (if tx_code (response_result render v) = 0 then Ok else Rejected)"
  by (simp add: response_result_def case_prod_beta)

lemma send_on_outcome:
  assumes "cn_alive cn"
  shows "outcome_ok net frame w (send_on net render frame tw cn w)"
proof -
  obtain e w1 where w1: "n_write net frame w = (e, w1)" by fastforce
  obtain p ms w2 where w2: "n_incoming net w1 = ((p, ms), w2)" by (metis surj_pair)
  show ?thesis
  proof (cases e)
    case (Some x)
    then show ?thesis using w1 by (simp add: send_on_def outcome_ok_def unknown_def is_connected_def answers_def delivered_def)
  next
    case None
    define cn2 where "cn2 = recv_loop p ms (cn\<lparr>cn_queue := []\<rparr>)"
    have d: "delivered net frame w = Some (p, ms)" using w1 w2 None by (simp add: delivered_def)
    have a: "answers net frame w v \<longleftrightarrow> first_is p ms v" for v using d by (auto simp: answers_def first_is_def)
    have q: "(\<exists>rest. cn_queue cn2 = v # rest) \<longleftrightarrow> answers net frame w v" for v
      by (simp add: cn2_def recv_loop_queue routed_first a)
    have alive: "cn_alive cn2 \<or> hung_up net frame w"
      using assms d by (auto simp: cn2_def recv_loop_alive hung_up_def)
    show ?thesis
    proof (cases "cn_queue cn2")
      case Nil
      then have "\<nexists>v. answers net frame w v" using q by auto
      then show ?thesis using w1 w2 None Nil by (simp add: send_on_def outcome_ok_def unknown_def is_connected_def cn2_def [symmetric] Let_def)
    next
      case (Cons v rest)
      then have "answers net frame w v" using q by blast
      moreover have "send_on net render frame tw cn w = (response_result render v, tw\<lparr>tw_conn := Some (cn2\<lparr>cn_queue := rest\<rparr>)\<rparr>, w2)"
        using w1 w2 None Cons by (simp add: send_on_def cn2_def [symmetric] Let_def)
      ultimately show ?thesis using alive response_result_carries [of render v] response_result_status [of render v]
        by (auto simp: outcome_ok_def is_connected_def)
    qed
  qed
qed

text \<open>
  C21. The outcome of a batch says what is known about it. Let \<open>tw0\<close> be the websocket as the reader and
  the pinger left it since the last send. \<open>NotSent\<close> is reported exactly when it has no live
  connection and none can be opened: nothing was written. \<open>Ok\<close> and \<open>Rejected\<close> are reported exactly
  when the frame was written and a response arrived before the socket ended, and the result carries
  the first such response after the frame, never one queued earlier: its code (0 and 200 are \<open>Ok\<close>),
  its text and its quota; the connection stays up unless the peer hung up. Every other course is
  \<open>Unknown\<close>, and then the connection is abandoned, so a late response cannot be taken for the answer
  to a later batch.
\<close>

theorem ws_outcome_classified:
  "let (r, tw', w') = ws_send_batch net render frame_of ts infos tw w;
       (tw0, w0) = between_sends net tw w;
       w1 = (if is_connected tw0 then w0 else snd (n_open net w0));
       answered = (\<lambda>v. answers net (frame_of ts infos) w1 v \<and> carries r v);
       up = (is_connected tw' \<or> hung_up net (frame_of ts infos) w1)
   in (tx_status r = NotSent \<longleftrightarrow> \<not> is_connected tw0 \<and> \<not> fst (n_open net w0)) \<and>
      (case tx_status r of
         NotSent \<Rightarrow> tw' = tw0 \<and> w' = w1
       | Unknown \<Rightarrow> (\<nexists>v. answers net (frame_of ts infos) w1 v) \<and> \<not> is_connected tw'
       | Ok \<Rightarrow> (\<exists>v. answered v) \<and> tx_code r = 0 \<and> up
       | Rejected \<Rightarrow> (\<exists>v. answered v) \<and> tx_code r \<noteq> 0 \<and> up)"
proof -
  obtain tw0 w0 where b: "between_sends net tw w = (tw0, w0)" by fastforce
  define w1 where "w1 = (if is_connected tw0 then w0 else snd (n_open net w0))"
  show ?thesis
  proof (cases "is_connected tw0 \<or> fst (n_open net w0)")
    case True
    then obtain tw1 cn where e: "ws_send_batch net render frame_of ts infos tw w = send_on net render (frame_of ts infos) tw1 cn w1" "cn_alive cn"
    proof (cases "is_connected tw0")
      case True
      then show thesis using that [of tw0 "the (tw_conn tw0)"] b
        by (auto simp: ws_send_batch_def is_connected_def w1_def split: option.splits)
    next
      case False
      with True obtain w2 where "n_open net w0 = (True, w2)" by (cases "n_open net w0") auto
      with False b show thesis
        using that [of "tw0\<lparr>tw_conn := Some \<lparr>cn_alive = True, cn_queue = []\<rparr>\<rparr>" "\<lparr>cn_alive = True, cn_queue = []\<rparr>"]
        by (simp add: ws_send_batch_def tx_open_def w1_def)
    qed
    from send_on_outcome [OF e(2), of net "frame_of ts infos" w1 render tw1] show ?thesis
      using True b unfolding e(1) outcome_ok_def by (auto simp: w1_def [symmetric] split: tx_send_status.splits)
  next
    case False
    then show ?thesis
      using b by (cases "n_open net w0") (simp add: ws_send_batch_def tx_open_def not_sent_def)
  qed
qed

text \<open>The keepalive stays inside the two-minute idle window of the exchange.\<close>

lemma ping_interval_bounds:
  "5 * 10 ^ 9 \<le> tw_ping_interval (with_ping_interval d) \<and> tw_ping_interval (with_ping_interval d) \<le> 110 * 10 ^ 9"
proof -
  have "round_ties_even (5 * 10 ^ 9 :: real) = 5 * 10 ^ 9" "round_ties_even (110 * 10 ^ 9 :: real) = 110 * 10 ^ 9"
    using round_ties_even_of_int [of "5 * 10 ^ 9"] round_ties_even_of_int [of "110 * 10 ^ 9"] by simp_all
  then show ?thesis
    using round_ties_even_mono [of "5 * 10 ^ 9" "max 5 (min (as_secs_f64 d) 110) * 10 ^ 9"]
      round_ties_even_mono [of "max 5 (min (as_secs_f64 d) 110) * 10 ^ 9" "110 * 10 ^ 9"]
    by (simp add: with_ping_interval_def from_secs_f64_def)
qed

end
