(* ===== verification/Ws_Feed.thy ===== *)
theory Ws_Feed
  imports Json Util Shared Rate_Limit
begin

text \<open>
  \<^verbatim>\<open>src/src/lighter/ws.rs\<close> (the subscription loops) and \<^verbatim>\<open>src/src/binance/book_ticker.rs\<close> (the best bid
  and offer feed). A session is a function of what happens at each turn of its loop: whether a
  reconnect was requested, the time, and which arm of the \<open>select!\<close> fired with what. Frames written
  and messages handed to the callback are its output. Probing the \<open>type\<close> field of a text is the
  parameter \<open>probe\<close> (\<open>None\<close>: not JSON), printing JSON the parameter \<open>render\<close>.
\<close>

section \<open>Options\<close>

definition WS_URL :: string where "WS_URL = ''wss://mainnet.zklighter.elliot.ai/stream''"

record subscribe_options =
  so_url :: string
  so_channels :: "string list"
  so_channel_auths :: "(string \<times> string) list"
  so_recv_timeout :: f64
  so_reconnect_base :: f64
  so_reconnect_max :: f64
  so_ping_interval :: f64
  so_label :: string

definition options_new :: "string \<Rightarrow> string list \<Rightarrow> subscribe_options" where
  "options_new label channels =
     \<lparr>so_url = WS_URL, so_channels = channels, so_channel_auths = [], so_recv_timeout = 30, so_reconnect_base = 5,
      so_reconnect_max = 60, so_ping_interval = 20, so_label = label\<rparr>"

definition jitter :: "nat \<Rightarrow> f64 \<Rightarrow> f64" where
  "jitter now_ms base = base * (1 / 5) * (of_nat (now_ms mod 1000) / 1000)"

section \<open>A session\<close>

datatype ws_frame = Text string | Ping string | Close | Other_Frame

datatype ws_turn = Ping_Tick bool \<comment> \<open>the ping could be written\<close> | Frame ws_frame | Read_Error | Read_End

datatype ws_output = Send_Subscribe string | Send_Ping | Send_App_Pong | Send_Pong string | Deliver string string

datatype session_end = Running | Closed \<comment> \<open>\<open>Ok(())\<close>\<close> | Failed \<comment> \<open>\<open>Err\<close>\<close>

type_synonym probe = "string \<Rightarrow> string option option"

text \<open>What a text is worth: nothing, a server ping, a confirmation, or an application message.\<close>

definition app_message :: "probe \<Rightarrow> ws_turn \<Rightarrow> (string \<times> string) option" where
  "app_message probe x =
     (case x of
        Frame (Text t) \<Rightarrow>
          (case probe t of
             None \<Rightarrow> None
           | Some ty \<Rightarrow> if ty = Some ''ping'' \<or> ty = Some ''subscribed'' then None else Some (case ty of None \<Rightarrow> [] | Some s \<Rightarrow> s, t))
      | _ \<Rightarrow> None)"

definition on_frame :: "probe \<Rightarrow> instant \<Rightarrow> ws_frame \<Rightarrow> instant \<Rightarrow> session_end \<times> instant \<times> ws_output list" where
  "on_frame probe now f last_data =
     (case f of
        Text t \<Rightarrow>
          (case probe t of
             None \<Rightarrow> (Running, last_data, [])
           | Some ty \<Rightarrow>
               if ty = Some ''ping'' then (Running, last_data, [Send_App_Pong])
               else if ty = Some ''subscribed'' then (Running, last_data, [])
               else (Running, now, [Deliver (case ty of None \<Rightarrow> [] | Some s \<Rightarrow> s) t]))
      | Ping p \<Rightarrow> (Running, last_data, [Send_Pong p])
      | Close \<Rightarrow> (Closed, last_data, [])
      | Other_Frame \<Rightarrow> (Running, last_data, []))"

definition session_turn :: "probe \<Rightarrow> duration \<Rightarrow> bool \<times> instant \<times> ws_turn \<Rightarrow> instant \<Rightarrow> session_end \<times> instant \<times> ws_output list" where
  "session_turn probe recv_to = (\<lambda>(reconnect, now, x) last_data.
     if reconnect then (Closed, last_data, [])
     else case x of
            Ping_Tick write_ok \<Rightarrow>
              if recv_to < now - last_data then (Closed, last_data, [])
              else if write_ok then (Running, last_data, [Send_Ping]) else (Closed, last_data, [])
          | Read_Error \<Rightarrow> (Failed, last_data, [])
          | Read_End \<Rightarrow> (Closed, last_data, [])
          | Frame f \<Rightarrow> on_frame probe now f last_data)"

fun session_loop :: "probe \<Rightarrow> duration \<Rightarrow> (bool \<times> instant \<times> ws_turn) list \<Rightarrow> instant \<Rightarrow> session_end \<times> instant \<times> ws_output list" where
  "session_loop probe recv_to [] last_data = (Running, last_data, [])"
| "session_loop probe recv_to (x # xs) last_data =
     (let (e, last1, out) = session_turn probe recv_to x last_data
      in if e = Running then let (e', last2, out') = session_loop probe recv_to xs last1 in (e', last2, out @ out')
         else (e, last1, out))"

definition subscribe_frame :: "(json \<Rightarrow> string) \<Rightarrow> subscribe_options \<Rightarrow> string \<Rightarrow> string" where
  "subscribe_frame render opts ch =
     render (JObj ((case map_of (so_channel_auths opts) ch of None \<Rightarrow> [] | Some a \<Rightarrow> [(''auth'', JStr a)]) @
       [(''channel'', JStr ch), (''type'', JStr ''subscribe'')]))"

text \<open>\<open>sub_ok\<close>: how many of the subscriptions can be written before one fails.\<close>

definition session ::
  "probe \<Rightarrow> (json \<Rightarrow> string) \<Rightarrow> subscribe_options \<Rightarrow> bool \<Rightarrow> nat \<Rightarrow> instant \<Rightarrow> (bool \<times> instant \<times> ws_turn) list \<Rightarrow> session_end \<times> ws_output list" where
  "session probe render opts connect_ok sub_ok start xs =
     (if \<not> connect_ok then (Failed, [])
      else let subs = map (\<lambda>ch. Send_Subscribe (subscribe_frame render opts ch)) (so_channels opts)
           in if sub_ok < length subs then (Failed, take sub_ok subs)
              else let (e, _, out) = session_loop probe (from_secs_f64 (so_recv_timeout opts)) xs start in (e, subs @ out))"

definition ping_period :: "subscribe_options \<Rightarrow> f64" where
  "ping_period opts = clamp (so_ping_interval opts) 5 110"

section \<open>The reconnect loops\<close>

text \<open>
  One round per session: what the network does in it, its length and the clock at its end. The
  result is what is written and what the callbacks see, in order, with a mark for each run of
  \<open>on_disconnect\<close>, and the sleeps. A session still running when its turns are used up is the last.
\<close>

record ws_round =
  wr_connect_ok :: bool
  wr_sub_ok :: nat
  wr_start :: instant
  wr_turns :: "(bool \<times> instant \<times> ws_turn) list"
  wr_elapsed :: duration
  wr_now_ms :: nat

datatype feed_output = Session_Output ws_output | On_Disconnect | Sleep f64

fun subscribe_loop :: "probe \<Rightarrow> (json \<Rightarrow> string) \<Rightarrow> subscribe_options \<Rightarrow> ws_round list \<Rightarrow> f64 \<Rightarrow> feed_output list" where
  "subscribe_loop probe render opts [] backoff = []"
| "subscribe_loop probe render opts (r # rest) backoff =
     (let (e, out) = session probe render opts (wr_connect_ok r) (wr_sub_ok r) (wr_start r) (wr_turns r);
          delay = reconnect_delay_after_session backoff (so_reconnect_base opts) (wr_elapsed r)
      in map Session_Output out @
         (if e = Running then []
          else [On_Disconnect, Sleep (delay + jitter (wr_now_ms r) delay)] @
               subscribe_loop probe render opts rest
                 (next_reconnect_backoff backoff (so_reconnect_base opts) (so_reconnect_max opts) (wr_elapsed r))))"

text \<open>With a fresh token map per connection, and no reconnect requests.\<close>

fun subscribe_loop_authed ::
  "probe \<Rightarrow> (json \<Rightarrow> string) \<Rightarrow> subscribe_options \<Rightarrow> ((string \<times> string) list \<times> ws_round) list \<Rightarrow> f64 \<Rightarrow> feed_output list" where
  "subscribe_loop_authed probe render opts [] backoff = []"
| "subscribe_loop_authed probe render opts ((auths, r) # rest) backoff =
     (let opts1 = opts\<lparr>so_channel_auths := auths\<rparr>
      in if auths = [] then Sleep backoff # subscribe_loop_authed probe render opts1 rest (min (backoff * 2) (so_reconnect_max opts))
         else let (e, out) = session probe render opts1 (wr_connect_ok r) (wr_sub_ok r) (wr_start r)
                               (map (\<lambda>(_, now, x). (False, now, x)) (wr_turns r));
                  delay = reconnect_delay_after_session backoff (so_reconnect_base opts) (wr_elapsed r)
              in map Session_Output out @
                 (if e = Running then []
                  else Sleep (delay + jitter (wr_now_ms r) delay) #
                       subscribe_loop_authed probe render opts1 rest
                         (next_reconnect_backoff backoff (so_reconnect_base opts) (so_reconnect_max opts) (wr_elapsed r))))"

section \<open>Best bid and offer\<close>

datatype ticker_input = Ticker_Text "json option" \<comment> \<open>\<open>None\<close>: not JSON\<close> | Ticker_Ping | Ticker_Other | Ticker_Error | Ticker_End | Ticker_Timeout

definition ticker_field :: "(string \<Rightarrow> f64 option) \<Rightarrow> json \<Rightarrow> string \<Rightarrow> f64 option" where
  "ticker_field fp v k = Option.bind (Option.bind (json_get v k) json_str) fp"

text \<open>A usable quote: both prices present and not crossed.\<close>

definition ticker_quote :: "(string \<Rightarrow> f64 option) \<Rightarrow> json \<Rightarrow> (f64 \<times> f64 \<times> f64 \<times> f64) option" where
  "ticker_quote fp v =
     (case (ticker_field fp v ''b'', ticker_field fp v ''a'') of
        (Some bid, Some ask) \<Rightarrow>
          if bid < ask
          then Some (bid, ask, case ticker_field fp v ''B'' of None \<Rightarrow> 0 | Some x \<Rightarrow> x, case ticker_field fp v ''A'' of None \<Rightarrow> 0 | Some x \<Rightarrow> x)
          else None
      | _ \<Rightarrow> None)"

fun ticker_session :: "(string \<Rightarrow> f64 option) \<Rightarrow> (nat \<times> ticker_input) list \<Rightarrow> shared_bbo \<Rightarrow> bool \<times> shared_bbo" where
  "ticker_session fp [] s = (True, s)"
| "ticker_session fp ((ms, x) # xs) s =
     (case x of
        Ticker_Text (Some v) \<Rightarrow>
          (case ticker_quote fp v of
             None \<Rightarrow> ticker_session fp xs s
           | Some (bid, ask, bq, aq) \<Rightarrow> ticker_session fp xs (bbo_update s ms bid ask bq aq))
      | Ticker_Text None \<Rightarrow> ticker_session fp xs s
      | Ticker_Ping \<Rightarrow> ticker_session fp xs s
      | Ticker_Other \<Rightarrow> ticker_session fp xs s
      | _ \<Rightarrow> (False, s))"

record book_ticker_client =
  bt_symbol :: string
  bt_reconnect_base :: f64
  bt_reconnect_max :: f64

definition book_ticker_new :: "string \<Rightarrow> book_ticker_client" where
  "book_ticker_new symbol_usdt = \<lparr>bt_symbol = to_lowercase symbol_usdt, bt_reconnect_base = 5, bt_reconnect_max = 60\<rparr>"

text \<open>The rounds of \<open>run\<close>: connect (or fail), follow the stream, reset the cell, sleep.\<close>

fun ticker_run ::
  "(string \<Rightarrow> f64 option) \<Rightarrow> book_ticker_client \<Rightarrow> (bool \<times> (nat \<times> ticker_input) list \<times> duration) list \<Rightarrow> f64 \<Rightarrow> shared_bbo \<Rightarrow> shared_bbo \<times> f64 list" where
  "ticker_run fp bt [] backoff s = (s, [])"
| "ticker_run fp bt ((connect_ok, xs, elapsed) # rest) backoff s =
     (let s1 = bbo_reset (if connect_ok then snd (ticker_session fp xs s) else s);
          (s2, sleeps) = ticker_run fp bt rest (next_reconnect_backoff backoff (bt_reconnect_base bt) (bt_reconnect_max bt) elapsed) s1
      in (s2, reconnect_delay_after_session backoff (bt_reconnect_base bt) elapsed # sleeps))"

section \<open>Sessions deliver in order and drop a dead feed\<close>

definition deliveries :: "ws_output list \<Rightarrow> (string \<times> string) list" where
  "deliveries = List.map_filter (\<lambda>x. case x of Deliver ty t \<Rightarrow> Some (ty, t) | _ \<Rightarrow> None)"

definition app_messages :: "probe \<Rightarrow> (bool \<times> instant \<times> ws_turn) list \<Rightarrow> (string \<times> string) list" where
  "app_messages probe = List.map_filter (\<lambda>(_, _, x). app_message probe x)"

fun last_app :: "probe \<Rightarrow> (bool \<times> instant \<times> ws_turn) list \<Rightarrow> instant \<Rightarrow> instant" where
  "last_app probe [] t = t"
| "last_app probe ((_, now, x) # xs) t = last_app probe xs (if app_message probe x = None then t else now)"

lemma deliveries_simps [simp]:
  "deliveries [] = []" "deliveries (x # xs) = (case x of Deliver ty t \<Rightarrow> [(ty, t)] | _ \<Rightarrow> []) @ deliveries xs"
  "deliveries (xs @ ys) = deliveries xs @ deliveries ys"
  by (auto simp: deliveries_def List.map_filter_def split: ws_output.splits)

lemma app_messages_simps [simp]:
  "app_messages probe [] = []"
  "app_messages probe ((r, now, x) # xs) = (case app_message probe x of None \<Rightarrow> [] | Some m \<Rightarrow> [m]) @ app_messages probe xs"
  by (auto simp: app_messages_def List.map_filter_def split: option.splits)

text \<open>A turn after which the session goes on delivers its message, if it is one, and only then moves the watchdog.\<close>

lemma session_turn_Running:
  assumes "session_turn probe to (r, now, x) t = (Running, t1, out)"
  shows "t1 = (if app_message probe x = None then t else now)"
    and "deliveries out = (case app_message probe x of None \<Rightarrow> [] | Some m \<Rightarrow> [m])"
    and "\<not> r" and "x = Ping_Tick ok \<Longrightarrow> now - t \<le> to"
  using assms
  by (auto simp: session_turn_def on_frame_def app_message_def
        split: if_splits ws_turn.splits ws_frame.splits option.splits)

text \<open>The turn that ends a session delivers nothing.\<close>

lemma session_turn_ends:
  assumes "session_turn probe to x t = (e, t1, out)" "e \<noteq> Running"
  shows "deliveries out = []"
  using assms
  by (cases x) (auto simp: session_turn_def on_frame_def split: if_splits ws_turn.splits ws_frame.splits option.splits)

lemma session_loop_prefix:
  "session_loop probe to xs t = (e, t1, out) \<Longrightarrow>
   \<exists>k \<le> length xs. deliveries out = app_messages probe (take k xs) \<and> (e = Running \<longrightarrow> k = length xs)"
proof (induction xs arbitrary: t e t1 out)
  case (Cons x xs)
  obtain r now a where x: "x = (r, now, a)" by (cases x)
  obtain e0 t0 o0 where turn: "session_turn probe to x t = (e0, t0, o0)" by (cases "session_turn probe to x t")
  show ?case
  proof (cases "e0 = Running")
    case True
    obtain e2 t2 o2 where rest: "session_loop probe to xs t0 = (e2, t2, o2)" by (cases "session_loop probe to xs t0")
    from Cons.IH [OF rest] obtain k where "k \<le> length xs" "deliveries o2 = app_messages probe (take k xs)"
      "e2 = Running \<longrightarrow> k = length xs" by blast
    with Cons.prems turn rest True session_turn_Running(2) [of probe to r now a t t0 o0] x show ?thesis
      by (intro exI [of _ "Suc k"]) auto
  next
    case False
    with Cons.prems turn session_turn_ends [OF turn] show ?thesis by (intro exI [of _ 0]) auto
  qed
qed simp

lemma session_loop_Running_watch:
  "session_loop probe to xs t = (Running, t1, out) \<Longrightarrow>
   t1 = last_app probe xs t \<and>
   (\<forall>pre r now ok post. xs = pre @ (r, now, Ping_Tick ok) # post \<longrightarrow> now - last_app probe pre t \<le> to)"
proof (induction xs arbitrary: t out)
  case (Cons x xs)
  obtain r now a where x: "x = (r, now, a)" by (cases x)
  obtain e0 t0 o0 where turn: "session_turn probe to x t = (e0, t0, o0)" by (cases "session_turn probe to x t")
  with Cons.prems have run: "session_turn probe to (r, now, a) t = (Running, t0, o0)"
    by (auto simp: x split: if_splits prod.splits)
  from Cons.prems turn run x obtain o2 where rest: "session_loop probe to xs t0 = (Running, t1, o2)"
    by (auto split: prod.splits)
  note t0 = session_turn_Running(1) [OF run]
  show ?case
  proof (intro conjI allI impI)
    show "t1 = last_app probe (x # xs) t" using Cons.IH [OF rest] t0 by (simp add: x)
    fix pre r' now' ok post
    assume eq: "x # xs = pre @ (r', now', Ping_Tick ok) # post"
    show "now' - last_app probe pre t \<le> to"
    proof (cases pre)
      case Nil
      with eq x session_turn_Running(4) [OF run] show ?thesis by simp
    next
      case (Cons p pre')
      with eq x Cons.IH [OF rest] t0 show ?thesis by auto
    qed
  qed
qed simp

text \<open>
  C23. A subscription hands its application messages to the callback in order and complete up to the
  point where it ends; while it runs nothing is missing, the watchdog clock is the time of the last
  application message, and no keepalive tick finds that message older than the receive timeout:
  server pings, pongs and confirmations cannot keep a dead feed alive.
\<close>

theorem feed_in_order_and_watched:
  assumes "session_loop probe to xs t = (e, t1, out)"
  shows "(\<exists>k \<le> length xs. deliveries out = app_messages probe (take k xs) \<and> (e = Running \<longrightarrow> k = length xs)) \<and>
    (e = Running \<longrightarrow>
       t1 = last_app probe xs t \<and>
       (\<forall>pre r now ok post. xs = pre @ (r, now, Ping_Tick ok) # post \<longrightarrow> now - last_app probe pre t \<le> to))"
  using session_loop_prefix [OF assms] session_loop_Running_watch [of probe to xs t t1 out] assms by auto

definition demo_probe :: probe where
  "demo_probe t = (if t = ''x'' then Some (Some ''update/order_book'') else if t = ''p'' then Some (Some ''ping'') else None)"

theorem feed_in_order_and_watched_witness:
  "(\<exists>k \<le> 4. deliveries [Deliver ''update/order_book'' ''x'', Send_App_Pong, Send_Ping] =
      app_messages demo_probe (take k [(False, 5, Frame (Text ''x'')), (False, 8, Frame (Text ''p'')), (False, 12, Ping_Tick True), (False, 13, Frame (Text ''?''))]) \<and>
      (Running = Running \<longrightarrow> k = 4)) \<and>
   (12::int) - last_app demo_probe [(False, 5, Frame (Text ''x'')), (False, 8, Frame (Text ''p''))] 0 \<le> 10"
proof -
  let ?xs = "[(False, 5, Frame (Text ''x'')), (False, 8, Frame (Text ''p'')), (False, 12, Ping_Tick True), (False, 13, Frame (Text ''?''))]"
  have run: "session_loop demo_probe 10 ?xs 0 = (Running, 5, [Deliver ''update/order_book'' ''x'', Send_App_Pong, Send_Ping])"
    by (simp add: session_turn_def on_frame_def demo_probe_def)
  have split: "?xs = [(False, 5, Frame (Text ''x'')), (False, 8, Frame (Text ''p''))] @ (False, 12, Ping_Tick True) # [(False, 13, Frame (Text ''?''))]"
    by simp
  note all = feed_in_order_and_watched [OF run]
  have len: "length ?xs = 4" by simp
  from all split have "12 - last_app demo_probe [(False, 5, Frame (Text ''x'')), (False, 8, Frame (Text ''p''))] 0 \<le> 10" by blast
  with conjunct1 [OF all] show ?thesis unfolding len by blast
qed

section \<open>Reconnects are paced\<close>

lemma jitter_bounds: "0 \<le> b \<Longrightarrow> 0 \<le> jitter ms b \<and> jitter ms b \<le> b * (1 / 5)"
proof -
  assume "0 \<le> b"
  have "real (ms mod 1000) \<le> 1000" using mod_less_divisor [of 1000 ms] by linarith
  with \<open>0 \<le> b\<close> show ?thesis
    using mult_left_mono [of "real (ms mod 1000) / 1000" 1 "b * (1 / 5)"] by (simp add: jitter_def)
qed

lemma delay_range:
  "0 < base \<Longrightarrow> base \<le> b \<Longrightarrow> b \<le> mx \<Longrightarrow>
   base \<le> reconnect_delay_after_session b base e \<and> reconnect_delay_after_session b base e \<le> mx"
  by (simp add: reconnect_delay_after_session_def)

lemma jittered_range:
  assumes "0 < base" "base \<le> d" "d \<le> mx"
  shows "base \<le> d + jitter ms d \<and> d + jitter ms d \<le> mx * (6 / 5)"
  using jitter_bounds [of d ms] assms by (simp add: field_simps)

lemma subscribe_loop_sleeps:
  assumes "0 < so_reconnect_base opts" "so_reconnect_base opts \<le> b" "b \<le> so_reconnect_max opts"
  shows "Sleep s \<in> set (subscribe_loop probe render opts rs b) \<Longrightarrow>
    so_reconnect_base opts \<le> s \<and> s \<le> so_reconnect_max opts * (6 / 5)"
  using assms
proof (induction rs arbitrary: b)
  case (Cons r rs)
  note nb = next_reconnect_backoff_range [OF Cons.prems(2) order_trans [OF Cons.prems(3,4)] Cons.prems(3,4), of "wr_elapsed r"]
  note d = delay_range [OF Cons.prems(2-4), of "wr_elapsed r"]
  from Cons.prems(1) consider
    "s = reconnect_delay_after_session b (so_reconnect_base opts) (wr_elapsed r) +
       jitter (wr_now_ms r) (reconnect_delay_after_session b (so_reconnect_base opts) (wr_elapsed r))"
  | "Sleep s \<in> set (subscribe_loop probe render opts rs
        (next_reconnect_backoff b (so_reconnect_base opts) (so_reconnect_max opts) (wr_elapsed r)))"
    by (auto simp: Let_def split: prod.splits if_splits)
  then show ?case
  proof cases
    case 1
    with jittered_range [of _ _ "so_reconnect_max opts"] d Cons.prems(2) show ?thesis by blast
  next
    case 2
    with Cons.IH nb Cons.prems(2) show ?thesis by blast
  qed
qed simp

lemma subscribe_loop_authed_sleeps:
  assumes "0 < so_reconnect_base opts" "so_reconnect_base opts \<le> b" "b \<le> so_reconnect_max opts"
  shows "Sleep s \<in> set (subscribe_loop_authed probe render opts rs b) \<Longrightarrow>
    so_reconnect_base opts \<le> s \<and> s \<le> so_reconnect_max opts * (6 / 5)"
  using assms
proof (induction rs arbitrary: b opts)
  case (Cons x rs)
  obtain auths r where x: "x = (auths, r)" by (cases x)
  let ?o = "opts\<lparr>so_channel_auths := auths\<rparr>"
  let ?d = "reconnect_delay_after_session b (so_reconnect_base opts) (wr_elapsed r)"
  let ?b = "next_reconnect_backoff b (so_reconnect_base opts) (so_reconnect_max opts) (wr_elapsed r)"
  note nb = next_reconnect_backoff_range [OF Cons.prems(2) order_trans [OF Cons.prems(3,4)] Cons.prems(3,4), of "wr_elapsed r"]
  note d = delay_range [OF Cons.prems(2-4), of "wr_elapsed r"]
  from Cons.prems(1) consider "s = b" | "s = ?d + jitter (wr_now_ms r) ?d"
  | "Sleep s \<in> set (subscribe_loop_authed probe render ?o rs (min (b * 2) (so_reconnect_max opts)))"
  | "Sleep s \<in> set (subscribe_loop_authed probe render ?o rs ?b)"
    by (auto simp: x Let_def split: prod.splits if_splits)
  then show ?case
  proof cases
    case 1
    with Cons.prems(2-4) show ?thesis by simp
  next
    case 2
    with jittered_range [of _ _ "so_reconnect_max opts"] d Cons.prems(2) show ?thesis by blast
  next
    case 3
    from Cons.IH [OF 3] Cons.prems(2-4) show ?thesis by simp
  next
    case 4
    from Cons.IH [OF 4] Cons.prems(2) nb show ?thesis by simp
  qed
qed simp

text \<open>
  Whatever the network does, both subscription loops wait between two connections: every sleep
  lies between the configured base and 1.2 times the configured maximum, so a failing endpoint is
  neither hammered nor abandoned.
\<close>

theorem reconnects_paced:
  assumes "0 < so_reconnect_base opts" "so_reconnect_base opts \<le> so_reconnect_max opts"
    and "Sleep s \<in> set (subscribe_loop probe render opts rs (so_reconnect_base opts)) \<or>
         Sleep s \<in> set (subscribe_loop_authed probe render opts rs' (so_reconnect_base opts))"
  shows "so_reconnect_base opts \<le> s \<and> s \<le> so_reconnect_max opts * (6 / 5)"
  using assms subscribe_loop_sleeps [OF assms(1) order_refl assms(2)]
    subscribe_loop_authed_sleeps [OF assms(1) order_refl assms(2)] by blast

theorem reconnects_paced_witness:
  "so_reconnect_base (options_new ''feed'' []) \<le> 11 / 2 \<and> 11 / 2 \<le> so_reconnect_max (options_new ''feed'' []) * (6 / 5)"
proof -
  define r where "r = \<lparr>wr_connect_ok = False, wr_sub_ok = 0, wr_start = 0, wr_turns = [], wr_elapsed = 0, wr_now_ms = 500\<rparr>"
  have "Sleep (11 / 2) \<in> set (subscribe_loop demo_probe (\<lambda>_. []) (options_new ''feed'' []) [r] (so_reconnect_base (options_new ''feed'' [])))"
    by (simp add: r_def session_def options_new_def jitter_def reconnect_delay_after_session_def RECONNECT_BACKOFF_RESET_AFTER_def)
  then show ?thesis
    by (intro reconnects_paced [where probe = demo_probe and render = "\<lambda>_. []" and rs = "[r]" and rs' = "[]"])
      (simp_all add: options_new_def)
qed

section \<open>The ticker cell holds the current connection only\<close>

text \<open>The usable quotes a session takes in before it fails.\<close>

fun session_quotes :: "(string \<Rightarrow> f64 option) \<Rightarrow> (nat \<times> ticker_input) list \<Rightarrow> (nat \<times> f64 \<times> f64 \<times> f64 \<times> f64) list" where
  "session_quotes fp [] = []"
| "session_quotes fp ((ms, x) # xs) =
     (case x of
        Ticker_Text (Some v) \<Rightarrow> (case ticker_quote fp v of None \<Rightarrow> [] | Some q \<Rightarrow> [(ms, q)]) @ session_quotes fp xs
      | Ticker_Text None \<Rightarrow> session_quotes fp xs
      | Ticker_Ping \<Rightarrow> session_quotes fp xs
      | Ticker_Other \<Rightarrow> session_quotes fp xs
      | _ \<Rightarrow> [])"

abbreviation ticker_put :: "shared_bbo \<Rightarrow> nat \<Rightarrow> f64 \<times> f64 \<times> f64 \<times> f64 \<Rightarrow> shared_bbo" where
  "ticker_put s t q \<equiv> (case q of (b, a, bq, aq) \<Rightarrow> bbo_update s t b a bq aq)"

lemma ticker_session_quotes:
  "snd (ticker_session fp xs s) = foldl (feed_step ticker_put bbo_reset) s (map (\<lambda>(t, q). Put t q) (session_quotes fp xs))"
  by (induction fp xs s rule: ticker_session.induct) (auto split: option.splits ticker_input.splits)

lemma session_quotes_not_crossed: "(t, b, a, bq, aq) \<in> set (session_quotes fp xs) \<Longrightarrow> b < a"
  by (induction fp xs rule: session_quotes.induct)
    (auto simp: ticker_quote_def split: option.splits ticker_input.splits if_splits)

lemma ticker_run_cold:
  "rounds \<noteq> [] \<Longrightarrow> sb_sample_count (fst (ticker_run fp bt rounds backoff s)) = 0 \<and>
     sb_last_update_ms (fst (ticker_run fp bt rounds backoff s)) = 0 "
proof (induction rounds arbitrary: backoff s)
  case (Cons x rounds)
  then show ?case
    by (cases x; cases "rounds = []") (simp_all add: Let_def bbo_reset_def case_prod_unfold)
qed simp

lemma since_reset_puts: "since_reset (map (\<lambda>(t, q). Put t q) qs) = qs"
  by (induction qs) auto

text \<open>
  The best bid and offer another task reads always comes from the current connection: after any
  number of dropped sessions the cell is cold, and in the session that follows its sample count is the
  number of usable quotes received in it, and its prices and stamp are those of the newest one, whose
  bid is below its ask.
\<close>

theorem ticker_shows_current_connection:
  fixes fp xs bt backoff s0
  assumes "rounds \<noteq> []"
  defines "s \<equiv> snd (ticker_session fp xs (fst (ticker_run fp bt rounds backoff s0)))"
  shows "sb_sample_count s = length (session_quotes fp xs) \<and>
    (if session_quotes fp xs = [] then sb_last_update_ms s = 0
     else (sb_last_update_ms s, sb_best_bid s, sb_best_ask s, sb_bid_qty s, sb_ask_qty s) = last (session_quotes fp xs) \<and>
          sb_best_bid s < sb_best_ask s)"
proof -
  let ?qs = "session_quotes fp xs" and ?c = "fst (ticker_run fp bt rounds backoff s0)"
  have s: "s = foldl (feed_step ticker_put bbo_reset) ?c (map (\<lambda>(t, q). Put t q) ?qs)"
    unfolding s_def by (rule ticker_session_quotes)
  have rev: "since_reset (rev (map (\<lambda>(t, q). Put t q) ?qs)) = rev ?qs"
    by (simp add: rev_map since_reset_puts)
  note hist = bbo_feed.feed_history [of ?c "map (\<lambda>(t, q). Put t q) ?qs", folded s, unfolded rev,
    OF conjunct1 [OF ticker_run_cold [OF assms(1)]] conjunct2 [OF ticker_run_cold [OF assms(1)]]]
  show ?thesis
  proof (cases "?qs" rule: rev_cases)
    case Nil
    with hist show ?thesis by simp
  next
    case (snoc qs q)
    obtain t b a bq aq where q: "q = (t, b, a, bq, aq)" by (cases q)
    from session_quotes_not_crossed [of t b a bq aq fp xs] snoc q have "b < a" by simp
    with hist snoc q show ?thesis by simp
  qed
qed

definition demo_tick :: "(nat \<times> ticker_input) list" where
  "demo_tick = [(7, Ticker_Ping), (9, Ticker_Text (Some (JObj [(''b'', JStr ''1''), (''a'', JStr ''2'')])))]"

theorem ticker_shows_current_connection_witness:
  "let s = snd (ticker_session (\<lambda>t. if t = ''1'' then Some 1 else Some 2) demo_tick
             (fst (ticker_run (\<lambda>t. if t = ''1'' then Some 1 else Some 2) (book_ticker_new ''BTCUSDT'') [(True, demo_tick, 5)] 5 (bbo_new 3))))
   in sb_sample_count s = 1 \<and> sb_best_bid s = 1 \<and> sb_best_ask s = 2 \<and> sb_last_update_ms s = 9"
proof -
  let ?fp = "\<lambda>t. if t = ''1'' then Some 1 else Some (2 :: f64)"
  have q: "session_quotes ?fp demo_tick = [(9, 1, 2, 0, 0)]"
    by (simp add: demo_tick_def ticker_quote_def ticker_field_def json_get_def json_str_def)
  show ?thesis
    using ticker_shows_current_connection [of "[(True, demo_tick, 5)]" ?fp demo_tick "book_ticker_new ''BTCUSDT''" 5 "bbo_new 3"]
    unfolding q Let_def by (simp del: ticker_run.simps ticker_session.simps)
qed

end
