(* ===== verification/Wire.thy ===== *)
theory Wire
  imports Json Messages
begin

text \<open>
  How the messages of \<^verbatim>\<open>src/src/lighter/messages.rs\<close> are read from JSON: the decoders that the \<open>Deserialize\<close>
  derivations with their \<open>serde\<close> attributes stand for, and the type probe of \<^verbatim>\<open>src/src/lighter/ws.rs\<close>.
  A struct is read from an object whose known fields do not repeat (unknown fields are ignored) or
  from an array of its fields in order; a missing field takes its default or is an error; an
  optional field may be null. The syntax (text to JSON value) is the library's; the members of an
  object are in the order of the text.
\<close>

section \<open>Scalars and containers\<close>

definition de_string :: "json \<Rightarrow> string option" where "de_string = json_str"
definition de_i64 :: "json \<Rightarrow> int option" where "de_i64 = json_i64"

definition de_int :: "int \<Rightarrow> int \<Rightarrow> json \<Rightarrow> int option" where
  "de_int lo hi v = (case v of JInt i \<Rightarrow> if lo \<le> i \<and> i \<le> hi then Some i else None | _ \<Rightarrow> None)"

definition de_i32 :: "json \<Rightarrow> int option" where "de_i32 = de_int (- (2 ^ 31)) (2 ^ 31 - 1)"
definition de_u32 :: "json \<Rightarrow> u32 option" where "de_u32 v = map_option word_of_int (de_int 0 u32_max v)"
definition de_u64 :: "json \<Rightarrow> nat option" where "de_u64 v = map_option nat (de_int 0 (2 ^ 64 - 1) v)"
definition de_bool :: "json \<Rightarrow> bool option" where "de_bool v = (case v of JBool b \<Rightarrow> Some b | _ \<Rightarrow> None)"

definition de_option :: "(json \<Rightarrow> 'a option) \<Rightarrow> json \<Rightarrow> 'a option option" where
  "de_option d v = (if v = JNull then Some None else map_option Some (d v))"

definition de_vec :: "(json \<Rightarrow> 'a option) \<Rightarrow> json \<Rightarrow> 'a list option" where
  "de_vec d v = (case v of JArr xs \<Rightarrow> those (map d xs) | _ \<Rightarrow> None)"

text \<open>A \<open>HashMap\<close>: the last of several members with one key stays.\<close>

fun last_wins :: "('k \<times> 'v) list \<Rightarrow> ('k \<times> 'v) list" where
  "last_wins [] = []"
| "last_wins ((k, v) # kvs) = (if k \<in> fst ` set kvs then last_wins kvs else (k, v) # last_wins kvs)"

definition de_map :: "(json \<Rightarrow> 'a option) \<Rightarrow> json \<Rightarrow> (string \<times> 'a) list option" where
  "de_map d v =
     (case v of
        JObj kvs \<Rightarrow> map_option last_wins (those (map (\<lambda>(k, x). map_option (Pair k) (d x)) kvs))
      | _ \<Rightarrow> None)"

definition de_value :: "json \<Rightarrow> json_value option" where
  "de_value v = Some (case v of JStr s \<Rightarrow> JString s | JInt i \<Rightarrow> JNumber (of_int i) | JReal x \<Rightarrow> JNumber x | _ \<Rightarrow> JOther)"

definition de_f64_flex :: "(string \<Rightarrow> f64 option) \<Rightarrow> json \<Rightarrow> f64 option" where
  "de_f64_flex fp v =
     (case v of JStr s \<Rightarrow> Some (case fp s of None \<Rightarrow> 0 | Some x \<Rightarrow> x) | JInt i \<Rightarrow> Some (of_int i) | JReal x \<Rightarrow> Some x | _ \<Rightarrow> None)"

section \<open>Structs\<close>

type_synonym fields = "string \<rightharpoonup> json"

definition struct_fields :: "string list \<Rightarrow> json \<Rightarrow> fields option" where
  "struct_fields names v =
     (case v of
        JObj kvs \<Rightarrow> if distinct (filter (\<lambda>k. k \<in> set names) (map fst kvs)) then Some (map_of kvs) else None
      | JArr xs \<Rightarrow> if length xs \<le> length names then Some (map_of (zip names xs)) else None
      | _ \<Rightarrow> None)"

definition required :: "fields \<Rightarrow> string \<Rightarrow> (json \<Rightarrow> 'a option) \<Rightarrow> 'a option" where
  "required f k d = Option.bind (f k) d"

definition defaulted :: "fields \<Rightarrow> string \<Rightarrow> (json \<Rightarrow> 'a option) \<Rightarrow> 'a \<Rightarrow> 'a option" where
  "defaulted f k d x = (case f k of None \<Rightarrow> Some x | Some v \<Rightarrow> d v)"

abbreviation optional :: "fields \<Rightarrow> string \<Rightarrow> (json \<Rightarrow> 'a option) \<Rightarrow> 'a option option" where
  "optional f k d \<equiv> defaulted f k (de_option d) None"

section \<open>REST answers\<close>

definition de_order_book_detail :: "json \<Rightarrow> order_book_detail option" where
  "de_order_book_detail v =
     Option.bind (struct_fields [''symbol'', ''market_id'', ''min_base_amount'', ''min_quote_amount'', ''supported_size_decimals'',
         ''supported_price_decimals'', ''maker_fee'', ''status''] v) (\<lambda>f.
     Option.bind (required f ''symbol'' de_string) (\<lambda>symb.
     Option.bind (required f ''market_id'' de_u32) (\<lambda>mid.
     Option.bind (defaulted f ''min_base_amount'' de_string []) (\<lambda>mb.
     Option.bind (defaulted f ''min_quote_amount'' de_string []) (\<lambda>mq.
     Option.bind (defaulted f ''supported_size_decimals'' de_u32 0) (\<lambda>sd.
     Option.bind (defaulted f ''supported_price_decimals'' de_u32 0) (\<lambda>pd.
     Option.bind (defaulted f ''maker_fee'' de_string []) (\<lambda>mf.
     Option.bind (defaulted f ''status'' de_string []) (\<lambda>st.
     Some \<lparr>obd_symbol = symb, obd_market_id = mid, obd_min_base_amount = mb, obd_min_quote_amount = mq,
           supported_size_decimals = sd, supported_price_decimals = pd, obd_maker_fee = mf, obd_status = st\<rparr>)))))))))"

definition de_order_books :: "json \<Rightarrow> order_book_detail list option" where
  "de_order_books v =
     Option.bind (struct_fields [''order_books''] v) (\<lambda>f. defaulted f ''order_books'' (de_vec de_order_book_detail) [])"

definition de_next_nonce :: "json \<Rightarrow> int option" where
  "de_next_nonce v = Option.bind (struct_fields [''nonce''] v) (\<lambda>f. required f ''nonce'' de_i64)"

definition default_tx_response :: tx_response where
  "default_tx_response = \<lparr>resp_code = 0, resp_message = [], volume_quota_remaining = None\<rparr>"

definition de_tx_response :: "json \<Rightarrow> tx_response option" where
  "de_tx_response v =
     Option.bind (struct_fields [''code'', ''message'', ''volume_quota_remaining''] v) (\<lambda>f.
     Option.bind (defaulted f ''code'' de_i64 0) (\<lambda>code.
     Option.bind (defaulted f ''message'' de_string []) (\<lambda>msg.
     Option.bind (optional f ''volume_quota_remaining'' de_i64) (\<lambda>q.
     Some \<lparr>resp_code = code, resp_message = msg, volume_quota_remaining = q\<rparr>))))"

definition de_remote_order :: "json \<Rightarrow> remote_order option" where
  "de_remote_order v =
     Option.bind (struct_fields [''client_order_index'', ''order_index'', ''is_ask'', ''price'', ''remaining_base_amount'',
         ''filled_base_amount'', ''status''] v) (\<lambda>f.
     Option.bind (optional f ''client_order_index'' de_i64) (\<lambda>c.
     Option.bind (optional f ''order_index'' de_i64) (\<lambda>i.
     Option.bind (optional f ''is_ask'' de_bool) (\<lambda>a.
     Option.bind (optional f ''price'' de_string) (\<lambda>p.
     Option.bind (optional f ''remaining_base_amount'' de_string) (\<lambda>r.
     Option.bind (optional f ''filled_base_amount'' de_string) (\<lambda>fl.
     Option.bind (optional f ''status'' de_string) (\<lambda>st.
     Some \<lparr>ro_client_order_index = c, ro_order_index = i, ro_is_ask = a, ro_price = p, ro_remaining_base_amount = r,
           ro_filled_base_amount = fl, ro_status = st\<rparr>))))))))"

definition de_active_orders :: "json \<Rightarrow> remote_order list option" where
  "de_active_orders v =
     Option.bind (struct_fields [''orders''] v) (\<lambda>f. defaulted f ''orders'' (de_vec de_remote_order) [])"

section \<open>Feed messages\<close>

definition type_probe :: "(string \<Rightarrow> json option) \<Rightarrow> string \<Rightarrow> string option option" where
  "type_probe parse t =
     Option.bind (parse t) (\<lambda>v. Option.bind (struct_fields [''type''] v) (\<lambda>f. optional f ''type'' de_string))"

definition de_price_level :: "(string \<Rightarrow> f64 option) \<Rightarrow> json \<Rightarrow> price_level option" where
  "de_price_level fp v =
     Option.bind (struct_fields [''price'', ''size''] v) (\<lambda>f.
     Option.bind (required f ''price'' (de_f64_flex fp)) (\<lambda>p.
     Option.bind (required f ''size'' (de_f64_flex fp)) (\<lambda>s. Some (p, s))))"

definition de_order_book_payload :: "(string \<Rightarrow> f64 option) \<Rightarrow> json \<Rightarrow> order_book_payload option" where
  "de_order_book_payload fp v =
     Option.bind (struct_fields [''bids'', ''asks'', ''offset'', ''nonce'', ''begin_nonce''] v) (\<lambda>f.
     Option.bind (defaulted f ''bids'' (de_vec (de_price_level fp)) []) (\<lambda>bs.
     Option.bind (defaulted f ''asks'' (de_vec (de_price_level fp)) []) (\<lambda>as.
     Option.bind (optional f ''offset'' de_u64) (\<lambda>off.
     Option.bind (optional f ''nonce'' de_i64) (\<lambda>n.
     Option.bind (optional f ''begin_nonce'' de_i64) (\<lambda>bn.
     Some \<lparr>pl_bids = bs, pl_asks = as, pl_offset = off, pl_nonce = n, pl_begin_nonce = bn\<rparr>))))))"

definition de_order_book_msg :: "(string \<Rightarrow> f64 option) \<Rightarrow> json \<Rightarrow> order_book_msg option" where
  "de_order_book_msg fp v =
     Option.bind (struct_fields [''type'', ''offset'', ''nonce'', ''begin_nonce'', ''order_book''] v) (\<lambda>f.
     Option.bind (required f ''type'' de_string) (\<lambda>ty.
     Option.bind (optional f ''offset'' de_u64) (\<lambda>off.
     Option.bind (optional f ''nonce'' de_i64) (\<lambda>n.
     Option.bind (optional f ''begin_nonce'' de_i64) (\<lambda>bn.
     Option.bind (required f ''order_book'' (de_order_book_payload fp)) (\<lambda>ob.
     Some \<lparr>msg_type = ty, obm_offset = off, obm_nonce = n, obm_begin_nonce = bn, order_book = ob\<rparr>))))))"

definition de_ticker_msg :: "json \<Rightarrow> ticker_msg option" where
  "de_ticker_msg v =
     Option.bind (struct_fields [''type'', ''ticker''] v) (\<lambda>f.
     Option.bind (required f ''type'' de_string) (\<lambda>ty.
     Option.bind (defaulted f ''ticker'' (de_map de_value) []) (\<lambda>t.
     Some \<lparr>tk_msg_type = ty, ticker = map_of t\<rparr>)))"

definition de_account_orders :: "json \<Rightarrow> account_orders_msg option" where
  "de_account_orders v =
     Option.bind (struct_fields [''type'', ''orders''] v) (\<lambda>f.
     Option.bind (required f ''type'' de_string) (\<lambda>ty.
     Option.bind (defaulted f ''orders'' (de_map (de_vec de_remote_order)) []) (\<lambda>os.
     Some \<lparr>ao_msg_type = ty, ao_orders = os\<rparr>)))"

definition de_position :: "json \<Rightarrow> position_payload option" where
  "de_position v =
     Option.bind (struct_fields [''position'', ''sign'', ''avg_entry_price''] v) (\<lambda>f.
     Option.bind (optional f ''position'' de_string) (\<lambda>p.
     Option.bind (optional f ''sign'' de_i32) (\<lambda>sg.
     Option.bind (optional f ''avg_entry_price'' de_string) (\<lambda>e.
     Some \<lparr>pp_position = p, pp_sign = sg, pp_avg_entry_price = e\<rparr>))))"

definition de_trade :: "json \<Rightarrow> trade_payload option" where
  "de_trade v =
     Option.bind (struct_fields [''type'', ''price'', ''size'', ''usd_amount'', ''is_maker_ask'', ''ask_id'', ''bid_id'',
         ''ask_client_id'', ''bid_client_id'', ''ask_account_id'', ''bid_account_id'', ''ask_account_pnl'', ''bid_account_pnl'',
         ''maker_fee'', ''taker_fee'', ''timestamp'', ''transaction_time'', ''trade_id''] v) (\<lambda>f.
     Option.bind (optional f ''type'' de_string) (\<lambda>ty.
     Option.bind (optional f ''price'' de_string) (\<lambda>p.
     Option.bind (optional f ''size'' de_string) (\<lambda>sz.
     Option.bind (optional f ''usd_amount'' de_string) (\<lambda>ua.
     Option.bind (optional f ''is_maker_ask'' de_bool) (\<lambda>ma.
     Option.bind (optional f ''ask_id'' de_i64) (\<lambda>ai.
     Option.bind (optional f ''bid_id'' de_i64) (\<lambda>bi.
     Option.bind (optional f ''ask_client_id'' de_i64) (\<lambda>ac.
     Option.bind (optional f ''bid_client_id'' de_i64) (\<lambda>bc.
     Option.bind (optional f ''ask_account_id'' de_i64) (\<lambda>aa.
     Option.bind (optional f ''bid_account_id'' de_i64) (\<lambda>ba.
     Option.bind (optional f ''ask_account_pnl'' de_string) (\<lambda>ap.
     Option.bind (optional f ''bid_account_pnl'' de_string) (\<lambda>bp.
     Option.bind (optional f ''maker_fee'' de_value) (\<lambda>mf.
     Option.bind (optional f ''taker_fee'' de_value) (\<lambda>tf.
     Option.bind (optional f ''timestamp'' de_i64) (\<lambda>ts.
     Option.bind (optional f ''transaction_time'' de_i64) (\<lambda>tt.
     Option.bind (optional f ''trade_id'' de_i64) (\<lambda>ti.
     Some \<lparr>trade_type = ty, tp_price = p, tp_size = sz, usd_amount = ua, is_maker_ask = ma, ask_id = ai, bid_id = bi,
           ask_client_id = ac, bid_client_id = bc, ask_account_id = aa, bid_account_id = ba, ask_account_pnl = ap,
           bid_account_pnl = bp, tp_maker_fee = mf, tp_taker_fee = tf, timestamp = ts, transaction_time = tt, trade_id = ti\<rparr>)))))))))))))))))))"

definition de_account_all :: "json \<Rightarrow> account_all_msg option" where
  "de_account_all v =
     Option.bind (struct_fields [''type'', ''positions'', ''trades''] v) (\<lambda>f.
     Option.bind (required f ''type'' de_string) (\<lambda>ty.
     Option.bind (defaulted f ''positions'' (de_map de_position) []) (\<lambda>ps.
     Option.bind (defaulted f ''trades'' (de_map (de_vec de_trade)) []) (\<lambda>ts.
     Some \<lparr>aa_msg_type = ty, aa_positions = ps, aa_trades = ts\<rparr>))))"

definition de_stats :: "json \<Rightarrow> stats_payload option" where
  "de_stats v =
     Option.bind (struct_fields [''available_balance'', ''portfolio_value''] v) (\<lambda>f.
     Option.bind (optional f ''available_balance'' de_value) (\<lambda>ab.
     Option.bind (optional f ''portfolio_value'' de_value) (\<lambda>pv.
     Some \<lparr>available_balance = ab, stats_portfolio_value = pv\<rparr>)))"

definition de_user_stats :: "json \<Rightarrow> user_stats_msg option" where
  "de_user_stats v =
     Option.bind (struct_fields [''type'', ''stats''] v) (\<lambda>f.
     Option.bind (required f ''type'' de_string) (\<lambda>ty.
     Option.bind (defaulted f ''stats'' de_stats \<lparr>available_balance = None, stats_portfolio_value = None\<rparr>) (\<lambda>st.
     Some \<lparr>us_msg_type = ty, us_stats = st\<rparr>)))"

definition from_str :: "(string \<Rightarrow> json option) \<Rightarrow> (json \<Rightarrow> 'a option) \<Rightarrow> string \<Rightarrow> 'a option" where
  "from_str parse d t = Option.bind (parse t) d"

section \<open>Only the known members count\<close>

text \<open>Members are compared through the known names; a decoder reads nothing else.\<close>

definition same_members :: "string list \<Rightarrow> (string \<times> json) list \<Rightarrow> (string \<times> json) list \<Rightarrow> bool" where
  "same_members names kvs kvs' \<longleftrightarrow>
     mset (filter (\<lambda>(k, _). k \<in> set names) kvs) = mset (filter (\<lambda>(k, _). k \<in> set names) kvs')"

lemma filter_keys: "filter (\<lambda>k. k \<in> A) (map fst kvs) = map fst (filter (\<lambda>(k, _). k \<in> A) kvs)"
  by (induction kvs) auto

lemma map_of_filter_known: "k \<in> A \<Longrightarrow> map_of (filter (\<lambda>(k, _). k \<in> A) kvs) k = map_of kvs k"
  by (induction kvs) auto

lemma same_members_fields:
  assumes "same_members names kvs kvs'" and "struct_fields names (JObj kvs) = Some f"
  obtains f' where "struct_fields names (JObj kvs') = Some f'" "\<And>k. k \<in> set names \<Longrightarrow> f' k = f k"
proof -
  let ?F = "\<lambda>kvs. filter (\<lambda>(k, _). k \<in> set names) kvs"
  from assms(2) have d: "distinct (map fst (?F kvs))" and f: "f = map_of kvs"
    by (simp_all add: struct_fields_def filter_keys split: if_splits)
  have m: "mset (?F kvs) = mset (?F kvs')" using assms(1) by (simp add: same_members_def)
  then have "mset (map fst (?F kvs)) = mset (map fst (?F kvs'))" by simp
  with d have d': "distinct (map fst (?F kvs'))" using mset_eq_imp_distinct_iff by blast
  have "map_of (?F kvs') = map_of (?F kvs)"
    by (rule map_of_inject_set [OF d' d, THEN iffD2]) (rule mset_eq_setD [OF m, symmetric])
  then have eq: "map_of (?F kvs') k = map_of (?F kvs) k" for k by simp
  have at: "map_of kvs' k = f k" if "k \<in> set names" for k
    using eq [of k] f by (simp add: map_of_filter_known [OF that])
  show ?thesis
    by (rule that [of "map_of kvs'"]) (use d' at in \<open>simp_all add: struct_fields_def filter_keys\<close>)
qed

lemma same_members_sym: "same_members names kvs kvs' \<Longrightarrow> same_members names kvs' kvs"
  by (simp add: same_members_def)

text \<open>A decoder that reads only the named fields.\<close>

lemma decoder_same:
  assumes "\<And>v. d v = Option.bind (struct_fields names v) g"
    and "\<And>f f'. (\<And>k. k \<in> set names \<Longrightarrow> f' k = f k) \<Longrightarrow> g f' = g f" and "same_members names kvs kvs'"
  shows "d (JObj kvs) = d (JObj kvs')"
proof (cases "struct_fields names (JObj kvs)")
  case None
  have "struct_fields names (JObj kvs') = None"
    using same_members_fields [OF same_members_sym [OF assms(3)]] None by (metis not_None_eq)
  with None assms(1) show ?thesis by simp
next
  case (Some f)
  with assms same_members_fields [OF assms(3) Some] show ?thesis by (metis Option.bind.bind_lunit)
qed

section \<open>Round trips\<close>

text \<open>An object with the members that are present, in order.\<close>

fun present :: "(string \<times> json option) list \<Rightarrow> (string \<times> json) list" where
  "present [] = []"
| "present ((k, None) # ms) = present ms"
| "present ((k, Some v) # ms) = (k, v) # present ms"

definition en_obj :: "(string \<times> json option) list \<Rightarrow> json" where
  "en_obj ms = JObj (present ms)"

lemma present_keys: "fst ` set (present ms) \<subseteq> fst ` set ms"
  by (induction ms rule: present.induct) auto

lemma present_distinct: "distinct (map fst ms) \<Longrightarrow> distinct (map fst (present ms))"
proof (induction ms rule: present.induct)
  case (3 k v ms)
  then show ?case using present_keys [of ms] by auto
qed simp_all

lemma map_of_present: "distinct (map fst ms) \<Longrightarrow> map_of (present ms) k = (case map_of ms k of Some x \<Rightarrow> x | None \<Rightarrow> None)"
proof (induction ms rule: present.induct)
  case (2 k' ms)
  then have "map_of ms k' = None" by (metis distinct.simps(2) fst_conv list.simps(9) list.set_map map_of_eq_None_iff)
  with 2 show ?case by auto
qed simp_all

lemma struct_fields_en_obj [simp]:
  "distinct (map fst ms) \<Longrightarrow> struct_fields names (en_obj ms) = Some (\<lambda>k. case map_of ms k of Some x \<Rightarrow> x | None \<Rightarrow> None)"
  by (simp add: struct_fields_def en_obj_def map_of_present present_distinct fun_eq_iff)

lemma last_wins_distinct [simp]: "distinct (map fst kvs) \<Longrightarrow> last_wins kvs = kvs"
  by (induction kvs rule: last_wins.induct) auto

text \<open>
  The exchange may add fields to its messages and send them in any order: two objects with the
  same known members (and anything else) are decoded alike, for every message the bot acts on.
\<close>

theorem unknown_fields_ignored:
  shows "same_members [''type'', ''price'', ''size'', ''usd_amount'', ''is_maker_ask'', ''ask_id'', ''bid_id'',
         ''ask_client_id'', ''bid_client_id'', ''ask_account_id'', ''bid_account_id'', ''ask_account_pnl'', ''bid_account_pnl'',
         ''maker_fee'', ''taker_fee'', ''timestamp'', ''transaction_time'', ''trade_id''] kvs kvs'
      \<Longrightarrow> de_trade (JObj kvs) = de_trade (JObj kvs')"
    and "same_members [''client_order_index'', ''order_index'', ''is_ask'', ''price'', ''remaining_base_amount'',
         ''filled_base_amount'', ''status''] kvs kvs' \<Longrightarrow> de_remote_order (JObj kvs) = de_remote_order (JObj kvs')"
    and "same_members [''type'', ''positions'', ''trades''] kvs kvs' \<Longrightarrow> de_account_all (JObj kvs) = de_account_all (JObj kvs')"
    and "same_members [''type'', ''offset'', ''nonce'', ''begin_nonce'', ''order_book''] kvs kvs'
      \<Longrightarrow> de_order_book_msg fp (JObj kvs) = de_order_book_msg fp (JObj kvs')"
  by (rule decoder_same [OF de_trade_def] decoder_same [OF de_remote_order_def] decoder_same [OF de_account_all_def]
      decoder_same [OF de_order_book_msg_def]; simp add: required_def defaulted_def)+

section \<open>What a JSON value says\<close>

text \<open>
  When a JSON value spells a message, apart from how it is decoded: no known member occurs twice; the
  members are in any order, among any others; an optional part that the message lacks is absent or
  null; a map that is empty in the message may be absent.
\<close>

definition says :: "('a \<Rightarrow> json \<Rightarrow> bool) \<Rightarrow> (string \<times> json) list \<Rightarrow> string \<Rightarrow> 'a option \<Rightarrow> bool" where
  "says w kvs k x \<longleftrightarrow>
     (case x of None \<Rightarrow> map_of kvs k \<in> {None, Some JNull} | Some a \<Rightarrow> \<exists>v. map_of kvs k = Some v \<and> w a v)"

definition object_form :: "string list \<Rightarrow> ((string \<times> json) list \<Rightarrow> bool) \<Rightarrow> json \<Rightarrow> bool" where
  "object_form names P v \<longleftrightarrow> (\<exists>kvs. v = JObj kvs \<and> distinct (filter (\<lambda>k. k \<in> set names) (map fst kvs)) \<and> P kvs)"

definition list_form :: "('a \<Rightarrow> json \<Rightarrow> bool) \<Rightarrow> 'a list \<Rightarrow> json \<Rightarrow> bool" where
  "list_form w xs v \<longleftrightarrow> (\<exists>vs. v = JArr vs \<and> list_all2 w xs vs)"

definition map_form :: "('a \<Rightarrow> json \<Rightarrow> bool) \<Rightarrow> (string \<times> 'a) list \<Rightarrow> json \<Rightarrow> bool" where
  "map_form w xs v \<longleftrightarrow> (\<exists>kvs. v = JObj kvs \<and> distinct (map fst kvs) \<and> list_all2 (\<lambda>(k, x) (k', y). k = k' \<and> w x y) xs kvs)"

definition says_map :: "('a \<Rightarrow> json \<Rightarrow> bool) \<Rightarrow> (string \<times> json) list \<Rightarrow> string \<Rightarrow> (string \<times> 'a) list \<Rightarrow> bool" where
  "says_map w kvs k xs \<longleftrightarrow> xs = [] \<and> map_of kvs k = None \<or> (\<exists>v. map_of kvs k = Some v \<and> map_form w xs v)"

definition str_form :: "string \<Rightarrow> json \<Rightarrow> bool" where "str_form s v \<longleftrightarrow> v = JStr s"
definition bool_form :: "bool \<Rightarrow> json \<Rightarrow> bool" where "bool_form b v \<longleftrightarrow> v = JBool b"
definition i64_form :: "int \<Rightarrow> json \<Rightarrow> bool" where "i64_form i v \<longleftrightarrow> v = JInt i \<and> - (2 ^ 63) \<le> i \<and> i < 2 ^ 63"
definition i32_form :: "int \<Rightarrow> json \<Rightarrow> bool" where "i32_form i v \<longleftrightarrow> v = JInt i \<and> - (2 ^ 31) \<le> i \<and> i < 2 ^ 31"

definition value_form :: "json_value \<Rightarrow> json \<Rightarrow> bool" where
  "value_form x v \<longleftrightarrow>
     (case x of
        JString s \<Rightarrow> v = JStr s
      | JNumber r \<Rightarrow> v = JReal r \<or> (\<exists>i. v = JInt i \<and> r = of_int i)
      | JOther \<Rightarrow> (\<exists>b. v = JBool b) \<or> (\<exists>vs. v = JArr vs) \<or> (\<exists>kvs. v = JObj kvs))"

definition order_form :: "remote_order \<Rightarrow> json \<Rightarrow> bool" where
  "order_form r = object_form [''client_order_index'', ''order_index'', ''is_ask'', ''price'', ''remaining_base_amount'',
       ''filled_base_amount'', ''status''] (\<lambda>kvs.
     says i64_form kvs ''client_order_index'' (ro_client_order_index r) \<and> says i64_form kvs ''order_index'' (ro_order_index r) \<and>
     says bool_form kvs ''is_ask'' (ro_is_ask r) \<and> says str_form kvs ''price'' (ro_price r) \<and>
     says str_form kvs ''remaining_base_amount'' (ro_remaining_base_amount r) \<and>
     says str_form kvs ''filled_base_amount'' (ro_filled_base_amount r) \<and> says str_form kvs ''status'' (ro_status r))"

definition position_form :: "position_payload \<Rightarrow> json \<Rightarrow> bool" where
  "position_form p = object_form [''position'', ''sign'', ''avg_entry_price''] (\<lambda>kvs.
     says str_form kvs ''position'' (pp_position p) \<and> says i32_form kvs ''sign'' (pp_sign p) \<and>
     says str_form kvs ''avg_entry_price'' (pp_avg_entry_price p))"

definition trade_form :: "trade_payload \<Rightarrow> json \<Rightarrow> bool" where
  "trade_form t = object_form [''type'', ''price'', ''size'', ''usd_amount'', ''is_maker_ask'', ''ask_id'', ''bid_id'',
       ''ask_client_id'', ''bid_client_id'', ''ask_account_id'', ''bid_account_id'', ''ask_account_pnl'', ''bid_account_pnl'',
       ''maker_fee'', ''taker_fee'', ''timestamp'', ''transaction_time'', ''trade_id''] (\<lambda>kvs.
     says str_form kvs ''type'' (trade_type t) \<and> says str_form kvs ''price'' (tp_price t) \<and> says str_form kvs ''size'' (tp_size t) \<and>
     says str_form kvs ''usd_amount'' (usd_amount t) \<and> says bool_form kvs ''is_maker_ask'' (is_maker_ask t) \<and>
     says i64_form kvs ''ask_id'' (ask_id t) \<and> says i64_form kvs ''bid_id'' (bid_id t) \<and>
     says i64_form kvs ''ask_client_id'' (ask_client_id t) \<and> says i64_form kvs ''bid_client_id'' (bid_client_id t) \<and>
     says i64_form kvs ''ask_account_id'' (ask_account_id t) \<and> says i64_form kvs ''bid_account_id'' (bid_account_id t) \<and>
     says str_form kvs ''ask_account_pnl'' (ask_account_pnl t) \<and> says str_form kvs ''bid_account_pnl'' (bid_account_pnl t) \<and>
     says value_form kvs ''maker_fee'' (tp_maker_fee t) \<and> says value_form kvs ''taker_fee'' (tp_taker_fee t) \<and>
     says i64_form kvs ''timestamp'' (timestamp t) \<and> says i64_form kvs ''transaction_time'' (transaction_time t) \<and>
     says i64_form kvs ''trade_id'' (trade_id t))"

definition account_all_form :: "account_all_msg \<Rightarrow> json \<Rightarrow> bool" where
  "account_all_form m = object_form [''type'', ''positions'', ''trades''] (\<lambda>kvs.
     says str_form kvs ''type'' (Some (aa_msg_type m)) \<and> says_map position_form kvs ''positions'' (aa_positions m) \<and>
     says_map (list_form trade_form) kvs ''trades'' (aa_trades m))"

definition account_orders_form :: "account_orders_msg \<Rightarrow> json \<Rightarrow> bool" where
  "account_orders_form m = object_form [''type'', ''orders''] (\<lambda>kvs.
     says str_form kvs ''type'' (Some (ao_msg_type m)) \<and> says_map (list_form order_form) kvs ''orders'' (ao_orders m))"

text \<open>A decoder reads a form back when it returns what the value says; no form is null.\<close>

definition reads_form :: "(json \<Rightarrow> 'a option) \<Rightarrow> ('a \<Rightarrow> json \<Rightarrow> bool) \<Rightarrow> bool" where
  "reads_form d w \<longleftrightarrow> (\<forall>x v. w x v \<longrightarrow> v \<noteq> JNull \<and> d v = Some x)"

lemma readsI: "(\<And>x v. w x v \<Longrightarrow> v \<noteq> JNull \<and> d v = Some x) \<Longrightarrow> reads_form d w"
  by (simp add: reads_form_def)

lemma reads_scalars [simp]:
  "reads_form de_string str_form" "reads_form de_bool bool_form" "reads_form de_i64 i64_form" "reads_form de_i32 i32_form" "reads_form de_value value_form"
  by (auto simp: reads_form_def str_form_def bool_form_def i64_form_def i32_form_def value_form_def de_string_def json_str_def de_bool_def
      de_i64_def json_i64_def de_i32_def de_int_def de_value_def split: json_value.splits)

lemma reads_optional: "says w kvs k x \<Longrightarrow> reads_form d w \<Longrightarrow> optional (map_of kvs) k d = Some x"
  by (fastforce simp: says_def reads_form_def defaulted_def de_option_def split: option.splits)

lemma reads_required: "says w kvs k (Some x) \<Longrightarrow> reads_form d w \<Longrightarrow> required (map_of kvs) k d = Some x"
  by (auto simp: says_def reads_form_def required_def)

lemma reads_those: "reads_form d w \<Longrightarrow> list_all2 w xs vs \<Longrightarrow> those (map d vs) = Some xs"
  by (rotate_tac, induction rule: list_all2_induct) (simp_all add: reads_form_def)

lemma reads_vec: "reads_form d w \<Longrightarrow> reads_form (de_vec d) (list_form w)"
  using reads_those by (auto intro!: readsI simp: list_form_def de_vec_def)

lemma reads_map:
  assumes "reads_form d w"
  shows "reads_form (de_map d) (map_form w)"
proof (rule readsI)
  fix xs v assume "map_form w xs v"
  then obtain kvs where v: "v = JObj kvs" "distinct (map fst kvs)" and l: "list_all2 (\<lambda>(k, x) (k', y). k = k' \<and> w x y) xs kvs"
    by (auto simp: map_form_def)
  from l have "those (map (\<lambda>(k, y). map_option (Pair k) (d y)) kvs) = Some xs"
    by (induction rule: list_all2_induct) (use assms in \<open>auto simp: reads_form_def\<close>)
  moreover from l have "map fst xs = map fst kvs" by (induction rule: list_all2_induct) auto
  ultimately show "v \<noteq> JNull \<and> de_map d v = Some xs" using v by (simp add: de_map_def)
qed

lemma reads_form_defaulted: "says_map w kvs k xs \<Longrightarrow> reads_form d w \<Longrightarrow> defaulted (map_of kvs) k (de_map d) [] = Some xs"
  using reads_map [of d w] by (auto simp: says_map_def reads_form_def defaulted_def)

lemma object_formE:
  assumes "object_form names P v"
  obtains kvs where "v = JObj kvs" "struct_fields names v = Some (map_of kvs)" "P kvs"
  using assms by (auto simp: object_form_def struct_fields_def)

lemmas reads_members = reads_optional [OF _ reads_scalars(1)] reads_optional [OF _ reads_scalars(2)] reads_optional [OF _ reads_scalars(3)]
  reads_optional [OF _ reads_scalars(4)] reads_optional [OF _ reads_scalars(5)]

lemma reads_order: "reads_form de_remote_order order_form"
  by (rule readsI, unfold order_form_def, erule object_formE) (clarsimp simp: de_remote_order_def dest!: reads_members)

lemma reads_position: "reads_form de_position position_form"
  by (rule readsI, unfold position_form_def, erule object_formE) (clarsimp simp: de_position_def dest!: reads_members)

lemma reads_trade: "reads_form de_trade trade_form"
  by (rule readsI, unfold trade_form_def, erule object_formE) (clarsimp simp: de_trade_def dest!: reads_members)

lemmas reads_maps = reads_required [OF _ reads_scalars(1)] reads_form_defaulted [OF _ reads_position]
  reads_form_defaulted [OF _ reads_vec [OF reads_trade]] reads_form_defaulted [OF _ reads_vec [OF reads_order]]

lemma reads_account_all: "reads_form de_account_all account_all_form"
  by (rule readsI, unfold account_all_form_def, erule object_formE) (clarsimp simp: de_account_all_def dest!: reads_maps)

lemma reads_account_orders: "reads_form de_account_orders account_orders_form"
  by (rule readsI, unfold account_orders_form_def, erule object_formE) (clarsimp simp: de_account_orders_def dest!: reads_maps)

lemma account_all_read: "account_all_form m v \<Longrightarrow> de_account_all v = Some m"
  using reads_account_all by (simp add: reads_form_def)

text \<open>
  C24. Nothing of an account message is lost or misread: every JSON object that spells an \<open>account_all\<close>
  or an \<open>account_orders\<close> message is decoded to that message, each fill, position and order with every
  field, including which of them are missing; whatever other members the exchange adds, in whatever order
  the members come, with missing optional members left out or null, and with the maps of positions,
  trades and orders left out when they are empty.
\<close>

theorem account_messages_decoded:
  assumes "account_all_form m v" "account_orders_form n u"
  shows "de_account_all v = Some m \<and> de_account_orders u = Some n"
  using reads_account_all reads_account_orders assms by (simp add: reads_form_def)

text \<open>The message captured in the tests of the source, with a member the program does not know.\<close>

definition demo_trade :: trade_payload where
  "demo_trade = \<lparr>trade_type = Some ''trade'', tp_price = Some ''64152.1'', tp_size = Some ''0.00043'', usd_amount = Some ''27.585403'',
     is_maker_ask = Some False, ask_id = Some 11, bid_id = Some 22, ask_client_id = Some 111, bid_client_id = Some 222,
     ask_account_id = Some 9, bid_account_id = Some 7, ask_account_pnl = Some ''-0.01'', bid_account_pnl = Some ''0.02'',
     tp_maker_fee = Some (JNumber 40), tp_taker_fee = None, timestamp = Some 1781764389313, transaction_time = Some 1781764389314,
     trade_id = Some 123\<rparr>"

definition demo_all :: account_all_msg where
  "demo_all = \<lparr>aa_msg_type = ''update/account_all'', aa_positions = [], aa_trades = [(''1'', [demo_trade])]\<rparr>"

definition demo_all_json :: json where
  "demo_all_json = JObj
     [(''channel'', JStr ''account_all:7''), (''type'', JStr ''update/account_all''),
      (''trades'', JObj [(''1'', JArr [JObj
         [(''type'', JStr ''trade''), (''trade_id'', JInt 123), (''timestamp'', JInt 1781764389313), (''transaction_time'', JInt 1781764389314),
          (''price'', JStr ''64152.1''), (''size'', JStr ''0.00043''), (''usd_amount'', JStr ''27.585403''), (''ask_id'', JInt 11),
          (''bid_id'', JInt 22), (''ask_client_id'', JInt 111), (''bid_client_id'', JInt 222), (''ask_account_id'', JInt 9),
          (''bid_account_id'', JInt 7), (''ask_account_pnl'', JStr ''-0.01''), (''bid_account_pnl'', JStr ''0.02''),
          (''is_maker_ask'', JBool False), (''maker_fee'', JInt 40)]])])]"

definition demo_orders :: account_orders_msg where
  "demo_orders = \<lparr>ao_msg_type = ''update/account_orders'', ao_orders = [(''1'', [\<lparr>ro_client_order_index = Some 5, ro_order_index = Some 77,
     ro_is_ask = Some True, ro_price = None, ro_remaining_base_amount = None, ro_filled_base_amount = None, ro_status = Some ''open''\<rparr>])]\<rparr>"

definition demo_orders_json :: json where
  "demo_orders_json = JObj
     [(''orders'', JObj [(''1'', JArr [JObj [(''status'', JStr ''open''), (''order_index'', JInt 77), (''client_order_index'', JInt 5),
         (''price'', JNull), (''is_ask'', JBool True)]])]), (''type'', JStr ''update/account_orders'')]"

lemmas form_defs = object_form_def says_def says_map_def map_form_def list_form_def str_form_def bool_form_def i64_form_def i32_form_def value_form_def

lemma demo_all_form: "account_all_form demo_all demo_all_json"
  by (simp add: account_all_form_def demo_all_def demo_all_json_def demo_trade_def trade_form_def form_defs)

theorem account_messages_decoded_witness:
  "de_account_all demo_all_json = Some demo_all \<and> de_account_orders demo_orders_json = Some demo_orders"
  by (rule account_messages_decoded [OF demo_all_form])
    (simp add: account_orders_form_def demo_orders_def demo_orders_json_def order_form_def form_defs)

end
