(* ===== verification/Text_Format.thy ===== *)
theory Text_Format
  imports Types
begin

text \<open>
  The text forms of numbers the sources print with \<open>format!\<close>: integers, \<open>{:.k}\<close> (exact decimal
  expansion rounded half to even at \<open>k\<close> places) and \<open>{:.k}e\<close>. A reader of the same texts states what
  a printed number is worth.
\<close>

section \<open>Naturals and integers\<close>

definition digit_char :: "nat \<Rightarrow> char" where
  "digit_char d = char_of (48 + d)"

definition digit_value :: "char \<Rightarrow> nat" where
  "digit_value c = of_char c - 48"

fun nat_text :: "nat \<Rightarrow> string" where
  "nat_text n = (if n < 10 then [digit_char n] else nat_text (n div 10) @ [digit_char (n mod 10)])"

declare nat_text.simps [simp del]

definition int_text :: "int \<Rightarrow> string" where
  "int_text i = (if i < 0 then CHR ''-'' # nat_text (nat (- i)) else nat_text (nat i))"

text \<open>\<open>k\<close> digits, most significant first, zeros in front.\<close>

primrec padded_text :: "nat \<Rightarrow> nat \<Rightarrow> string" where
  "padded_text 0 n = []"
| "padded_text (Suc k) n = padded_text k (n div 10) @ [digit_char (n mod 10)]"

definition digits_value :: "string \<Rightarrow> nat" where
  "digits_value = foldl (\<lambda>v c. 10 * v + digit_value c) 0"

lemma digit_roundtrip [simp]: "d < 10 \<Longrightarrow> digit_value (digit_char d) = d"
  by (simp add: digit_value_def digit_char_def)

lemma digit_char_range: "d < 10 \<Longrightarrow> of_char (digit_char d) = 48 + d"
  by (simp add: digit_char_def)

lemma digits_value_simps [simp]:
  "digits_value [] = 0" "digits_value (s @ [c]) = 10 * digits_value s + digit_value c" "digits_value [c] = digit_value c"
  by (simp_all add: digits_value_def)

lemma digits_value_append: "digits_value (s @ t) = digits_value s * 10 ^ length t + digits_value t"
  by (induction t rule: rev_induct) (simp_all flip: append_assoc add: algebra_simps)

lemma digits_value_nat_text [simp]: "digits_value (nat_text n) = n"
proof (induction n rule: less_induct)
  case (less n)
  then show ?case by (cases "n < 10") (simp_all add: nat_text.simps[of n])
qed

lemma nat_text_inj [simp]: "nat_text m = nat_text n \<longleftrightarrow> m = n"
  by (metis digits_value_nat_text)

lemma length_padded_text [simp]: "length (padded_text k n) = k"
  by (induction k arbitrary: n) auto

lemma digits_value_padded_text [simp]: "digits_value (padded_text k n) = n mod 10 ^ k"
proof (induction k arbitrary: n)
  case (Suc k)
  have "10 * (n div 10 mod 10 ^ k) + n mod 10 = n mod 10 ^ Suc k"
    using mod_mult2_eq[of n 10 "10 ^ k"] by simp
  then show ?case using Suc by simp
qed simp

text \<open>Only digits are printed.\<close>

definition is_digit :: "char \<Rightarrow> bool" where
  "is_digit c \<longleftrightarrow> 48 \<le> (of_char c :: nat) \<and> (of_char c :: nat) < 58"

lemma is_digit_digit_char [simp]: "d < 10 \<Longrightarrow> is_digit (digit_char d)"
  by (simp add: is_digit_def digit_char_range)

lemma nat_text_digits: "\<forall>c \<in> set (nat_text n). is_digit c"
proof (induction n rule: less_induct)
  case (less n)
  show ?case
  proof (cases "n < 10")
    case False
    have "\<forall>c \<in> set (nat_text (n div 10)). is_digit c" by (rule less) (use False in simp)
    then show ?thesis using False by (simp add: nat_text.simps[of n])
  qed (simp add: nat_text.simps[of n])
qed

lemma nat_text_not_Nil [simp]: "nat_text n \<noteq> []"
  by (simp add: nat_text.simps[of n])

lemma padded_text_digits: "\<forall>c \<in> set (padded_text k n). is_digit c"
  by (induction k arbitrary: n) auto

section \<open>Decimal fractions\<close>

definition sign_text :: "f64 \<Rightarrow> string" where
  "sign_text x = (if x < 0 then ''-'' else [])"

definition fraction_text :: "nat \<Rightarrow> nat \<Rightarrow> string" where
  "fraction_text k n = (if k = 0 then [] else CHR ''.'' # padded_text k n)"

text \<open>\<open>format!("{:.k}", x)\<close>\<close>

definition fixed_text :: "nat \<Rightarrow> f64 \<Rightarrow> string" where
  "fixed_text k x =
     (let n = nat (round_ties_even (\<bar>x\<bar> * 10 ^ k))
      in sign_text x @ nat_text (n div 10 ^ k) @ fraction_text k n)"

text \<open>\<open>format!("{:.k$e}", x)\<close> for \<open>x\<close> other than 0; rounding may carry into the exponent.\<close>

definition decimal_exponent :: "f64 \<Rightarrow> int" where
  "decimal_exponent x = \<lfloor>log 10 \<bar>x\<bar>\<rfloor>"

definition mantissa :: "nat \<Rightarrow> f64 \<Rightarrow> nat \<times> int" where
  "mantissa k x =
     (let e = decimal_exponent x; n = nat (round_ties_even (\<bar>x\<bar> * power_int 10 (int k - e)))
      in if n = 10 ^ Suc k then (10 ^ k, e + 1) else (n, e))"

definition sci_text :: "nat \<Rightarrow> f64 \<Rightarrow> string" where
  "sci_text k x = (let (n, e) = mantissa k x in sign_text x @ nat_text (n div 10 ^ k) @ fraction_text k n @ ''e'' @ int_text e)"

text \<open>The number a text denotes.\<close>

definition split_at :: "char \<Rightarrow> string \<Rightarrow> string \<times> string" where
  "split_at c s = (takeWhile (\<lambda>x. x \<noteq> c) s, drop 1 (dropWhile (\<lambda>x. x \<noteq> c) s))"

definition unsigned_value :: "string \<Rightarrow> f64" where
  "unsigned_value s = (let (i, f) = split_at (CHR ''.'') s in of_nat (digits_value i) + of_nat (digits_value f) / 10 ^ length f)"

definition decimal_value :: "string \<Rightarrow> f64" where
  "decimal_value s = (case s of c # t \<Rightarrow> if c = CHR ''-'' then - unsigned_value t else unsigned_value s | [] \<Rightarrow> 0)"

definition signed_value :: "string \<Rightarrow> int" where
  "signed_value s = (case s of c # t \<Rightarrow> if c = CHR ''-'' then - int (digits_value t)
      else if c = CHR ''+'' then int (digits_value t) else int (digits_value s) | [] \<Rightarrow> 0)"

definition text_value :: "string \<Rightarrow> f64" where
  "text_value s = (let (m, e) = split_at (CHR ''e'') s in decimal_value m * power_int 10 (signed_value e))"

lemma is_digit_not [simp]: "\<not> is_digit (CHR ''.'')" "\<not> is_digit (CHR ''-'')" "\<not> is_digit (CHR ''+'')" "\<not> is_digit (CHR ''e'')"
  by (simp_all add: is_digit_def)

lemma split_at_absent [simp]: "c \<notin> set s \<Longrightarrow> split_at c s = (s, [])"
  by (induction s) (auto simp: split_at_def)

lemma split_at_first [simp]: "c \<notin> set s \<Longrightarrow> split_at c (s @ c # t) = (s, t)"
  by (induction s) (auto simp: split_at_def)

lemma nat_text_avoid [simp]: "\<not> is_digit c \<Longrightarrow> c \<notin> set (nat_text n)" "\<not> is_digit c \<Longrightarrow> c \<notin> set (padded_text k n)"
  using nat_text_digits padded_text_digits by metis+

lemma nat_text_Cons:
  obtains c t where "nat_text n = c # t" "is_digit c" "c \<noteq> CHR ''-''" "c \<noteq> CHR ''+''"
proof (cases "nat_text n")
  case (Cons c t)
  have "is_digit c" using nat_text_digits[of n] Cons by (metis list.set_intros(1))
  moreover from this have "c \<noteq> CHR ''-''" "c \<noteq> CHR ''+''" using is_digit_not by metis+
  ultimately show ?thesis using that Cons by metis
next
  case Nil
  then show ?thesis using nat_text_not_Nil by metis
qed

lemma signed_value_int_text [simp]: "signed_value (int_text i) = i"
proof (cases "i < 0")
  case False
  obtain c t where "nat_text (nat i) = c # t" "c \<noteq> CHR ''-''" "c \<noteq> CHR ''+''" by (rule nat_text_Cons)
  then show ?thesis using False digits_value_nat_text[of "nat i"] by (simp add: signed_value_def int_text_def)
qed (simp add: signed_value_def int_text_def)

lemma unsigned_value_text [simp]: "unsigned_value (nat_text (n div 10 ^ k) @ fraction_text k n) = of_nat n / 10 ^ k"
proof (cases "k = 0")
  case True
  then show ?thesis by (simp add: unsigned_value_def fraction_text_def)
next
  case False
  have "n = 10 ^ k * (n div 10 ^ k) + n mod 10 ^ k" by simp
  then have "of_nat n = (10 :: real) ^ k * of_nat (n div 10 ^ k) + of_nat (n mod 10 ^ k)"
    by (metis of_nat_add of_nat_mult of_nat_numeral of_nat_power)
  then show ?thesis using False by (simp add: unsigned_value_def fraction_text_def field_simps)
qed

lemma decimal_value_text [simp]:
  "decimal_value (sign_text x @ nat_text (n div 10 ^ k) @ fraction_text k n) = (if x < 0 then - 1 else 1) * of_nat n / 10 ^ k"
proof -
  obtain c t where c: "nat_text (n div 10 ^ k) = c # t" "c \<noteq> CHR ''-''" by (rule nat_text_Cons)
  show ?thesis using unsigned_value_text[of n k] c by (auto simp: decimal_value_def sign_text_def)
qed

lemma round_ties_even_nonneg: "0 \<le> x \<Longrightarrow> 0 \<le> round_ties_even x"
  using round_ties_even_mono[of 0 x] round_ties_even_of_int[of 0] by simp

text \<open>A number printed with \<open>k\<close> places is off by at most half a unit of the last one.\<close>

lemma fixed_text_error: "\<bar>decimal_value (fixed_text k x) - x\<bar> \<le> 1 / (2 * 10 ^ k)"
proof -
  define r where "r = round_ties_even (\<bar>x\<bar> * 10 ^ k)"
  have r: "0 \<le> r" "\<bar>of_int r - \<bar>x\<bar> * 10 ^ k\<bar> \<le> 1 / 2"
    unfolding r_def by (rule round_ties_even_nonneg, simp) (rule round_ties_even_error)
  have "decimal_value (fixed_text k x) = (if x < 0 then - 1 else 1) * of_int r / 10 ^ k"
    using r(1) by (simp add: fixed_text_def r_def Let_def)
  then have "decimal_value (fixed_text k x) - x = (if x < 0 then - 1 else 1) * (of_int r - \<bar>x\<bar> * 10 ^ k) / 10 ^ k"
    by (simp add: field_simps)
  then have "\<bar>decimal_value (fixed_text k x) - x\<bar> = \<bar>of_int r - \<bar>x\<bar> * 10 ^ k\<bar> / 10 ^ k"
    by (simp add: abs_mult)
  also have "\<dots> \<le> (1 / 2) / 10 ^ k" by (rule divide_right_mono[OF r(2)]) simp
  finally show ?thesis by simp
qed

lemma decimal_exponent_bounds:
  assumes "x \<noteq> 0"
  shows "power_int 10 (decimal_exponent x) \<le> \<bar>x\<bar>" "\<bar>x\<bar> < power_int 10 (decimal_exponent x + 1)"
proof -
  have p: "power_int (10 :: real) i = 10 powr of_int i" for i by (simp add: powr_real_of_int')
  have "of_int (decimal_exponent x) \<le> log 10 \<bar>x\<bar>" "log 10 \<bar>x\<bar> < of_int (decimal_exponent x + 1)"
    unfolding decimal_exponent_def by linarith+
  then show "power_int 10 (decimal_exponent x) \<le> \<bar>x\<bar>" "\<bar>x\<bar> < power_int 10 (decimal_exponent x + 1)"
    using assms unfolding p by (simp_all add: le_log_iff log_less_iff)
qed

lemma decimal_exponent_eqI:
  assumes "power_int 10 e \<le> \<bar>x\<bar>" "\<bar>x\<bar> < power_int 10 (e + 1)"
  shows "decimal_exponent x = e"
proof -
  have p: "power_int (10 :: real) i = 10 powr of_int i" for i by (simp add: powr_real_of_int')
  have "0 < \<bar>x\<bar>" using assms(1) zero_less_power_int[of "10 :: real" e] by linarith
  then have "of_int e \<le> log 10 \<bar>x\<bar>" "log 10 \<bar>x\<bar> < of_int (e + 1)"
    using assms unfolding p by (simp_all add: le_log_iff log_less_iff)
  then show ?thesis unfolding decimal_exponent_def by (simp add: floor_eq_iff)
qed

text \<open>
  The mantissa has one digit before the point and the value is off by at most half a unit of the
  last of the \<open>k\<close> places after it.
\<close>

lemma mantissa_correct:
  assumes "x \<noteq> 0" "mantissa k x = (n, e)"
  shows "10 ^ k \<le> n" "n < 10 ^ Suc k" "\<bar>of_nat n / 10 ^ k * power_int 10 e - \<bar>x\<bar>\<bar> \<le> power_int 10 (decimal_exponent x) / (2 * 10 ^ k)"
proof -
  define d where "d = decimal_exponent x"
  define y where "y = \<bar>x\<bar> * power_int 10 (int k - d)"
  define r where "r = round_ties_even y"
  have P: "power_int (10 :: real) d * power_int 10 (int k - d) = 10 ^ k" "0 < power_int (10 :: real) i" for i
    by (simp_all flip: power_int_add)
  have P1: "power_int (10 :: real) (d + 1) * power_int 10 (int k - d) = 10 ^ Suc k"
    using P(1) by (simp add: power_int_add)
  have "10 ^ k \<le> y" "y \<le> 10 ^ Suc k"
    unfolding y_def P(1)[symmetric] P1[symmetric] d_def
    using decimal_exponent_bounds[OF assms(1)] by (auto intro!: mult_right_mono order.strict_implies_order)
  from this[THEN round_ties_even_mono] have r: "10 ^ k \<le> r" "r \<le> 10 ^ Suc k"
    unfolding r_def using round_ties_even_of_int[of "10 ^ k"] round_ties_even_of_int[of "10 ^ Suc k"] by simp_all
  then have nr: "of_nat (nat r) = (of_int r :: real)" by (smt (verit) of_nat_nat zero_le_power)
  have err: "\<bar>of_int r / 10 ^ k * power_int 10 d - \<bar>x\<bar>\<bar> \<le> power_int 10 d / (2 * 10 ^ k)"
  proof -
    have x: "\<bar>x\<bar> = y / 10 ^ k * power_int 10 d"
      unfolding y_def using P(1) P(2)[of "int k - d"] by (simp add: field_simps)
    have "\<bar>of_int r / 10 ^ k * power_int 10 d - \<bar>x\<bar>\<bar> = \<bar>of_int r - y\<bar> * (power_int 10 d / 10 ^ k)"
      unfolding x using P(2)[of d] by (simp add: left_diff_distrib[symmetric] diff_divide_distrib[symmetric] abs_mult)
    also have "\<dots> \<le> 1 / 2 * (power_int 10 d / 10 ^ k)"
      by (rule mult_right_mono) (use round_ties_even_error[of y] P(2)[of d] in \<open>auto simp: r_def\<close>)
    finally show ?thesis by simp
  qed
  show "10 ^ k \<le> n" "n < 10 ^ Suc k" "\<bar>of_nat n / 10 ^ k * power_int 10 e - \<bar>x\<bar>\<bar> \<le> power_int 10 (decimal_exponent x) / (2 * 10 ^ k)"
  proof -
    have m: "mantissa k x = (if nat r = 10 ^ Suc k then (10 ^ k, d + 1) else (nat r, d))"
      by (simp add: mantissa_def d_def r_def y_def Let_def)
    have pr: "(10 :: nat) ^ k \<le> nat r" "nat r \<le> 10 ^ Suc k"
      using r by (simp_all add: nat_le_iff le_nat_iff)
    show "10 ^ k \<le> n" "n < 10 ^ Suc k" using m assms(2) pr by (auto split: if_splits)
    show "\<bar>of_nat n / 10 ^ k * power_int 10 e - \<bar>x\<bar>\<bar> \<le> power_int 10 (decimal_exponent x) / (2 * 10 ^ k)"
    proof (cases "nat r = 10 ^ Suc k")
      case True
      then have "of_int r = (10 :: real) ^ Suc k" using nr by simp
      then show ?thesis using err m assms(2) True by (simp add: d_def power_int_add)
    next
      case False
      then show ?thesis using err m assms(2) nr by (simp add: d_def)
    qed
  qed
qed

end
