(* ===== verification/Rest.thy ===== *)
theory Rest
  imports Wire Text_Format Config
begin

text \<open>
  \<^verbatim>\<open>src/src/lighter/rest.rs\<close>: the REST client. The HTTP library is the parameter \<open>http\<close>, a function from a
  request and a world to a reply; the JSON reader is \<open>parse\<close>, the JSON writer \<open>render\<close>. Errors carry no
  text here: every caller only tests for them.
\<close>

section \<open>Requests and replies\<close>

datatype http_request = Get string "(string \<times> string) list" | Post string "(string \<times> string) list"

datatype http_reply = Transport_Error \<comment> \<open>no reply, or the 10 s timeout\<close> | Reply nat "string option" \<comment> \<open>status; the body, if it could be read\<close>

type_synonym 'w http = "http_request \<Rightarrow> 'w \<Rightarrow> http_reply \<times> 'w"

definition BASE_URL :: string where "BASE_URL = ''https://mainnet.zklighter.elliot.ai''"

record rest_client =
  rc_base :: string

definition trim_end_slashes :: "string \<Rightarrow> string" where
  "trim_end_slashes s = rev (dropWhile (\<lambda>c. c = CHR ''/'') (rev s))"

definition rest_new :: "bool \<Rightarrow> string \<Rightarrow> rest_client option" where
  "rest_new client_builds base_url = (if client_builds then Some \<lparr>rc_base = trim_end_slashes base_url\<rparr> else None)"

definition rest_url :: "rest_client \<Rightarrow> string \<Rightarrow> string" where
  "rest_url rc path = rc_base rc @ path"

definition is_success :: "nat \<Rightarrow> bool" where "is_success st \<longleftrightarrow> 200 \<le> st \<and> st < 300"

definition error_status :: "nat \<Rightarrow> bool" where "error_status st \<longleftrightarrow> 400 \<le> st \<and> st < 600"

text \<open>\<open>send()?.error_for_status()?.json()?\<close>\<close>

definition get_json ::
  "(string \<Rightarrow> json option) \<Rightarrow> 'w http \<Rightarrow> (json \<Rightarrow> 'a option) \<Rightarrow> string \<Rightarrow> (string \<times> string) list \<Rightarrow> 'w \<Rightarrow> 'a option \<times> 'w" where
  "get_json parse http dec url query w =
     (case http (Get url query) w of
        (Transport_Error, w1) \<Rightarrow> (None, w1)
      | (Reply st body, w1) \<Rightarrow> (if error_status st then None else Option.bind body (from_str parse dec), w1))"

section \<open>Queries\<close>

definition order_books :: "(string \<Rightarrow> json option) \<Rightarrow> 'w http \<Rightarrow> rest_client \<Rightarrow> 'w \<Rightarrow> order_book_detail list option \<times> 'w" where
  "order_books parse http rc = get_json parse http de_order_books (rest_url rc ''/api/v1/orderBooks'') []"

definition market_detail :: "(string \<Rightarrow> json option) \<Rightarrow> 'w http \<Rightarrow> rest_client \<Rightarrow> string \<Rightarrow> 'w \<Rightarrow> order_book_detail option \<times> 'w" where
  "market_detail parse http rc symb w =
     (let (books, w1) = order_books parse http rc w
      in (Option.bind books (find (\<lambda>b. eq_ignore_ascii_case (obd_symbol b) symb)), w1))"

definition rest_next_nonce :: "(string \<Rightarrow> json option) \<Rightarrow> 'w http \<Rightarrow> rest_client \<Rightarrow> i64w \<Rightarrow> 32 word \<Rightarrow> 'w \<Rightarrow> int option \<times> 'w" where
  "rest_next_nonce parse http rc account key =
     get_json parse http de_next_nonce (rest_url rc ''/api/v1/nextNonce'')
       [(''account_index'', int_text (sint account)), (''api_key_index'', int_text (sint key))]"

definition account_active_orders ::
  "(string \<Rightarrow> json option) \<Rightarrow> 'w http \<Rightarrow> rest_client \<Rightarrow> i64w \<Rightarrow> u32 \<Rightarrow> string \<Rightarrow> 'w \<Rightarrow> remote_order list option \<times> 'w" where
  "account_active_orders parse http rc account market auth =
     get_json parse http de_active_orders (rest_url rc ''/api/v1/accountActiveOrders'')
       [(''account_index'', int_text (sint account)), (''market_id'', nat_text (unat market)), (''auth'', auth)]"

definition order_book_orders :: "(string \<Rightarrow> json option) \<Rightarrow> 'w http \<Rightarrow> rest_client \<Rightarrow> u32 \<Rightarrow> u32 \<Rightarrow> 'w \<Rightarrow> json option \<times> 'w" where
  "order_book_orders parse http rc market limit =
     get_json parse http Some (rest_url rc ''/api/v1/orderBookOrders'')
       [(''market_id'', nat_text (unat market)), (''limit'', nat_text (unat limit))]"

definition maker_only_api_keys :: "(string \<Rightarrow> json option) \<Rightarrow> 'w http \<Rightarrow> rest_client \<Rightarrow> i64w \<Rightarrow> 'w \<Rightarrow> json option \<times> 'w" where
  "maker_only_api_keys parse http rc account =
     get_json parse http Some (rest_url rc ''/api/v1/getMakerOnlyApiKeys'') [(''account_index'', int_text (sint account))]"

section \<open>The position of an account\<close>

definition json_u64 :: "json \<Rightarrow> nat option" where "json_u64 = de_u64"

definition flex_num :: "(string \<Rightarrow> f64 option) \<Rightarrow> json option \<Rightarrow> f64" where
  "flex_num fp x = (case x of Some (JStr s) \<Rightarrow> parse_f64 fp s | Some (JInt i) \<Rightarrow> of_int i | Some (JReal r) \<Rightarrow> r | _ \<Rightarrow> 0)"

definition position_in :: "(string \<Rightarrow> f64 option) \<Rightarrow> u32 \<Rightarrow> json \<Rightarrow> f64" where
  "position_in fp market v =
     (let acc = Option.bind (Option.bind (json_get v ''accounts'') json_array) (\<lambda>as. case as of [] \<Rightarrow> None | a # _ \<Rightarrow> Some a);
          poss = (case Option.bind (Option.bind acc (\<lambda>a. json_get a ''positions'')) json_array of None \<Rightarrow> [] | Some ps \<Rightarrow> ps)
      in case find (\<lambda>p. Option.bind (json_get p ''market_id'') json_u64 = Some (unat market)) poss of
           None \<Rightarrow> 0
         | Some p \<Rightarrow>
             let mag = \<bar>flex_num fp (json_get p ''position'')\<bar>; sg = int_field p ''sign'' 1
             in if sg < 0 then - mag else mag)"

definition account_position ::
  "(string \<Rightarrow> f64 option) \<Rightarrow> (string \<Rightarrow> json option) \<Rightarrow> 'w http \<Rightarrow> rest_client \<Rightarrow> i64w \<Rightarrow> u32 \<Rightarrow> 'w \<Rightarrow> f64 option \<times> 'w" where
  "account_position fp parse http rc account market w =
     (let (v, w1) = get_json parse http Some (rest_url rc ''/api/v1/account'') [(''by'', ''index''), (''value'', int_text (sint account))] w
      in (map_option (position_in fp market) v, w1))"

section \<open>Transactions\<close>

text \<open>The body decides even under an error status; an unreadable body counts as the default answer under a success status.\<close>

definition parse_tx_response :: "(string \<Rightarrow> json option) \<Rightarrow> nat \<Rightarrow> string option \<Rightarrow> string + tx_response" where
  "parse_tx_response parse st body =
     (let t = (case body of None \<Rightarrow> [] | Some b \<Rightarrow> b)
      in case from_str parse de_tx_response t of
           Some tx \<Rightarrow> Inr tx
         | None \<Rightarrow> if is_success st then Inr default_tx_response else Inl (''tx response not JSON: '' @ t))"

definition post_tx ::
  "(string \<Rightarrow> json option) \<Rightarrow> 'w http \<Rightarrow> string \<Rightarrow> (string \<times> string) list \<Rightarrow> 'w \<Rightarrow> (string + tx_response) \<times> 'w" where
  "post_tx parse http url form w =
     (case http (Post url form) w of
        (Transport_Error, w1) \<Rightarrow> (Inl ''transport'', w1)
      | (Reply st body, w1) \<Rightarrow> (parse_tx_response parse st body, w1))"

definition send_tx ::
  "(string \<Rightarrow> json option) \<Rightarrow> 'w http \<Rightarrow> rest_client \<Rightarrow> 8 word \<Rightarrow> string \<Rightarrow> 'w \<Rightarrow> (string + tx_response) \<times> 'w" where
  "send_tx parse http rc tx_type tx_info =
     post_tx parse http (rest_url rc ''/api/v1/sendTx'') [(''tx_type'', nat_text (unat tx_type)), (''tx_info'', tx_info)]"

definition send_tx_batch ::
  "(string \<Rightarrow> json option) \<Rightarrow> (json \<Rightarrow> string) \<Rightarrow> 'w http \<Rightarrow> rest_client \<Rightarrow> 8 word list \<Rightarrow> string list \<Rightarrow> 'w \<Rightarrow> (string + tx_response) \<times> 'w" where
  "send_tx_batch parse render http rc tx_types tx_infos =
     post_tx parse http (rest_url rc ''/api/v1/sendTxBatch'')
       [(''tx_types'', render (JArr (map (\<lambda>t. JInt (uint t)) tx_types))), (''tx_infos'', render (JArr (map JStr tx_infos)))]"

section \<open>What an answer means\<close>

text \<open>The exchange's answer to a query: a reply without an error status whose body decodes.\<close>

definition answered :: "(string \<Rightarrow> json option) \<Rightarrow> (json \<Rightarrow> 'a option) \<Rightarrow> http_reply \<Rightarrow> 'a option" where
  "answered parse dec r = (case r of Reply st (Some b) \<Rightarrow> if error_status st then None else from_str parse dec b | _ \<Rightarrow> None)"

lemma get_json_answered: "get_json parse http dec url q w = map_prod (answered parse dec) id (http (Get url q) w)"
  by (simp add: get_json_def answered_def split: prod.split http_reply.split option.split)

text \<open>
  A list of active orders is taken from the exchange's word only: an error reply, a timeout or a
  body that does not decode is never the empty list.
\<close>

lemma no_orders_is_an_answer:
  "fst (account_active_orders parse http rc account market auth w) = Some [] \<Longrightarrow>
   \<exists>st b w1. http (Get (rest_url rc ''/api/v1/accountActiveOrders'')
       [(''account_index'', int_text (sint account)), (''market_id'', nat_text (unat market)), (''auth'', auth)]) w = (Reply st (Some b), w1) \<and>
     \<not> error_status st \<and> from_str parse de_active_orders b = Some []"
  by (cases "http (Get (rest_url rc ''/api/v1/accountActiveOrders'')
       [(''account_index'', int_text (sint account)), (''market_id'', nat_text (unat market)), (''auth'', auth)]) w")
    (auto simp: account_active_orders_def get_json_answered answered_def split: http_reply.splits option.splits if_splits)

end
