(* ===== verification/Native_Signer.thy ===== *)
theory Native_Signer
  imports Signing Messages
begin

text \<open>
  \<^verbatim>\<open>src/src/lighter/signer.rs\<close> and \<^verbatim>\<open>src/src/lighter/auth.rs\<close>: the wrapper of the native signing library. The
  library is the record \<open>native\<close> of its exported functions; each acts on the heap of C strings it has
  handed out and that are not freed yet, a map from addresses to bytes. Reading or freeing an
  address outside the map is undefined behaviour, and the wrapper's result is then \<open>None\<close>: a theorem
  that a call is \<open>Some\<close> says that it is free of it.
\<close>

section \<open>C strings\<close>

type_synonym ptr = nat \<comment> \<open>0 is NULL\<close>
type_synonym cheap = "ptr \<rightharpoonup> string"

text \<open>
  \<open>String::from_utf8_lossy\<close>: a well-formed sequence is kept, a maximal ill-formed prefix becomes
  U+FFFD. \<open>utf8_step\<close> gives whether the text starts with a well-formed sequence, and its length or
  the length of the ill-formed prefix.
\<close>

definition byte :: "char \<Rightarrow> nat" where "byte c = of_char c"

definition in_range :: "string \<Rightarrow> nat \<Rightarrow> nat \<Rightarrow> nat \<Rightarrow> bool" where
  "in_range s i lo hi \<longleftrightarrow> i < length s \<and> lo \<le> byte (s ! i) \<and> byte (s ! i) \<le> hi"

definition utf8_second :: "nat \<Rightarrow> nat \<times> nat" where
  "utf8_second b =
     (if b = 0xE0 then (0xA0, 0xBF) else if b = 0xED then (0x80, 0x9F)
      else if b = 0xF0 then (0x90, 0xBF) else if b = 0xF4 then (0x80, 0x8F) else (0x80, 0xBF))"

definition utf8_step :: "string \<Rightarrow> bool \<times> nat" where
  "utf8_step s =
     (let b = byte (hd s); (lo, hi) = utf8_second b
      in if b < 0x80 then (True, 1)
         else if 0xC2 \<le> b \<and> b \<le> 0xDF then (if in_range s 1 lo hi then (True, 2) else (False, 1))
         else if 0xE0 \<le> b \<and> b \<le> 0xEF
         then (if \<not> in_range s 1 lo hi then (False, 1) else if in_range s 2 0x80 0xBF then (True, 3) else (False, 2))
         else if 0xF0 \<le> b \<and> b \<le> 0xF4
         then (if \<not> in_range s 1 lo hi then (False, 1) else if \<not> in_range s 2 0x80 0xBF then (False, 2)
               else if in_range s 3 0x80 0xBF then (True, 4) else (False, 3))
         else (False, 1))"

lemma utf8_step_pos [simp]: "0 < snd (utf8_step s)"
  by (simp add: utf8_step_def Let_def split: prod.splits)

definition REPLACEMENT :: string where "REPLACEMENT = map char_of [0xEF :: nat, 0xBF, 0xBD]"

function to_string_lossy :: "string \<Rightarrow> string" where
  "to_string_lossy s =
     (if s = [] then []
      else (if fst (utf8_step s) then take (snd (utf8_step s)) s else REPLACEMENT) @ to_string_lossy (drop (snd (utf8_step s)) s))"
  by pat_completeness auto
termination by (relation "measure length") auto

declare to_string_lossy.simps [simp del]

definition take_cstring :: "ptr \<Rightarrow> cheap \<Rightarrow> (string option \<times> cheap) option" where
  "take_cstring p h =
     (if p = 0 then Some (None, h)
      else case h p of None \<Rightarrow> None | Some s \<Rightarrow> Some (Some (to_string_lossy s), h(p := None)))"

definition nonempty :: "string option \<Rightarrow> string option" where
  "nonempty so = (case so of Some s \<Rightarrow> if s = [] then None else Some s | None \<Rightarrow> None)"

definition unwrap_or_default :: "string option \<Rightarrow> string" where
  "unwrap_or_default so = (case so of None \<Rightarrow> [] | Some s \<Rightarrow> s)"

section \<open>The library and the wrapper\<close>

record signed_tx_response =
  sr_tx_type :: "8 word"
  sr_tx_info :: ptr
  sr_tx_hash :: ptr
  sr_message_to_sign :: ptr
  sr_err :: ptr

record str_or_err =
  se_s :: ptr
  se_err :: ptr

datatype native_request =
    N_Sign sign_request
  | N_Cancel_All "32 word" int i64w "32 word"
  | N_Update_Leverage "32 word" "32 word" "32 word" i64w "32 word"

record native =
  n_create_client :: "string \<Rightarrow> string \<Rightarrow> 32 word \<Rightarrow> 32 word \<Rightarrow> i64w \<Rightarrow> cheap \<Rightarrow> ptr \<times> cheap"
  n_check_client :: "32 word \<Rightarrow> i64w \<Rightarrow> cheap \<Rightarrow> ptr \<times> cheap"
  n_sign :: "native_request \<Rightarrow> i64w \<Rightarrow> cheap \<Rightarrow> signed_tx_response \<times> cheap" \<comment> \<open>the five \<open>Sign\<dots>\<close> functions, by request\<close>
  n_create_auth_token :: "int \<Rightarrow> 32 word \<Rightarrow> i64w \<Rightarrow> cheap \<Rightarrow> str_or_err \<times> cheap"

record native_tx = signed_tx +
  st_hash :: string

record native_signer =
  ns_lib :: native
  ns_account_index :: i64w

text \<open>The error and the three texts are copied and freed in this order; the error decides.\<close>

definition decode :: "signed_tx_response \<Rightarrow> cheap \<Rightarrow> ((string + native_tx) \<times> cheap) option" where
  "decode r h =
     Option.bind (take_cstring (sr_err r) h) (\<lambda>(err, h1).
     Option.bind (take_cstring (sr_tx_info r) h1) (\<lambda>(tx_info, h2).
     Option.bind (take_cstring (sr_tx_hash r) h2) (\<lambda>(tx_hash, h3).
     Option.bind (take_cstring (sr_message_to_sign r) h3) (\<lambda>(_, h4).
     Some (case nonempty err of
             Some e \<Rightarrow> Inl (''sign error: '' @ e)
           | None \<Rightarrow> Inr \<lparr>st_type = sr_tx_type r, st_info = unwrap_or_default tx_info, st_hash = unwrap_or_default tx_hash\<rparr>, h4)))))"

definition call_sign :: "native_signer \<Rightarrow> native_request \<Rightarrow> cheap \<Rightarrow> ((string + native_tx) \<times> cheap) option" where
  "call_sign sg req h = (let (r, h1) = n_sign (ns_lib sg) req (ns_account_index sg) h in decode r h1)"

definition sign_create_order ::
  "native_signer \<Rightarrow> 32 word \<Rightarrow> int \<Rightarrow> int \<Rightarrow> 32 word \<Rightarrow> bool \<Rightarrow> 32 word \<Rightarrow> 32 word \<Rightarrow> bool \<Rightarrow> 32 word \<Rightarrow> int \<Rightarrow> i64w \<Rightarrow> 32 word
   \<Rightarrow> cheap \<Rightarrow> ((string + native_tx) \<times> cheap) option" where
  "sign_create_order sg market client_order_index base_amount price ask order_type tif reduce_only trigger expiry n key h =
     call_sign sg (N_Sign (Sign_Create market client_order_index base_amount price ask order_type tif reduce_only trigger expiry n key)) h"

definition sign_cancel_order :: "native_signer \<Rightarrow> 32 word \<Rightarrow> int \<Rightarrow> i64w \<Rightarrow> 32 word \<Rightarrow> cheap \<Rightarrow> ((string + native_tx) \<times> cheap) option" where
  "sign_cancel_order sg market order_index n key h = call_sign sg (N_Sign (Sign_Cancel market order_index n key)) h"

definition sign_cancel_all_orders :: "native_signer \<Rightarrow> 32 word \<Rightarrow> int \<Rightarrow> i64w \<Rightarrow> 32 word \<Rightarrow> cheap \<Rightarrow> ((string + native_tx) \<times> cheap) option" where
  "sign_cancel_all_orders sg tif timestamp_ms n key h = call_sign sg (N_Cancel_All tif timestamp_ms n key) h"

definition sign_modify_order ::
  "native_signer \<Rightarrow> 32 word \<Rightarrow> int \<Rightarrow> int \<Rightarrow> int \<Rightarrow> int \<Rightarrow> i64w \<Rightarrow> 32 word \<Rightarrow> cheap \<Rightarrow> ((string + native_tx) \<times> cheap) option" where
  "sign_modify_order sg market order_index base_amount price trigger n key h =
     call_sign sg (N_Sign (Sign_Modify market order_index base_amount price trigger n key)) h"

definition sign_update_leverage ::
  "native_signer \<Rightarrow> 32 word \<Rightarrow> 32 word \<Rightarrow> 32 word \<Rightarrow> i64w \<Rightarrow> 32 word \<Rightarrow> cheap \<Rightarrow> ((string + native_tx) \<times> cheap) option" where
  "sign_update_leverage sg market fraction margin_mode n key h = call_sign sg (N_Update_Leverage market fraction margin_mode n key) h"

definition check_client :: "native_signer \<Rightarrow> 32 word \<Rightarrow> cheap \<Rightarrow> ((string + unit) \<times> cheap) option" where
  "check_client sg key h =
     (let (p, h1) = n_check_client (ns_lib sg) key (ns_account_index sg) h
      in map_option (map_prod (\<lambda>err. case nonempty err of Some e \<Rightarrow> Inl (''CheckClient failed: '' @ e) | None \<Rightarrow> Inr ()) id) (take_cstring p h1))"

text \<open>The token first, then the error: both are copied and freed whichever is used.\<close>

definition create_auth_token :: "native_signer \<Rightarrow> int \<Rightarrow> 32 word \<Rightarrow> cheap \<Rightarrow> ((string + string) \<times> cheap) option" where
  "create_auth_token sg deadline_unix key h =
     (let (r, h1) = n_create_auth_token (ns_lib sg) deadline_unix key (ns_account_index sg) h
      in Option.bind (take_cstring (se_s r) h1) (\<lambda>(s, h2).
         Option.bind (take_cstring (se_err r) h2) (\<lambda>(err, h3).
         Some (case nonempty err of
                 Some e \<Rightarrow> Inl (''CreateAuthToken failed: '' @ e)
               | None \<Rightarrow> (case s of None \<Rightarrow> Inl ''CreateAuthToken returned no token'' | Some t \<Rightarrow> Inr t), h3))))"

section \<open>Loading\<close>

definition chain_id_for_url :: "string \<Rightarrow> 32 word" where
  "chain_id_for_url url = (if str_contains url ''mainnet'' \<or> str_contains url ''api'' then 304 else 300)"

text \<open>\<open>None\<close> is the panic on any other platform.\<close>

definition signer_filename :: "string \<Rightarrow> string \<Rightarrow> string option" where
  "signer_filename os arch =
     map_of [((''linux'', ''x86_64''), ''lighter-signer-linux-amd64.so''),
             ((''linux'', ''aarch64''), ''lighter-signer-linux-arm64.so''),
             ((''macos'', ''aarch64''), ''lighter-signer-darwin-arm64.dylib''),
             ((''windows'', ''x86_64''), ''lighter-signer-windows-amd64.dll'')] (os, arch)"

definition SYMBOLS :: "string list" where
  "SYMBOLS = [''CreateClient'', ''CheckClient'', ''SignCreateOrder'', ''SignCancelOrder'', ''SignCancelAllOrders'',
              ''SignModifyOrder'', ''SignUpdateLeverage'', ''CreateAuthToken'']"

datatype load_error =
    Unsupported_Platform \<comment> \<open>a panic\<close> | Library_Missing string | Missing_Symbol string | Interior_Nul | Create_Client_Failed string

text \<open>\<open>libs\<close>: the loadable files, each with the symbols it exports.\<close>

definition strip_0x :: "string \<Rightarrow> string" where
  "strip_0x k = (if take 2 k = ''0x'' then drop 2 k else k)"

definition signer_load ::
  "(string \<rightharpoonup> (string \<Rightarrow> bool) \<times> native) \<Rightarrow> string \<Rightarrow> string \<Rightarrow> string \<Rightarrow> string \<Rightarrow> string \<Rightarrow> 32 word \<Rightarrow> i64w \<Rightarrow> cheap
   \<Rightarrow> ((load_error + native_signer) \<times> cheap) option" where
  "signer_load libs os arch signers_dir url api_private_key key account h =
     (case signer_filename os arch of
        None \<Rightarrow> Some (Inl Unsupported_Platform, h)
      | Some file \<Rightarrow>
          let path = signers_dir @ ''/'' @ file
          in case libs path of
               None \<Rightarrow> Some (Inl (Library_Missing path), h)
             | Some (exports, lib) \<Rightarrow>
                 (case filter (\<lambda>s. \<not> exports s) SYMBOLS of
                    missing # _ \<Rightarrow> Some (Inl (Missing_Symbol missing), h)
                  | [] \<Rightarrow>
                      let k = strip_0x api_private_key
                      in if CHR 0x00 \<in> set url \<or> CHR 0x00 \<in> set k then Some (Inl Interior_Nul, h)
                         else let (p, h1) = n_create_client lib url k (chain_id_for_url url) key account h
                              in map_option (map_prod (\<lambda>err. case nonempty err of
                                     Some e \<Rightarrow> Inl (Create_Client_Failed e)
                                   | None \<Rightarrow> Inr \<lparr>ns_lib = lib, ns_account_index = account\<rparr>) id) (take_cstring p h1)))"

section \<open>Authentication tokens\<close>

definition AUTH_TTL_SECS :: int where "AUTH_TTL_SECS = 600"
definition AUTH_REFRESH_SECS :: int where "AUTH_REFRESH_SECS = 540"

definition generate_ws_auth_token :: "native_signer \<Rightarrow> int \<Rightarrow> 32 word \<Rightarrow> cheap \<Rightarrow> ((string + string) \<times> cheap) option" where
  "generate_ws_auth_token sg now_unix key h = create_auth_token sg (now_unix + AUTH_TTL_SECS) key h"

section \<open>Every string is freed once\<close>

text \<open>
  The library's documented contract: each non-null pointer it returns is a string of its own that it
  allocated for the caller, and it touches no string handed out before.
\<close>

definition hands_out :: "cheap \<Rightarrow> ptr list \<Rightarrow> cheap \<Rightarrow> bool" where
  "hands_out h ps h' \<longleftrightarrow>
     distinct (filter (\<lambda>p. p \<noteq> 0) ps) \<and>
     (\<forall>p. if p \<noteq> 0 \<and> p \<in> set ps then h p = None \<and> h' p \<noteq> None else h' p = h p)"

definition native_contract :: "native \<Rightarrow> bool" where
  "native_contract lib \<longleftrightarrow>
     (\<forall>url k c i a h p h'. n_create_client lib url k c i a h = (p, h') \<longrightarrow> hands_out h [p] h') \<and>
     (\<forall>i a h p h'. n_check_client lib i a h = (p, h') \<longrightarrow> hands_out h [p] h') \<and>
     (\<forall>req a h r h'. n_sign lib req a h = (r, h') \<longrightarrow> hands_out h [sr_err r, sr_tx_info r, sr_tx_hash r, sr_message_to_sign r] h') \<and>
     (\<forall>d i a h r h'. n_create_auth_token lib d i a h = (r, h') \<longrightarrow> hands_out h [se_s r, se_err r] h')"

text \<open>The text a pointer stands for.\<close>

definition text_at :: "cheap \<Rightarrow> ptr \<Rightarrow> string option" where
  "text_at h p = (if p = 0 then None else map_option to_string_lossy (h p))"

lemma hands_out_Nil [simp]: "hands_out h [] h' \<longleftrightarrow> h' = h"
  by (auto simp: hands_out_def)

lemma hands_out_take:
  assumes "hands_out h (p # ps) h'"
  obtains h'' where "take_cstring p h' = Some (text_at h' p, h'')" "hands_out h ps h''"
    "\<And>q. q \<in> set ps \<Longrightarrow> text_at h'' q = text_at h' q"
proof -
  from assms have d: "distinct (filter (\<lambda>q. q \<noteq> 0) (p # ps))"
    and at: "\<And>q. if q \<noteq> 0 \<and> q \<in> set (p # ps) then h q = None \<and> h' q \<noteq> None else h' q = h q"
    unfolding hands_out_def by blast+
  show ?thesis
  proof (cases "p = 0")
    case True
    have "if q \<noteq> 0 \<and> q \<in> set ps then h q = None \<and> h' q \<noteq> None else h' q = h q" for q
      using at [of q] True by (cases "q = 0") simp_all
    with d True have "hands_out h ps h'" by (simp add: hands_out_def)
    moreover from True have "take_cstring p h' = Some (text_at h' p, h')" by (simp add: take_cstring_def text_at_def)
    ultimately show ?thesis by (intro that) simp_all
  next
    case False
    from d False have np: "p \<notin> set ps" by auto
    obtain s where s: "h' p = Some s" and hp: "h p = None" using at [of p] False by auto
    have "take_cstring p h' = Some (text_at h' p, h'(p := None))"
      using False s by (simp add: take_cstring_def text_at_def)
    moreover have "hands_out h ps (h'(p := None))"
      unfolding hands_out_def
    proof (intro conjI allI)
      fix q show "if q \<noteq> 0 \<and> q \<in> set ps then h q = None \<and> (h'(p := None)) q \<noteq> None else (h'(p := None)) q = h q"
        using at [of q] np hp by (auto split: if_splits)
    qed (use d in \<open>auto split: if_splits\<close>)
    moreover have "text_at (h'(p := None)) q = text_at h' q" if "q \<in> set ps" for q
      using that np by (auto simp: text_at_def)
    ultimately show ?thesis by (rule that)
  qed
qed

lemma decode_frees:
  assumes "hands_out h [sr_err r, sr_tx_info r, sr_tx_hash r, sr_message_to_sign r] h'"
  shows "decode r h' =
    Some (case nonempty (text_at h' (sr_err r)) of
            Some e \<Rightarrow> Inl (''sign error: '' @ e)
          | None \<Rightarrow> Inr \<lparr>st_type = sr_tx_type r, st_info = unwrap_or_default (text_at h' (sr_tx_info r)),
                        st_hash = unwrap_or_default (text_at h' (sr_tx_hash r))\<rparr>, h)"
proof -
  from hands_out_take [OF assms] obtain h1 where h1: "take_cstring (sr_err r) h' = Some (text_at h' (sr_err r), h1)"
    "hands_out h [sr_tx_info r, sr_tx_hash r, sr_message_to_sign r] h1"
    "\<And>q. q \<in> {sr_tx_info r, sr_tx_hash r, sr_message_to_sign r} \<Longrightarrow> text_at h1 q = text_at h' q" by auto
  from hands_out_take [OF h1(2)] obtain h2 where h2: "take_cstring (sr_tx_info r) h1 = Some (text_at h1 (sr_tx_info r), h2)"
    "hands_out h [sr_tx_hash r, sr_message_to_sign r] h2"
    "\<And>q. q \<in> {sr_tx_hash r, sr_message_to_sign r} \<Longrightarrow> text_at h2 q = text_at h1 q" by auto
  from hands_out_take [OF h2(2)] obtain h3 where h3: "take_cstring (sr_tx_hash r) h2 = Some (text_at h2 (sr_tx_hash r), h3)"
    "hands_out h [sr_message_to_sign r] h3" by auto
  from hands_out_take [OF h3(2)] obtain t where "take_cstring (sr_message_to_sign r) h3 = Some (t, h)" by auto
  with h1 h2 h3 show ?thesis by (simp add: decode_def)
qed

lemma take_one_frees:
  assumes "hands_out h [p] h'"
  shows "take_cstring p h' = Some (text_at h' p, h)"
  using hands_out_take [OF assms] by auto

lemma token_frees:
  assumes "hands_out h [se_s r, se_err r] h'"
  obtains h1 where "take_cstring (se_s r) h' = Some (text_at h' (se_s r), h1)"
    "take_cstring (se_err r) h1 = Some (text_at h' (se_err r), h)"
proof -
  from hands_out_take [OF assms] obtain h1 where h1: "take_cstring (se_s r) h' = Some (text_at h' (se_s r), h1)"
    "hands_out h [se_err r] h1" "text_at h1 (se_err r) = text_at h' (se_err r)" by auto
  with take_one_frees [OF h1(2)] that show ?thesis by simp
qed

lemma contractD:
  assumes "native_contract lib"
  shows "n_create_client lib url k c i a h = (p, h') \<Longrightarrow> hands_out h [p] h'"
    and "n_check_client lib i a h = (p, h') \<Longrightarrow> hands_out h [p] h'"
    and "n_sign lib req a h = (r, h') \<Longrightarrow> hands_out h [sr_err r, sr_tx_info r, sr_tx_hash r, sr_message_to_sign r] h'"
    and "n_create_auth_token lib d i a h = (t, h') \<Longrightarrow> hands_out h [se_s t, se_err t] h'"
  using assms by (simp_all add: native_contract_def)

lemma sign_frees:
  assumes "native_contract (ns_lib sg)" "n_sign (ns_lib sg) req (ns_account_index sg) h = (r, h1)"
  shows "call_sign sg req h =
    Some (case nonempty (text_at h1 (sr_err r)) of
            Some e \<Rightarrow> Inl (''sign error: '' @ e)
          | None \<Rightarrow> Inr \<lparr>st_type = sr_tx_type r, st_info = unwrap_or_default (text_at h1 (sr_tx_info r)),
                        st_hash = unwrap_or_default (text_at h1 (sr_tx_hash r))\<rparr>, h)"
  using decode_frees [OF contractD(3) [OF assms]] by (simp add: call_sign_def assms(2))

lemma load_frees:
  assumes "native_contract lib"
  shows "\<exists>r. signer_load (\<lambda>_. Some (exports, lib)) os arch dir url secret key account h = Some (r, h) \<and>
    (case r of Inl _ \<Rightarrow> True | Inr sg \<Rightarrow> ns_lib sg = lib)"
proof (cases "n_create_client lib url (strip_0x secret) (chain_id_for_url url) key account h")
  case (Pair p h')
  from take_one_frees [OF contractD(1) [OF assms Pair]] show ?thesis
    by (auto simp: signer_load_def Let_def Pair split: option.split list.split)
qed

text \<open>
  C22. With a library that keeps its contract, no call of the wrapper reads a dangling pointer, frees
  one twice or leaks one: every signing request, the client check, the token request and the loading
  of the library return, and leave exactly the strings allocated before. A signing request fails
  exactly when the library's error text is present and not empty, and otherwise returns copies of
  the texts the library produced.
\<close>

theorem native_strings_freed_once:
  assumes "native_contract (ns_lib sg)"
  shows "(let (resp, h1) = n_sign (ns_lib sg) req (ns_account_index sg) h
      in call_sign sg req h =
           Some (case nonempty (text_at h1 (sr_err resp)) of
                   Some e \<Rightarrow> Inl (''sign error: '' @ e)
                 | None \<Rightarrow> Inr \<lparr>st_type = sr_tx_type resp, st_info = unwrap_or_default (text_at h1 (sr_tx_info resp)),
                               st_hash = unwrap_or_default (text_at h1 (sr_tx_hash resp))\<rparr>, h)) \<and>
    (\<exists>r. check_client sg key h = Some (r, h)) \<and>
    (\<exists>r. generate_ws_auth_token sg now_unix key h = Some (r, h)) \<and>
    (\<exists>r. signer_load (\<lambda>_. Some (exports, ns_lib sg)) os arch dir url secret key account h = Some (r, h))"
proof (intro conjI)
  note c = contractD [OF assms]
  show "let (resp, h1) = n_sign (ns_lib sg) req (ns_account_index sg) h
      in call_sign sg req h =
           Some (case nonempty (text_at h1 (sr_err resp)) of
                   Some e \<Rightarrow> Inl (''sign error: '' @ e)
                 | None \<Rightarrow> Inr \<lparr>st_type = sr_tx_type resp, st_info = unwrap_or_default (text_at h1 (sr_tx_info resp)),
                               st_hash = unwrap_or_default (text_at h1 (sr_tx_hash resp))\<rparr>, h)"
    by (cases "n_sign (ns_lib sg) req (ns_account_index sg) h") (simp add: sign_frees [OF assms])
  show "\<exists>r. check_client sg key h = Some (r, h)"
  proof (cases "n_check_client (ns_lib sg) key (ns_account_index sg) h")
    case (Pair p h')
    from take_one_frees [OF c(2) [OF Pair]] show ?thesis by (simp add: check_client_def Pair)
  qed
  show "\<exists>r. generate_ws_auth_token sg now_unix key h = Some (r, h)"
  proof (cases "n_create_auth_token (ns_lib sg) (now_unix + AUTH_TTL_SECS) key (ns_account_index sg) h")
    case (Pair r h')
    from token_frees [OF c(4) [OF Pair]] obtain h1 where
      "take_cstring (se_s r) h' = Some (text_at h' (se_s r), h1)" "take_cstring (se_err r) h1 = Some (text_at h' (se_err r), h)" .
    then show ?thesis by (simp add: generate_ws_auth_token_def create_auth_token_def Pair)
  qed
  show "\<exists>r. signer_load (\<lambda>_. Some (exports, ns_lib sg)) os arch dir url secret key account h = Some (r, h)"
    using load_frees [OF assms] by blast
qed

text \<open>A library that answers a signing or token request with one string, at address 1.\<close>

definition demo_native :: native where
  "demo_native =
     \<lparr>n_create_client = \<lambda>_ _ _ _ _ h. (0, h), n_check_client = \<lambda>_ _ h. (0, h),
      n_sign = \<lambda>_ _ h.
        if h 1 = None
        then (\<lparr>sr_tx_type = 14, sr_tx_info = 1, sr_tx_hash = 0, sr_message_to_sign = 0, sr_err = 0\<rparr>, h(1 \<mapsto> ''tx''))
        else (\<lparr>sr_tx_type = 0, sr_tx_info = 0, sr_tx_hash = 0, sr_message_to_sign = 0, sr_err = 0\<rparr>, h),
      n_create_auth_token = \<lambda>_ _ _ h.
        if h 1 = None then (\<lparr>se_s = 1, se_err = 0\<rparr>, h(1 \<mapsto> ''token'')) else (\<lparr>se_s = 0, se_err = 0\<rparr>, h)\<rparr>"

lemma demo_native_contract: "native_contract demo_native"
  by (auto simp: native_contract_def demo_native_def hands_out_def split: if_splits)

lemma to_string_lossy_ascii:
  assumes "\<forall>c \<in> set s. byte c < 128"
  shows "to_string_lossy s = s"
  using assms
proof (induction s)
  case (Cons c s)
  then have "utf8_step (c # s) = (True, 1)" by (simp add: utf8_step_def Let_def split: prod.splits)
  with Cons show ?case by (subst to_string_lossy.simps) simp
qed (simp add: to_string_lossy.simps)

theorem native_strings_freed_once_witness:
  "call_sign \<lparr>ns_lib = demo_native, ns_account_index = 7\<rparr> (N_Cancel_All 0 0 5 3) Map.empty =
     Some (Inr \<lparr>st_type = 14, st_info = ''tx'', st_hash = []\<rparr>, Map.empty)"
proof -
  have l: "to_string_lossy ''tx'' = ''tx''" by (rule to_string_lossy_ascii) (simp add: byte_def)
  let ?sg = "\<lparr>ns_lib = demo_native, ns_account_index = 7\<rparr>"
  have "native_contract (ns_lib ?sg)" by (simp add: demo_native_contract)
  from conjunct1 [OF native_strings_freed_once [OF this, of "N_Cancel_All 0 0 5 3" Map.empty]]
  show ?thesis by (simp add: demo_native_def l nonempty_def text_at_def unwrap_or_default_def)
qed

end
