(* ===== verification/Fill_Accounting.thy ===== *)
theory Fill_Accounting
  imports Quotes
begin

text \<open>
  \<^verbatim>\<open>src/src/account/fill_accounting.rs\<close>: signed position, entry VWAP and realized PnL from a
  stream of fills. The ledger identity is the specification: realized PnL minus the cost of the
  open position moves by exactly the cash flow of each fill, up to positions below \<open>EPSILON\<close>
  that the code treats as flat.
\<close>

section \<open>Definitions\<close>

record fill_result =
  position_after :: f64
  realized_delta :: f64
  realized_cumulative :: f64
  entry_vwap_after :: f64
  fee_usd :: f64

record fill_accounting =
  fa_maker_fee_rate :: f64
  position_size :: f64
  entry_vwap :: f64
  realized_pnl_cumulative :: f64
  fill_count :: nat
  volume_usd :: f64

definition accounting_new :: "f64 \<Rightarrow> fill_accounting" where
  "accounting_new rate =
     \<lparr>fa_maker_fee_rate = rate, position_size = 0, entry_vwap = 0, realized_pnl_cumulative = 0,
      fill_count = 0, volume_usd = 0\<rparr>"

definition from_snapshot :: "f64 \<Rightarrow> f64 \<Rightarrow> f64 \<Rightarrow> f64 \<Rightarrow> fill_accounting" where
  "from_snapshot rate position vwap realized =
     \<lparr>fa_maker_fee_rate = rate, position_size = position, entry_vwap = vwap,
      realized_pnl_cumulative = realized, fill_count = 0, volume_usd = 0\<rparr>"

definition signed_fill :: "side \<Rightarrow> f64 \<Rightarrow> f64" where
  "signed_fill s sz = (case s of Buy \<Rightarrow> sz | Sell \<Rightarrow> - sz)"

definition apply_fill_accounting :: "fill_accounting \<Rightarrow> side \<Rightarrow> f64 \<Rightarrow> f64 \<Rightarrow> fill_result \<times> fill_accounting" where
  "apply_fill_accounting fa s price sz =
     (let sf = signed_fill s sz;
          fee = \<bar>price * sz * fa_maker_fee_rate fa\<bar>;
          pos = position_size fa;
          vwap = entry_vwap fa;
          (new_pos, new_vwap, delta) =
            (if \<bar>pos\<bar> < EPSILON
             then (sf, if EPSILON \<le> \<bar>sf\<bar> then price else 0, - fee)
             else if 0 < pos * sf
             then (pos + sf, (\<bar>pos\<bar> * vwap + \<bar>sf\<bar> * price) / (\<bar>pos\<bar> + \<bar>sf\<bar>), - fee)
             else let closing = min \<bar>pos\<bar> \<bar>sf\<bar>;
                      d = (if 0 < pos \<and> s = Sell then - fee + (price - vwap) * closing
                           else if pos < 0 \<and> s = Buy then - fee + (vwap - price) * closing
                           else - fee);
                      candidate = pos + sf
                  in if \<bar>candidate\<bar> < EPSILON then (0, 0, d)
                     else if 0 < pos * candidate then (candidate, vwap, d)
                     else (candidate, price, d));
          realized = realized_pnl_cumulative fa + delta
      in (\<lparr>position_after = new_pos, realized_delta = delta, realized_cumulative = realized,
           entry_vwap_after = new_vwap, fee_usd = fee\<rparr>,
          fa\<lparr>position_size := new_pos, entry_vwap := new_vwap, realized_pnl_cumulative := realized,
             fill_count := fill_count fa + 1, volume_usd := volume_usd fa + \<bar>price * sz\<bar>\<rparr>))"

record fill_snapshot =
  fs_position_size :: f64
  fs_entry_vwap :: f64
  fs_realized_pnl_cumulative :: f64

definition snapshot :: "fill_accounting \<Rightarrow> fill_snapshot" where
  "snapshot fa = \<lparr>fs_position_size = position_size fa, fs_entry_vwap = entry_vwap fa,
                  fs_realized_pnl_cumulative = realized_pnl_cumulative fa\<rparr>"

section \<open>The ledger\<close>

text \<open>Realized PnL minus the cost of the open position.\<close>

definition ledger :: "fill_accounting \<Rightarrow> f64" where
  "ledger fa = realized_pnl_cumulative fa - position_size fa * entry_vwap fa"

definition cash_flow :: "f64 \<Rightarrow> side \<Rightarrow> f64 \<Rightarrow> f64 \<Rightarrow> f64" where
  "cash_flow rate s price sz = - signed_fill s sz * price - \<bar>price * sz * rate\<bar>"

text \<open>A position the code calls flat carries no entry price; entry prices are bounded by fill prices.\<close>

definition accounting_inv :: "f64 \<Rightarrow> fill_accounting \<Rightarrow> bool" where
  "accounting_inv P fa \<longleftrightarrow> (\<bar>position_size fa\<bar> < EPSILON \<longrightarrow> entry_vwap fa = 0) \<and>
     0 \<le> entry_vwap fa \<and> entry_vwap fa \<le> P"

lemma weighted_between:
  fixes a b x y P :: real
  assumes "0 < a" "0 \<le> b" "0 \<le> x" "x \<le> P" "0 \<le> y" "y \<le> P"
  shows "0 \<le> (a * x + b * y) / (a + b)" "(a * x + b * y) / (a + b) \<le> P"
proof -
  show "0 \<le> (a * x + b * y) / (a + b)" using assms by simp
  have "a * x + b * y \<le> a * P + b * P" using assms by (intro add_mono mult_left_mono) auto
  then show "(a * x + b * y) / (a + b) \<le> P"
    using assms by (simp add: pos_divide_le_eq distrib_right distrib_left mult.commute)
qed

lemma accounting_inv_apply [inv_intros]:
  assumes inv: "accounting_inv P fa" and p: "0 \<le> price" "price \<le> P"
  shows "accounting_inv P (snd (apply_fill_accounting fa s price sz))"
proof -
  let ?pos = "position_size fa" and ?sf = "signed_fill s sz"
  have v: "0 \<le> entry_vwap fa" "entry_vwap fa \<le> P" using inv by (simp_all add: accounting_inv_def)
  have eps: "0 < EPSILON" by (simp add: EPSILON_def)
  show ?thesis
  proof (cases "\<bar>?pos\<bar> < EPSILON")
    case True
    then show ?thesis using p by (auto simp: apply_fill_accounting_def accounting_inv_def Let_def)
  next
    case big: False
    show ?thesis
    proof (cases "0 < ?pos * ?sf")
      case True
      then have "\<bar>?pos + ?sf\<bar> = \<bar>?pos\<bar> + \<bar>?sf\<bar>" by (auto simp: zero_less_mult_iff)
      moreover have "0 < \<bar>?pos\<bar>" "\<not> \<bar>?pos\<bar> + \<bar>?sf\<bar> < EPSILON" using big eps by linarith+
      ultimately show ?thesis
        using True big weighted_between [of "\<bar>?pos\<bar>" "\<bar>?sf\<bar>" "entry_vwap fa" P price] v p
        by (simp add: apply_fill_accounting_def accounting_inv_def Let_def)
    next
      case False
      then show ?thesis using big v p
        by (auto simp: apply_fill_accounting_def accounting_inv_def Let_def)
    qed
  qed
qed

lemma ledger_apply:
  assumes inv: "accounting_inv P fa" and p: "0 \<le> price" "price \<le> P" and sz: "0 \<le> sz"
  shows "\<bar>ledger (snd (apply_fill_accounting fa s price sz)) - (ledger fa + cash_flow (fa_maker_fee_rate fa) s price sz)\<bar>
      \<le> EPSILON * P"
    and "EPSILON \<le> \<bar>position_size (snd (apply_fill_accounting fa s price sz))\<bar> \<Longrightarrow>
      ledger (snd (apply_fill_accounting fa s price sz)) = ledger fa + cash_flow (fa_maker_fee_rate fa) s price sz"
proof -
  let ?pos = "position_size fa" and ?sf = "signed_fill s sz" and ?v = "entry_vwap fa"
  let ?fa' = "snd (apply_fill_accounting fa s price sz)"
  define err where "err = ledger ?fa' - (ledger fa + cash_flow (fa_maker_fee_rate fa) s price sz)"
  have v: "0 \<le> ?v" "?v \<le> P" "\<bar>?pos\<bar> < EPSILON \<Longrightarrow> ?v = 0" using inv by (simp_all add: accounting_inv_def)
  have eps: "0 < EPSILON" by (simp add: EPSILON_def)
  have P: "0 \<le> P" using p by linarith
  have dust: "\<bar>x * q\<bar> \<le> EPSILON * P" if "\<bar>x\<bar> < EPSILON" "0 \<le> q" "q \<le> P" for x q
    using that P by (simp add: abs_mult mult_mono)
  have "\<bar>err\<bar> \<le> EPSILON * P \<and> (EPSILON \<le> \<bar>position_size ?fa'\<bar> \<longrightarrow> err = 0)"
  proof (cases "\<bar>?pos\<bar> < EPSILON")
    case True
    have "err = (if EPSILON \<le> \<bar>?sf\<bar> then 0 else ?sf * price)" "position_size ?fa' = ?sf"
      using True v(3) by (simp_all add: err_def ledger_def cash_flow_def apply_fill_accounting_def Let_def)
    then show ?thesis using dust [of ?sf price] p eps P by auto
  next
    case big: False
    then have nz: "?pos \<noteq> 0" using eps by auto
    show ?thesis
    proof (cases "0 < ?pos * ?sf")
      case True
      have sum: "\<bar>?pos\<bar> + \<bar>?sf\<bar> \<noteq> 0" using nz by linarith
      have "(?pos + ?sf) * ((\<bar>?pos\<bar> * ?v + \<bar>?sf\<bar> * price) / (\<bar>?pos\<bar> + \<bar>?sf\<bar>)) = ?pos * ?v + ?sf * price"
        using True sum by (cases "0 < ?pos") (auto simp: zero_less_mult_iff field_simps abs_if)
      then have "err = 0" using True big
        by (simp add: err_def ledger_def cash_flow_def apply_fill_accounting_def Let_def)
      then show ?thesis using P eps by simp
    next
      case False
      let ?c = "?pos + ?sf"
      have opp: "(0 < ?pos \<longrightarrow> s = Sell \<or> sz = 0) \<and> (?pos < 0 \<longrightarrow> s = Buy \<or> sz = 0)"
        using False sz nz by (cases s) (auto simp: signed_fill_def zero_less_mult_iff mult_less_0_iff)
      have pos': "position_size ?fa' = (if \<bar>?c\<bar> < EPSILON then 0 else ?c)"
        using big False by (simp add: apply_fill_accounting_def Let_def)
      have "err = (if \<bar>?c\<bar> < EPSILON then ?c * (if \<bar>?sf\<bar> \<le> \<bar>?pos\<bar> then ?v else price) else 0)"
      proof -
        have sf: "?sf = (if 0 < ?pos then - \<bar>?sf\<bar> else \<bar>?sf\<bar>)"
          using opp sz nz by (cases s) (auto simp: signed_fill_def)
        have keep: "0 < ?pos * ?c \<longleftrightarrow> \<bar>?sf\<bar> < \<bar>?pos\<bar>"
          using sf nz by (auto simp: zero_less_mult_iff split: if_splits)
        have v': "entry_vwap ?fa' = (if \<bar>?c\<bar> < EPSILON then 0 else if \<bar>?sf\<bar> < \<bar>?pos\<bar> then ?v else price)"
          using big False keep by (simp add: apply_fill_accounting_def Let_def)
        have r': "realized_pnl_cumulative ?fa' = realized_pnl_cumulative fa - \<bar>price * sz * fa_maker_fee_rate fa\<bar> +
            (if 0 < ?pos then price - ?v else ?v - price) * min \<bar>?pos\<bar> \<bar>?sf\<bar>"
          using big False opp nz by (cases s) (auto simp: apply_fill_accounting_def Let_def signed_fill_def)
        have "err = (if 0 < ?pos then price - ?v else ?v - price) * min \<bar>?pos\<bar> \<bar>?sf\<bar> +
            ?pos * ?v + ?sf * price - (if \<bar>?c\<bar> < EPSILON then 0 else ?c * (if \<bar>?sf\<bar> < \<bar>?pos\<bar> then ?v else price))"
          using pos' by (simp add: err_def ledger_def cash_flow_def r' v')
        also have "(if 0 < ?pos then price - ?v else ?v - price) * min \<bar>?pos\<bar> \<bar>?sf\<bar> + ?pos * ?v + ?sf * price =
            ?c * (if \<bar>?sf\<bar> \<le> \<bar>?pos\<bar> then ?v else price)"
          using sf nz by (cases "0 < ?pos"; cases "\<bar>?sf\<bar> \<le> \<bar>?pos\<bar>") (simp_all add: algebra_simps)
        finally show ?thesis using eps sf nz by (auto split: if_splits)
      qed
      then show ?thesis using pos' dust [of ?c ?v] dust [of ?c price] v p eps P by auto
    qed
  qed
  then show "\<bar>ledger ?fa' - (ledger fa + cash_flow (fa_maker_fee_rate fa) s price sz)\<bar> \<le> EPSILON * P"
    and "EPSILON \<le> \<bar>position_size ?fa'\<bar> \<Longrightarrow> ledger ?fa' = ledger fa + cash_flow (fa_maker_fee_rate fa) s price sz"
    by (simp_all add: err_def)
qed

section \<open>Properties\<close>

record fill =
  f_side :: side
  f_price :: f64
  f_size :: f64

definition book_fill :: "fill_accounting \<Rightarrow> fill \<Rightarrow> fill_accounting" where
  "book_fill fa f = snd (apply_fill_accounting fa (f_side f) (f_price f) (f_size f))"

definition fill_ok :: "f64 \<Rightarrow> fill \<Rightarrow> bool" where
  "fill_ok P f \<longleftrightarrow> 0 \<le> f_price f \<and> f_price f \<le> P \<and> 0 \<le> f_size f"

interpretation fills: step_system book_fill "\<lambda>_ f. fill_ok P f" "accounting_inv P" for P
  by unfold_locales (auto simp: book_fill_def fill_ok_def intro: accounting_inv_apply)

lemma fee_rate_book [simp, frame_simps]: "fa_maker_fee_rate (book_fill fa f) = fa_maker_fee_rate fa"
  by (simp add: book_fill_def apply_fill_accounting_def Let_def split: prod.splits)

lemma ledger_run:
  assumes "accounting_inv P fa" and "\<forall>f \<in> set fs. fill_ok P f"
  shows "\<bar>ledger (foldl book_fill fa fs) -
      (ledger fa + (\<Sum>f\<leftarrow>fs. cash_flow (fa_maker_fee_rate fa) (f_side f) (f_price f) (f_size f)))\<bar>
      \<le> of_nat (length fs) * (EPSILON * P)"
  using assms
proof (induction fs arbitrary: fa)
  case (Cons f fs)
  let ?c = "cash_flow (fa_maker_fee_rate fa) (f_side f) (f_price f) (f_size f)"
  have ok: "fill_ok P f" using Cons.prems by simp
  have "accounting_inv P (book_fill fa f)" using Cons.prems(1) ok by (rule fills.step_inv)
  then have ih: "\<bar>ledger (foldl book_fill (book_fill fa f) fs) - (ledger (book_fill fa f) +
      (\<Sum>f\<leftarrow>fs. cash_flow (fa_maker_fee_rate fa) (f_side f) (f_price f) (f_size f)))\<bar>
      \<le> of_nat (length fs) * (EPSILON * P)"
    using Cons.IH [of "book_fill fa f"] Cons.prems(2) by simp
  have "\<bar>ledger (book_fill fa f) - (ledger fa + ?c)\<bar> \<le> EPSILON * P"
    unfolding book_fill_def using Cons.prems(1) ok by (intro ledger_apply(1)) (auto simp: fill_ok_def)
  with ih show ?case unfolding foldl_Cons list.map sum_list.Cons length_Cons of_nat_Suc distrib_right by linarith
qed simp

text \<open>
  C37. Conservation of money. For every sequence of fills with non-negative sizes and prices up
  to \<open>P\<close> booked into fresh accounts, realized PnL minus the cost of the open position equals
  the net cash flow of the fills (sales minus purchases minus fees) up to \<open>EPSILON * P\<close> per
  fill, and the entry VWAP never leaves the range of the fill prices.
\<close>

theorem fills_conserve_money:
  assumes "0 \<le> P" and "\<forall>f \<in> set fs. fill_ok P f" and "fa = foldl book_fill (accounting_new rate) fs"
  shows "\<bar>realized_pnl_cumulative fa - position_size fa * entry_vwap fa -
      (\<Sum>f\<leftarrow>fs. cash_flow rate (f_side f) (f_price f) (f_size f))\<bar> \<le> of_nat (length fs) * (EPSILON * P) \<and>
    0 \<le> entry_vwap fa \<and> entry_vwap fa \<le> P"
proof -
  have inv: "accounting_inv P (accounting_new rate)" using assms(1) by (simp add: accounting_inv_def accounting_new_def)
  have "admitted (\<lambda>_ f. fill_ok P f) book_fill fa0 gs" if "\<forall>f \<in> set gs. fill_ok P f" for fa0 gs
    using that by (induction gs arbitrary: fa0) auto
  then have "accounting_inv P fa" unfolding assms(3) using fills.run_inv [OF inv] assms(2) by blast
  moreover have "ledger (accounting_new rate) = 0" "fa_maker_fee_rate (accounting_new rate) = rate"
    by (simp_all add: ledger_def accounting_new_def)
  ultimately show ?thesis using ledger_run [OF inv assms(2)] assms(3) by (simp add: ledger_def accounting_inv_def)
qed

theorem fills_conserve_money_witness:
  "\<bar>realized_pnl_cumulative (foldl book_fill (accounting_new 0)
       [\<lparr>f_side = Buy, f_price = 100, f_size = 2\<rparr>, \<lparr>f_side = Sell, f_price = 110, f_size = 2\<rparr>]) - 20\<bar>
    \<le> 2 * (EPSILON * 110)"
proof -
  let ?fs = "[\<lparr>f_side = Buy, f_price = 100, f_size = 2\<rparr>, \<lparr>f_side = Sell, f_price = 110, f_size = 2\<rparr>]"
  have ok: "\<forall>f \<in> set ?fs. fill_ok 110 f" by (simp add: fill_ok_def)
  have "position_size (foldl book_fill (accounting_new 0) ?fs) = 0"
    by (simp add: book_fill_def apply_fill_accounting_def accounting_new_def signed_fill_def EPSILON_def Let_def)
  with fills_conserve_money [OF _ ok refl, of 0] show ?thesis
    by (simp add: cash_flow_def signed_fill_def)
qed

text \<open>
  Away from dust the books are exact: a fill whose resulting position is at least
  \<open>EPSILON\<close> in size changes realized PnL minus position cost by exactly its cash flow, whether
  it opens, adds, reduces or flips the position.
\<close>

theorem fill_exact_off_dust:
  assumes "accounting_inv P fa" "fill_ok P f" and "EPSILON \<le> \<bar>position_size (book_fill fa f)\<bar>"
  shows "ledger (book_fill fa f) = ledger fa + cash_flow (fa_maker_fee_rate fa) (f_side f) (f_price f) (f_size f)"
  using assms ledger_apply(2) [of P fa "f_price f" "f_size f" "f_side f"] by (auto simp: book_fill_def fill_ok_def)

theorem fill_exact_off_dust_witness:
  "ledger (book_fill (from_snapshot 0 2 100 0) \<lparr>f_side = Sell, f_price = 110, f_size = 3\<rparr>) =
   ledger (from_snapshot 0 2 100 0) + cash_flow 0 Sell 110 3"
proof -
  have "accounting_inv 110 (from_snapshot 0 2 100 0)" by (simp add: accounting_inv_def from_snapshot_def EPSILON_def)
  from fill_exact_off_dust [OF this, of "\<lparr>f_side = Sell, f_price = 110, f_size = 3\<rparr>"]
  show ?thesis by (simp add: fill_ok_def book_fill_def apply_fill_accounting_def from_snapshot_def signed_fill_def EPSILON_def Let_def)
qed

text \<open>Persisting and restoring the accounts keeps what the snapshot holds.\<close>

lemma snapshot_roundtrip:
  "snapshot (from_snapshot rate (fs_position_size (snapshot fa)) (fs_entry_vwap (snapshot fa))
     (fs_realized_pnl_cumulative (snapshot fa))) = snapshot fa"
  by (simp add: snapshot_def from_snapshot_def)

end
