(* ===== verification/Persistence.thy ===== *)
theory Persistence
  imports Fill_Accounting Text_Format
begin

text \<open>
  \<^verbatim>\<open>src/src/account/persistence.rs\<close>: the restart state of the PnL actor. The file system is a map
  from paths to contents; each call into it may fail, a write also half-way. The
  JSON printer \<open>enc\<close> and parser \<open>dec\<close> of the state are parameters here (the parser fills missing fields
  with defaults); \<open>Json_Files\<close> gives them.
\<close>

record live_state =
  ls_account_index :: int
  ls_market_id :: u32
  ls_position_size_est :: f64
  ls_entry_vwap :: f64
  ls_realized_pnl_cumulative :: f64
  ls_fill_count :: nat
  ls_volume_usd :: f64
  ls_exchange_position_size :: f64
  ls_exchange_entry_vwap :: "f64 option"
  ls_portfolio_value :: f64
  ls_available_capital :: f64
  ls_symbol :: string
  ls_updated_at :: string

definition default_live_state :: live_state where
  "default_live_state =
     \<lparr>ls_account_index = 0, ls_market_id = 0, ls_position_size_est = 0, ls_entry_vwap = 0, ls_realized_pnl_cumulative = 0,
      ls_fill_count = 0, ls_volume_usd = 0, ls_exchange_position_size = 0, ls_exchange_entry_vwap = None,
      ls_portfolio_value = 0, ls_available_capital = 0, ls_symbol = [], ls_updated_at = []\<rparr>"

record live_state_store =
  st_path :: string
  st_symbol :: string

definition store_new :: "string \<Rightarrow> string \<Rightarrow> live_state_store" where
  "store_new dir symbol = \<lparr>st_path = dir @ ''/live_state_'' @ symbol @ ''.json'', st_symbol = symbol\<rparr>"

type_synonym files = "string \<rightharpoonup> string"

section \<open>Files\<close>

datatype write_outcome = Written | Open_Failed | Torn nat \<comment> \<open>an error after that many bytes\<close>

definition written_bytes :: "write_outcome \<Rightarrow> string \<Rightarrow> string" where
  "written_bytes w bytes = (case w of Written \<Rightarrow> bytes | Open_Failed \<Rightarrow> [] | Torn k \<Rightarrow> take k bytes)"

text \<open>Opening for append creates the file; opening for writing truncates it.\<close>

definition append_file :: "write_outcome \<Rightarrow> string \<Rightarrow> string \<Rightarrow> files \<Rightarrow> bool \<times> files" where
  "append_file w path bytes fs =
     (w = Written,
      if w = Open_Failed then fs
      else fs(path \<mapsto> (case fs path of None \<Rightarrow> [] | Some old \<Rightarrow> old) @ written_bytes w bytes))"

definition rewrite_file :: "write_outcome \<Rightarrow> string \<Rightarrow> string \<Rightarrow> files \<Rightarrow> bool \<times> files" where
  "rewrite_file w path bytes fs = (w = Written, if w = Open_Failed then fs else fs(path \<mapsto> written_bytes w bytes))"

text \<open>How the disk answers during an atomic write, and what the name of its temporary file is made of.\<close>

record atomic_io =
  ai_dir :: bool
  ai_write :: write_outcome
  ai_rename :: bool
  ai_remove :: bool
  ai_pid :: nat
  ai_nanos :: nat

definition dir_prefix :: "string \<Rightarrow> string" where
  "dir_prefix path = rev (dropWhile (\<lambda>c. c \<noteq> CHR ''/'') (rev path))"

definition temp_path :: "string \<Rightarrow> atomic_io \<Rightarrow> string \<Rightarrow> string" where
  "temp_path stem io path = dir_prefix path @ stem @ nat_text (ai_pid io) @ ''-'' @ nat_text (ai_nanos io) @ ''.json''"

text \<open>What a process does to the disk, a byte at a time: it may die between any two of these.\<close>

datatype fs_op = Truncate string | Append_Byte string char | Rename string string | Remove string

fun fs_apply :: "files \<Rightarrow> fs_op \<Rightarrow> files" where
  "fs_apply fs (Truncate p) = fs(p \<mapsto> [])"
| "fs_apply fs (Append_Byte p c) = fs(p \<mapsto> (case fs p of None \<Rightarrow> [] | Some old \<Rightarrow> old) @ [c])"
| "fs_apply fs (Rename p q) = fs(p := None, q := fs p)"
| "fs_apply fs (Remove p) = fs(p := None)"

text \<open>Write a temporary file next to the target, rename it over the target, remove it when a step failed.\<close>

definition write_ops :: "write_outcome \<Rightarrow> string \<Rightarrow> string \<Rightarrow> fs_op list" where
  "write_ops w path bytes =
     (if w = Open_Failed then [] else Truncate path # map (Append_Byte path) (written_bytes w bytes))"

definition atomic_ops :: "string \<Rightarrow> atomic_io \<Rightarrow> string \<Rightarrow> string \<Rightarrow> bool \<times> fs_op list" where
  "atomic_ops stem io path json =
     (if \<not> ai_dir io then (False, [])
      else let tmp = temp_path stem io path; writes = write_ops (ai_write io) tmp (json @ [CHR 10])
           in if ai_write io = Written \<and> ai_rename io then (True, writes @ [Rename tmp path])
              else (False, writes @ (if ai_remove io then [Remove tmp] else [])))"

definition atomic_json_write :: "string \<Rightarrow> atomic_io \<Rightarrow> files \<Rightarrow> string \<Rightarrow> string \<Rightarrow> bool \<times> files" where
  "atomic_json_write stem io fs path json =
     (let (ok, ops) = atomic_ops stem io path json in (ok, foldl fs_apply fs ops))"

text \<open>Every content of the disk while the call runs: what is left if the process dies at that moment.\<close>

definition atomic_json_moments :: "string \<Rightarrow> atomic_io \<Rightarrow> files \<Rightarrow> string \<Rightarrow> string \<Rightarrow> files list" where
  "atomic_json_moments stem io fs path json =
     (let ops = snd (atomic_ops stem io path json) in map (\<lambda>k. foldl fs_apply fs (take k ops)) [0..<Suc (length ops)])"

section \<open>The store\<close>

text \<open>A file that is there but cannot be read counts as missing, as in the source: both give the default.\<close>

definition load :: "(string \<Rightarrow> live_state option) \<Rightarrow> files \<Rightarrow> live_state_store \<Rightarrow> live_state" where
  "load dec fs st =
     (case fs (st_path st) of
        None \<Rightarrow> default_live_state
      | Some bytes \<Rightarrow> (case dec bytes of None \<Rightarrow> default_live_state | Some s \<Rightarrow> s))"

definition save :: "(live_state \<Rightarrow> string) \<Rightarrow> string \<Rightarrow> atomic_io \<Rightarrow> files \<Rightarrow> live_state_store \<Rightarrow> live_state \<Rightarrow> bool \<times> files" where
  "save enc now io fs st state =
     atomic_json_write ''.tmp-'' io fs (st_path st) (enc (state\<lparr>ls_symbol := st_symbol st, ls_updated_at := now\<rparr>))"

text \<open>What \<open>save\<close> writes is the state stamped with the symbol and the time.\<close>

definition stamped :: "string \<Rightarrow> live_state_store \<Rightarrow> live_state \<Rightarrow> live_state" where
  "stamped now st state = state\<lparr>ls_symbol := st_symbol st, ls_updated_at := now\<rparr>"

definition all_written :: "atomic_io \<Rightarrow> bool" where
  "all_written io \<longleftrightarrow> ai_dir io \<and> ai_write io = Written \<and> ai_rename io"

lemma append_bytes: "foldl fs_apply (fs(p \<mapsto> old)) (map (Append_Byte p) bs) = fs(p \<mapsto> old @ bs)"
  by (induction bs arbitrary: old) simp_all

lemma write_ops_file: "w \<noteq> Open_Failed \<Longrightarrow> foldl fs_apply fs (write_ops w p bs) = fs(p \<mapsto> written_bytes w bs)"
  by (simp add: write_ops_def append_bytes [where old = "[]", simplified])

lemma atomic_write_ok: "fst (atomic_json_write stem io fs path json) = all_written io"
  by (auto simp: atomic_json_write_def atomic_ops_def all_written_def Let_def)

lemma written_file:
  assumes "all_written io"
  shows "snd (atomic_json_write stem io fs path json) path = Some (json @ [CHR 10])"
  using assms by (simp add: atomic_json_write_def atomic_ops_def all_written_def write_ops_file written_bytes_def Let_def)

lemma moment_iff:
  "g \<in> set (atomic_json_moments stem io fs path json) \<longleftrightarrow>
   (\<exists>k \<le> length (snd (atomic_ops stem io path json)). g = foldl fs_apply fs (take k (snd (atomic_ops stem io path json))))"
  by (auto simp: atomic_json_moments_def Let_def image_iff less_Suc_eq_le simp del: upt_Suc)

lemma last_moment:
  "snd (atomic_json_write stem io fs path json) \<in> set (atomic_json_moments stem io fs path json)"
  unfolding moment_iff by (rule exI [of _ "length (snd (atomic_ops stem io path json))"]) (simp add: atomic_json_write_def case_prod_beta)

lemma save_writes:
  assumes "save enc now io fs st state = (ok, fs')" "all_written io"
  shows "fs' (st_path st) = Some (enc (stamped now st state) @ [CHR 10])"
  using assms(1) written_file [OF assms(2), of "''.tmp-''" fs "st_path st" "enc (stamped now st state)"]
  by (simp add: save_def stamped_def)

section \<open>A write is never seen torn\<close>

definition file_name :: "string \<Rightarrow> string" where
  "file_name path = rev (takeWhile (\<lambda>c. c \<noteq> CHR ''/'') (rev path))"

lemma dir_prefix_file_name: "dir_prefix path @ file_name path = path"
  by (simp add: dir_prefix_def file_name_def flip: rev_append)

lemma file_name_last: "CHR ''/'' \<notin> set n \<Longrightarrow> file_name (d @ CHR ''/'' # n) = n"
  by (simp add: file_name_def takeWhile_append)

lemma temp_path_apart:
  assumes "take 5 (file_name path) \<noteq> ''.tmp-''"
  shows "temp_path (''.tmp-'' @ stem) io path \<noteq> path"
proof
  assume "temp_path (''.tmp-'' @ stem) io path = path"
  then have "dir_prefix path @ ''.tmp-'' @ stem @ nat_text (ai_pid io) @ ''-'' @ nat_text (ai_nanos io) @ ''.json'' = dir_prefix path @ file_name path"
    by (simp only: temp_path_def dir_prefix_file_name append_assoc)
  then have "file_name path = ''.tmp-'' @ stem @ nat_text (ai_pid io) @ ''-'' @ nat_text (ai_nanos io) @ ''.json''" by (metis same_append_eq)
  with assms show False by simp
qed

fun touches :: "string \<Rightarrow> fs_op \<Rightarrow> bool" where
  "touches q (Truncate p) = (q = p)"
| "touches q (Append_Byte p _) = (q = p)"
| "touches q (Rename p p') = (q = p \<or> q = p')"
| "touches q (Remove p) = (q = p)"

lemma untouched: "list_all (\<lambda>op. \<not> touches q op) ops \<Longrightarrow> foldl fs_apply fs ops q = fs q"
proof (induction ops arbitrary: fs)
  case (Cons op ops)
  have "fs_apply fs op q = fs q" using Cons.prems by (cases op) auto
  with Cons show ?case by simp
qed simp

lemma target_never_torn:
  assumes "take 5 (file_name path) \<noteq> ''.tmp-''" "g \<in> set (atomic_json_moments (''.tmp-'' @ stem) io fs path json)"
  shows "g path = fs path \<or> g path = Some (json @ [CHR 10]) \<and> all_written io"
proof -
  let ?ops = "snd (atomic_ops (''.tmp-'' @ stem) io path json)" and ?tmp = "temp_path (''.tmp-'' @ stem) io path"
  obtain k where k: "k \<le> length ?ops" "g = foldl fs_apply fs (take k ?ops)"
    using assms(2) unfolding moment_iff by blast
  have apart: "path \<noteq> ?tmp" using temp_path_apart [OF assms(1), of stem io] by simp
  then have w: "list_all (\<lambda>op. \<not> touches path op) (write_ops w ?tmp bs)" for w bs
    by (simp add: write_ops_def list_all_iff)
  show ?thesis
  proof (cases "all_written io \<and> k = length ?ops")
    case True
    then have "g = snd (atomic_json_write (''.tmp-'' @ stem) io fs path json)"
      using k(2) by (simp add: atomic_json_write_def case_prod_beta Let_def)
    with True written_file [of io] show ?thesis by simp
  next
    case False
    have "list_all (\<lambda>op. \<not> touches path op) (take k ?ops)"
    proof (cases "all_written io")
      case True
      then have "?ops = write_ops (ai_write io) ?tmp (json @ [CHR 10]) @ [Rename ?tmp path]"
        by (simp add: atomic_ops_def all_written_def Let_def)
      with False True k(1) w show ?thesis by (auto simp: list_all_iff dest: in_set_takeD)
    next
      case False
      then have "list_all (\<lambda>op. \<not> touches path op) ?ops"
        using w apart by (auto simp: atomic_ops_def all_written_def Let_def)
      then show ?thesis by (auto simp: list_all_iff dest: in_set_takeD)
    qed
    with untouched k(2) show ?thesis by simp
  qed
qed

text \<open>
  Dying at any moment of a save leaves a state that reads back: the one stored before, or the one
  being saved.
\<close>

lemma load_after_crash:
  assumes "CHR ''/'' \<notin> set symbol" "dec (enc (stamped now st state) @ [CHR 10]) = Some (stamped now st state)"
    and "st = store_new dir symbol"
    and "g \<in> set (atomic_json_moments ''.tmp-'' io fs (st_path st) (enc (stamped now st state)))"
  shows "load dec g st = load dec fs st \<or> load dec g st = stamped now st state"
proof -
  have "file_name (st_path st) = ''live_state_'' @ symbol @ ''.json''"
    using file_name_last [of "''live_state_'' @ symbol @ ''.json''" dir] assms(1,3) by (simp add: store_new_def)
  then have "take 5 (file_name (st_path st)) \<noteq> ''.tmp-''" by simp
  from target_never_torn [OF this, of g "[]" io fs "enc (stamped now st state)"] assms(2,4) show ?thesis
    by (auto simp: load_def)
qed

end
