(* ===== verification/Trade_Log.thy ===== *)
theory Trade_Log
  imports Text_Format Persistence "HOL-Library.Sublist"
begin

text \<open>
  \<^verbatim>\<open>src/src/metrics/trade_log.rs\<close>: the buffered, append-only CSV log of fills. The text of every
  cell is computed; joining cells to a line and reading a file's first record is the \<open>csv\<close> crate, a
  parameter. A write may fail before it touches the file or after any number of bytes.
\<close>

section \<open>Rows\<close>

definition HEADER :: "string list" where
  "HEADER =
     [''timestamp'', ''symbol'', ''side'', ''price'', ''size'', ''level'', ''position_after'', ''realized_pnl'', ''available_capital'',
      ''portfolio_value'', ''simulated'', ''notional_usd'', ''fee_usd'', ''entry_vwap_after'', ''realized_pnl_cumulative'',
      ''mid_at_fill'', ''spread_capture_bps'', ''inventory_after_usd'', ''client_order_index'', ''exchange_order_index'', ''fill_source'']"

record trade_row =
  tr_timestamp :: "string option"
  tr_side :: string
  tr_price :: f64
  tr_size :: f64
  tr_level :: int
  tr_position_after :: f64
  tr_realized_pnl :: f64
  tr_available_capital :: f64
  tr_portfolio_value :: f64
  tr_simulated :: bool
  tr_notional_usd :: "f64 option"
  tr_fee_usd :: "f64 option"
  tr_entry_vwap_after :: "f64 option"
  tr_realized_pnl_cumulative :: "f64 option"
  tr_mid_at_fill :: "f64 option"
  tr_spread_capture_bps :: "f64 option"
  tr_inventory_after_usd :: "f64 option"
  tr_client_order_index :: "string option"
  tr_exchange_order_index :: "string option"
  tr_fill_source :: string

section \<open>Numbers with significant digits\<close>

definition trim_end_matches :: "char \<Rightarrow> string \<Rightarrow> string" where
  "trim_end_matches c s = rev (dropWhile (\<lambda>x. x = c) (rev s))"

definition strip_fixed :: "string \<Rightarrow> string" where
  "strip_fixed s = (if CHR ''.'' \<in> set s then trim_end_matches (CHR ''.'') (trim_end_matches (CHR ''0'') s) else s)"

definition exponent_parts :: "string \<Rightarrow> char \<times> string" where
  "exponent_parts e =
     (case e of
        [] \<Rightarrow> (CHR ''+'', e)
      | c # rest \<Rightarrow> if c = CHR ''-'' then (CHR ''-'', rest) else if c = CHR ''+'' then (CHR ''+'', rest) else (CHR ''+'', e))"

definition strip_sci :: "string \<Rightarrow> string" where
  "strip_sci s =
     (if CHR ''e'' \<notin> set s then s
      else let (m, e) = split_at (CHR ''e'') s;
               (sign, digits) = exponent_parts e;
               padded = (if length digits < 2 then replicate (2 - length digits) (CHR ''0'') @ digits else digits)
           in strip_fixed m @ ''e'' @ [sign] @ padded)"

definition fmt_g :: "f64 \<Rightarrow> nat \<Rightarrow> string" where
  "fmt_g x prec =
     (if x = 0 then ''0''
      else let p = max prec 1; e = decimal_exponent x
           in if e < - 4 \<or> int p \<le> e then strip_sci (sci_text (p - 1) x)
              else strip_fixed (fixed_text (nat (int p - 1 - e)) x))"

definition opt :: "f64 option \<Rightarrow> (f64 \<Rightarrow> string) \<Rightarrow> string" where
  "opt v f = (case v of None \<Rightarrow> [] | Some x \<Rightarrow> f x)"

text \<open>\<open>now\<close> is the time stamp used when the row carries none.\<close>

definition format_row :: "string \<Rightarrow> string \<Rightarrow> trade_row \<Rightarrow> string list" where
  "format_row symbol now row =
     [case tr_timestamp row of None \<Rightarrow> now | Some t \<Rightarrow> t,
      symbol,
      tr_side row,
      fmt_g (tr_price row) 10,
      fixed_text 6 (tr_size row),
      int_text (tr_level row),
      fixed_text 6 (tr_position_after row),
      fixed_text 4 (tr_realized_pnl row),
      fixed_text 2 (tr_available_capital row),
      fixed_text 2 (tr_portfolio_value row),
      if tr_simulated row then ''true'' else ''false'',
      fixed_text 6 (case tr_notional_usd row of None \<Rightarrow> tr_price row * tr_size row | Some v \<Rightarrow> v),
      opt (tr_fee_usd row) (fixed_text 8),
      opt (tr_entry_vwap_after row) (\<lambda>v. fmt_g v 10),
      opt (tr_realized_pnl_cumulative row) (fixed_text 6),
      opt (tr_mid_at_fill row) (\<lambda>v. fmt_g v 10),
      opt (tr_spread_capture_bps row) (fixed_text 4),
      opt (tr_inventory_after_usd row) (fixed_text 6),
      case tr_client_order_index row of None \<Rightarrow> [] | Some s \<Rightarrow> s,
      case tr_exchange_order_index row of None \<Rightarrow> [] | Some s \<Rightarrow> s,
      tr_fill_source row]"

section \<open>The logger\<close>

record csv_lib =
  csv_line :: "string list \<Rightarrow> string" \<comment> \<open>one record with its line end\<close>
  csv_first :: "string \<Rightarrow> string list option" \<comment> \<open>the first record of a file, if it parses\<close>

record trade_logger =
  lg_path :: string
  lg_symbol :: string
  lg_buffer :: "string list list"

text \<open>How the disk answers while the header is checked: the stamp of a renamed file is part of it.\<close>

record header_io =
  hi_metadata :: bool
  hi_read :: bool
  hi_rename :: bool
  hi_write :: write_outcome
  hi_stamp :: string

definition aside_path :: "string \<Rightarrow> string \<Rightarrow> string" where
  "aside_path path stamp = path @ ''.legacy-'' @ stamp"

definition ensure_header :: "csv_lib \<Rightarrow> header_io \<Rightarrow> string \<Rightarrow> files \<Rightarrow> bool \<times> files" where
  "ensure_header csv io path fs =
     (case fs path of
        None \<Rightarrow> rewrite_file (hi_write io) path (csv_line csv HEADER) fs
      | Some old \<Rightarrow>
          if \<not> hi_metadata io then (False, fs)
          else if old = [] then rewrite_file (hi_write io) path (csv_line csv HEADER) fs
          else if hi_read io \<and> csv_first csv old = Some HEADER then (True, fs)
          else rewrite_file (hi_write io) path (csv_line csv HEADER)
                 (if hi_rename io then fs(aside_path path (hi_stamp io) \<mapsto> old, path := None) else fs))"

definition logger_new :: "csv_lib \<Rightarrow> header_io \<Rightarrow> bool \<Rightarrow> string \<Rightarrow> string \<Rightarrow> files \<Rightarrow> trade_logger option \<times> files" where
  "logger_new csv io dir_ok dir symbol fs =
     (if \<not> dir_ok then (None, fs)
      else let path = dir @ ''/trades_'' @ symbol @ ''.csv''; (ok, fs1) = ensure_header csv io path fs
           in (if ok then Some \<lparr>lg_path = path, lg_symbol = symbol, lg_buffer = []\<rparr> else None, fs1))"

definition log_fill :: "string \<Rightarrow> trade_row \<Rightarrow> trade_logger \<Rightarrow> trade_logger" where
  "log_fill now row lg = lg\<lparr>lg_buffer := lg_buffer lg @ [format_row (lg_symbol lg) now row]\<rparr>"

definition write_rows :: "csv_lib \<Rightarrow> write_outcome \<Rightarrow> string list list \<Rightarrow> trade_logger \<Rightarrow> files \<Rightarrow> bool \<times> files" where
  "write_rows csv w rows lg fs = append_file w (lg_path lg) (concat (map (csv_line csv) rows)) fs"

definition flush :: "csv_lib \<Rightarrow> write_outcome \<Rightarrow> trade_logger \<Rightarrow> files \<Rightarrow> bool \<times> trade_logger \<times> files" where
  "flush csv w lg fs =
     (if lg_buffer lg = [] then (True, lg, fs)
      else let (ok, fs1) = write_rows csv w (lg_buffer lg) lg fs in (ok, lg\<lparr>lg_buffer := []\<rparr>, fs1))"

definition clear :: "csv_lib \<Rightarrow> header_io \<Rightarrow> bool \<Rightarrow> trade_logger \<Rightarrow> files \<Rightarrow> bool \<times> trade_logger \<times> files" where
  "clear csv io remove_ok lg fs =
     (let lg1 = lg\<lparr>lg_buffer := []\<rparr>
      in if fs (lg_path lg) \<noteq> None \<and> \<not> remove_ok then (False, lg1, fs)
         else let (ok, fs1) = ensure_header csv io (lg_path lg) (fs(lg_path lg := None)) in (ok, lg1, fs1))"

definition buffered_len :: "trade_logger \<Rightarrow> nat" where
  "buffered_len lg = length (lg_buffer lg)"

section \<open>What a printed number is worth\<close>

lemma trim_end_split: "\<exists>m. s = trim_end_matches c s @ replicate m c"
proof -
  have "rev s = takeWhile (\<lambda>x. x = c) (rev s) @ dropWhile (\<lambda>x. x = c) (rev s)" by simp
  moreover have "takeWhile (\<lambda>x. x = c) (rev s) = replicate (length (takeWhile (\<lambda>x. x = c) (rev s))) c"
    by (metis (mono_tags, lifting) replicate_length_same set_takeWhileD)
  ultimately show ?thesis unfolding trim_end_matches_def by (metis rev_append rev_replicate rev_rev_ident)
qed

lemma trim_end_keeps: "d \<noteq> c \<Longrightarrow> trim_end_matches c (p @ d # f) = p @ d # trim_end_matches c f"
  by (simp add: trim_end_matches_def dropWhile_append3 dropWhile_append)

lemma trim_end_last: "s \<noteq> [] \<Longrightarrow> last s \<noteq> c \<Longrightarrow> trim_end_matches c s = s"
  by (cases s rule: rev_cases) (simp_all add: trim_end_matches_def)

lemma trim_end_set: "set (trim_end_matches c s) \<subseteq> set s"
  unfolding trim_end_matches_def using set_dropWhileD by fastforce

lemma digits_value_zeros: "digits_value (s @ replicate m (CHR ''0'')) = digits_value s * 10 ^ m"
  by (induction m arbitrary: s) (simp_all add: digit_value_def replicate_append_same[symmetric] flip: append_assoc)

text \<open>Stripping zeros behind the point, and a point left bare, keeps the value.\<close>

lemma strip_fixed_fraction:
  assumes "\<forall>c \<in> set i. is_digit c" "i \<noteq> []" "\<forall>c \<in> set f. is_digit c"
  shows "strip_fixed (p @ i @ CHR ''.'' # f) = p @ strip_fixed (i @ CHR ''.'' # f)"
    "unsigned_value (strip_fixed (i @ CHR ''.'' # f)) = unsigned_value (i @ CHR ''.'' # f)"
    "\<exists>c t. strip_fixed (i @ CHR ''.'' # f) = c # t \<and> is_digit c"
    "\<forall>c \<in> set (strip_fixed (i @ CHR ''.'' # f)). is_digit c \<or> c = CHR ''.''"
proof -
  define g where "g = trim_end_matches (CHR ''0'') f"
  obtain m where m: "f = g @ replicate m (CHR ''0'')" using trim_end_split g_def by blast
  have g: "\<forall>c \<in> set g. is_digit c" using assms(3) trim_end_set[of "CHR ''0''" f] unfolding g_def by blast
  have dot: "CHR ''.'' \<notin> set i" "CHR ''.'' \<notin> set f" "CHR ''.'' \<notin> set g" using assms(1,3) g is_digit_not(1) by metis+
  have s: "strip_fixed (q @ i @ CHR ''.'' # f) = q @ (if g = [] then i else i @ CHR ''.'' # g)" for q
  proof (cases "g = []")
    case True
    have "last i \<noteq> CHR ''.''" using dot(1) assms(2) by (metis last_in_set)
    then have "trim_end_matches (CHR ''.'') (q @ i @ [CHR ''.'']) = trim_end_matches (CHR ''.'') (q @ i)"
      by (simp add: trim_end_matches_def)
    also have "\<dots> = q @ i" by (rule trim_end_last) (use assms(2) \<open>last i \<noteq> CHR ''.''\<close> in auto)
    finally show ?thesis
      using True trim_end_keeps[of "CHR ''.''" "CHR ''0''" "q @ i" f] by (simp add: strip_fixed_def g_def)
  next
    case False
    have "last g \<noteq> CHR ''.''" using dot(3) False by (metis last_in_set)
    then have "trim_end_matches (CHR ''.'') (q @ i @ CHR ''.'' # g) = q @ i @ CHR ''.'' # g"
      by (intro trim_end_last) (use False in auto)
    then show ?thesis
      using False trim_end_keeps[of "CHR ''.''" "CHR ''0''" "q @ i" f] by (simp add: strip_fixed_def g_def)
  qed
  show "strip_fixed (p @ i @ CHR ''.'' # f) = p @ strip_fixed (i @ CHR ''.'' # f)" using s[of p] s[of "[]"] by simp
  have "digits_value f / 10 ^ length f = digits_value g / (10 :: real) ^ length g"
    unfolding m by (simp add: digits_value_zeros power_add)
  then show "unsigned_value (strip_fixed (i @ CHR ''.'' # f)) = unsigned_value (i @ CHR ''.'' # f)"
    using s[of "[]"] dot by (auto simp: unsigned_value_def)
  show "\<exists>c t. strip_fixed (i @ CHR ''.'' # f) = c # t \<and> is_digit c"
    using s[of "[]"] assms(1,2) by (cases i) auto
  show "\<forall>c \<in> set (strip_fixed (i @ CHR ''.'' # f)). is_digit c \<or> c = CHR ''.''"
  proof -
    have "set (strip_fixed (i @ CHR ''.'' # f)) \<subseteq> set i \<union> {CHR ''.''} \<union> set g" using s[of "[]"] by auto
    then show ?thesis using assms(1) g by blast
  qed
qed

lemma decimal_value_minus: "decimal_value (CHR ''-'' # s) = - unsigned_value s"
  by (simp add: decimal_value_def)

lemma decimal_value_plain: "s = c # t \<Longrightarrow> is_digit c \<Longrightarrow> decimal_value s = unsigned_value s"
  using is_digit_not(2) by (auto simp: decimal_value_def)

text \<open>A text with sign, integer digits and \<open>k\<close> digits behind the point, as both formats print.\<close>

abbreviation point_text :: "f64 \<Rightarrow> nat \<Rightarrow> nat \<Rightarrow> string" where
  "point_text x k n \<equiv> sign_text x @ nat_text (n div 10 ^ k) @ fraction_text k n"

lemma strip_point_text:
  "decimal_value (strip_fixed (point_text x k n)) = decimal_value (point_text x k n)" (is ?v)
  "CHR ''e'' \<notin> set (strip_fixed (point_text x k n))" (is ?e)
proof -
  let ?i = "nat_text (n div 10 ^ k)" and ?f = "padded_text k n"
  have sgn: "sign_text x = [] \<or> sign_text x = ''-''" by (simp add: sign_text_def)
  show ?v ?e
  proof (atomize (full), cases "k = 0")
    case True
    have "CHR ''.'' \<notin> set (point_text x k n)" "CHR ''e'' \<notin> set (point_text x k n)"
      using sgn True by (auto simp: fraction_text_def)
    then show "?v \<and> ?e" by (simp add: strip_fixed_def)
  next
    case False
    have t: "point_text x k n = sign_text x @ ?i @ CHR ''.'' # ?f" using False by (simp add: fraction_text_def)
    note s = strip_fixed_fraction[OF nat_text_digits nat_text_not_Nil padded_text_digits, where n2 = "n div 10 ^ k" and n1 = n and k1 = k]
    obtain c u where c: "strip_fixed (?i @ CHR ''.'' # ?f) = c # u" "is_digit c" using s(3) by blast
    obtain d v where d: "?i @ CHR ''.'' # ?f = d # v" "is_digit d" using nat_text_Cons[of "n div 10 ^ k"] by (metis append_Cons)
    have "CHR ''e'' \<notin> set (strip_fixed (?i @ CHR ''.'' # ?f))" using s(4) is_digit_not(4) by fastforce
    then have ?e using sgn by (auto simp: t s(1))
    moreover have ?v
      using sgn s(2) decimal_value_plain[OF c] decimal_value_plain[OF d] s(1)[of "''-''"] False
      by (elim disjE) (simp_all add: fraction_text_def decimal_value_minus)
    ultimately show "?v \<and> ?e" by simp
  qed
qed

lemma text_value_no_exponent: "CHR ''e'' \<notin> set s \<Longrightarrow> text_value s = decimal_value s"
  by (simp add: text_value_def signed_value_def)

lemma strip_sci_text:
  assumes "mantissa k x = (n, e)"
  shows "text_value (strip_sci (sci_text k x)) = decimal_value (point_text x k n) * power_int 10 e"
proof -
  define d where "d = nat_text (nat \<bar>e\<bar>)"
  define pad where "pad = (if length d < 2 then replicate (2 - length d) (CHR ''0'') @ d else d)"
  define sg where "sg = (if e < 0 then CHR ''-'' else CHR ''+'')"
  have m: "CHR ''e'' \<notin> set (point_text x k n)"
    by (auto simp: sign_text_def fraction_text_def)
  have t: "sci_text k x = point_text x k n @ CHR ''e'' # int_text e" using assms by (simp add: sci_text_def)
  obtain c u where c: "nat_text (nat e) = c # u" "c \<noteq> CHR ''-''" "c \<noteq> CHR ''+''" by (rule nat_text_Cons)
  have e: "exponent_parts (int_text e) = (sg, d)"
    using c by (simp add: exponent_parts_def int_text_def sg_def d_def abs_if)
  have z: "digits_value (replicate j (CHR ''0'')) = 0" for j using digits_value_zeros[of "[]" j] by simp
  have val: "signed_value (sg # pad) = e"
    by (simp add: signed_value_def sg_def pad_def d_def digits_value_append z)
  have "strip_sci (sci_text k x) = strip_fixed (point_text x k n) @ CHR ''e'' # (sg # pad)"
    unfolding t strip_sci_def split_at_first[OF m] by (simp add: e pad_def Let_def)
  then show ?thesis using strip_point_text[where x = x and k = k and n = n] val by (simp add: text_value_def)
qed

text \<open>
  Every number is printed with \<open>prec\<close> significant digits: the text read back is off by at most half
  a unit of the last one.
\<close>

lemma fmt_g_error: "\<bar>text_value (fmt_g x prec) - x\<bar> \<le> \<bar>x\<bar> / (2 * 10 ^ (max prec 1 - 1))"
proof (cases "x = 0")
  case True
  then show ?thesis by (simp add: fmt_g_def text_value_def decimal_value_def unsigned_value_def digit_value_def signed_value_def)
next
  case False
  define p e where "p = max prec 1" and "e = decimal_exponent x"
  have ex: "power_int 10 e \<le> \<bar>x\<bar>" using decimal_exponent_bounds(1)[OF False] e_def by simp
  show ?thesis
  proof (cases "e < - 4 \<or> int p \<le> e")
    case True
    obtain n d where m: "mantissa (p - 1) x = (n, d)" by fastforce
    let ?s = "if x < 0 then - 1 else 1 :: real" and ?v = "of_nat n / 10 ^ (p - 1) * power_int 10 d"
    have "text_value (fmt_g x prec) = ?s * ?v"
      using False True strip_sci_text[OF m] by (simp add: fmt_g_def p_def e_def Let_def)
    then have "\<bar>text_value (fmt_g x prec) - x\<bar> = \<bar>?v - \<bar>x\<bar>\<bar>" by (simp add: abs_if)
    also have "\<dots> \<le> power_int 10 e / (2 * 10 ^ (p - 1))" unfolding e_def by (rule mantissa_correct(3)[OF False m])
    also have "\<dots> \<le> \<bar>x\<bar> / (2 * 10 ^ (p - 1))" by (rule divide_right_mono[OF ex]) simp
    finally show ?thesis by (simp add: p_def)
  next
    case fixed: False
    define k where "k = nat (int p - 1 - e)"
    have k: "int k = int (p - 1) - e" "1 \<le> p" using fixed by (auto simp: k_def p_def)
    have "fmt_g x prec = strip_fixed (fixed_text k x)"
      using False fixed by (simp add: fmt_g_def p_def e_def k_def Let_def)
    then have "text_value (fmt_g x prec) = decimal_value (fixed_text k x)"
      using strip_point_text text_value_no_exponent by (simp add: fixed_text_def Let_def)
    then have "\<bar>text_value (fmt_g x prec) - x\<bar> \<le> 1 / (2 * 10 ^ k)" using fixed_text_error[of k x] by simp
    also have "\<dots> = power_int 10 e / (2 * 10 ^ (p - 1))"
    proof -
      have "(10 :: real) ^ (p - 1) = power_int 10 (e + int k)" using k(1) by (simp add: power_int_of_nat)
      also have "\<dots> = power_int 10 e * 10 ^ k" by (simp add: power_int_add)
      finally have "power_int (10 :: real) e * 10 ^ k = 10 ^ (p - 1)" by simp
      then show ?thesis by (simp add: field_simps)
    qed
    also have "\<dots> \<le> \<bar>x\<bar> / (2 * 10 ^ (p - 1))" by (rule divide_right_mono[OF ex]) simp
    finally show ?thesis by (simp add: p_def)
  qed
qed

section \<open>Order of the rows\<close>

text \<open>The calls of a run of the logger, each with what it reads or how its write ends.\<close>

datatype log_step = Log string trade_row | Flush write_outcome

fun log_step_fun :: "csv_lib \<Rightarrow> trade_logger \<times> files \<Rightarrow> log_step \<Rightarrow> trade_logger \<times> files" where
  "log_step_fun csv (lg, fs) (Log now row) = (log_fill now row lg, fs)"
| "log_step_fun csv (lg, fs) (Flush w) = snd (flush csv w lg fs)"

fun logged :: "string \<Rightarrow> log_step list \<Rightarrow> string list list" where
  "logged symb [] = []"
| "logged symb (Log now row # ss) = format_row symb now row # logged symb ss"
| "logged symb (Flush w # ss) = logged symb ss"

text \<open>The rows each flush is responsible for: those logged since the flush before it, with how its write ended.\<close>

fun flushes :: "string \<Rightarrow> string list list \<Rightarrow> log_step list \<Rightarrow> (string list list \<times> write_outcome) list" where
  "flushes symb pending [] = []"
| "flushes symb pending (Log now row # ss) = flushes symb (pending @ [format_row symb now row]) ss"
| "flushes symb pending (Flush w # ss) = (pending, w) # flushes symb [] ss"

abbreviation lines_of :: "csv_lib \<Rightarrow> string list list \<Rightarrow> string" where
  "lines_of csv rows \<equiv> concat (map (csv_line csv) rows)"

text \<open>
  What each flush left in the file: all lines of its own rows when its write succeeded, otherwise
  some first bytes of them. Every logged row belongs to exactly one flush or is still buffered.
\<close>

definition log_history ::
  "csv_lib \<Rightarrow> string \<Rightarrow> (string list list \<times> write_outcome) list \<Rightarrow> string list list \<Rightarrow> trade_logger \<Rightarrow> files \<Rightarrow> bool" where
  "log_history csv start fls rows lg fs \<longleftrightarrow>
     concat (map fst fls) @ lg_buffer lg = rows \<and>
     (\<exists>outs. fs (lg_path lg) = Some (start @ concat outs) \<and>
        list_all2 (\<lambda>(batch, w) out. prefix out (lines_of csv batch) \<and> (w = Written \<longrightarrow> out = lines_of csv batch)) fls outs)"

lemma written_bytes_prefix: "prefix (written_bytes w bytes) bytes"
  by (auto simp: written_bytes_def take_is_prefix split: write_outcome.split)

lemma flush_file:
  assumes "fs (lg_path lg) = Some old" "flush csv w lg fs = (ok, lg', fs')"
  shows "lg' = lg\<lparr>lg_buffer := []\<rparr>" "fs' (lg_path lg) = Some (old @ written_bytes w (lines_of csv (lg_buffer lg)))"
  using assms
  by (cases lg; auto simp: flush_def write_rows_def append_file_def written_bytes_def split: prod.splits if_splits write_outcome.splits)+

lemma log_run:
  assumes "fs (lg_path lg) = Some start" "foldl (log_step_fun csv) (lg, fs) steps = (lg', fs')"
  shows "log_history csv start (flushes (lg_symbol lg) (lg_buffer lg) steps) (lg_buffer lg @ logged (lg_symbol lg) steps) lg' fs'"
  using assms
proof (induction steps arbitrary: lg fs start)
  case Nil
  then show ?case by (simp add: log_history_def)
next
  case (Cons s steps)
  show ?case
  proof (cases s)
    case (Log now row)
    then show ?thesis using Cons.IH[of fs "log_fill now row lg"] Cons.prems by (simp add: log_fill_def)
  next
    case (Flush w)
    obtain ok lg1 fs1 where f: "flush csv w lg fs = (ok, lg1, fs1)" by (metis surj_pair)
    note f1 = flush_file[OF Cons.prems(1) f]
    have "log_history csv (start @ written_bytes w (lines_of csv (lg_buffer lg))) (flushes (lg_symbol lg) [] steps) (logged (lg_symbol lg) steps) lg' fs'"
      using Cons.IH[of fs1 lg1] Cons.prems(2) Flush f f1 by simp
    then obtain outs where o: "concat (map fst (flushes (lg_symbol lg) [] steps)) @ lg_buffer lg' = logged (lg_symbol lg) steps"
        "fs' (lg_path lg') = Some (start @ concat (written_bytes w (lines_of csv (lg_buffer lg)) # outs))"
        "list_all2 (\<lambda>(batch, w) out. prefix out (lines_of csv batch) \<and> (w = Written \<longrightarrow> out = lines_of csv batch)) (flushes (lg_symbol lg) [] steps) outs"
      unfolding log_history_def by auto
    show ?thesis
      unfolding log_history_def
      by (intro conjI exI[of _ "written_bytes w (lines_of csv (lg_buffer lg)) # outs"])
        (use o Flush written_bytes_prefix in \<open>simp_all add: written_bytes_def\<close>)
  qed
qed

text \<open>
  C26. Whatever is logged and however each flush ends, the file is its start followed by what the
  flushes wrote, in order. A flush whose own write succeeded left exactly the lines of the rows logged
  since the flush before it; one whose write failed left some first bytes of its lines, so only its
  own rows can be lost. Every logged row belongs to one flush or is still buffered, so none is written
  twice.
\<close>
theorem log_rows_once_in_order:
  assumes "fs (lg_path lg) = Some start" "lg_buffer lg = []"
    "foldl (log_step_fun csv) (lg, fs) steps = (lg', fs')"
  shows "log_history csv start (flushes (lg_symbol lg) [] steps) (logged (lg_symbol lg) steps) lg' fs'"
  using log_run[OF assms(1,3)] assms(2) by simp

definition sample_csv :: csv_lib where
  "sample_csv = \<lparr>csv_line = (\<lambda>cells. concat cells @ [CHR 10]), csv_first = (\<lambda>_. None)\<rparr>"

definition sample_row :: trade_row where
  "sample_row =
     \<lparr>tr_timestamp = Some ''t'', tr_side = ''buy'', tr_price = 100, tr_size = 2, tr_level = 0, tr_position_after = 2, tr_realized_pnl = 0,
      tr_available_capital = 0, tr_portfolio_value = 0, tr_simulated = False, tr_notional_usd = None, tr_fee_usd = None,
      tr_entry_vwap_after = None, tr_realized_pnl_cumulative = None, tr_mid_at_fill = None, tr_spread_capture_bps = None,
      tr_inventory_after_usd = None, tr_client_order_index = None, tr_exchange_order_index = None, tr_fill_source = ''x''\<rparr>"

theorem log_rows_once_in_order_witness:
  "let steps = [Log ''a'' sample_row, Flush (Torn 3), Log ''b'' sample_row, Flush Written, Log ''c'' sample_row];
       lg = \<lparr>lg_path = ''f'', lg_symbol = ''BTC'', lg_buffer = []\<rparr>;
       r = format_row ''BTC'' ''t'' sample_row;
       (lg', fs') = foldl (log_step_fun sample_csv) (lg, [''f'' \<mapsto> ''h'']) steps
   in log_history sample_csv ''h'' [([r], Torn 3), ([r], Written)] [r, r, r] lg' fs' \<and> buffered_len lg' = 1"
proof -
  define steps lg where "steps = [Log ''a'' sample_row, Flush (Torn 3), Log ''b'' sample_row, Flush Written, Log ''c'' sample_row]"
    and "lg = \<lparr>lg_path = ''f'', lg_symbol = ''BTC'', lg_buffer = []\<rparr>"
  obtain lg' fs' where r: "foldl (log_step_fun sample_csv) (lg, [''f'' \<mapsto> ''h'']) steps = (lg', fs')" by fastforce
  have row: "format_row ''BTC'' now sample_row = format_row ''BTC'' ''t'' sample_row" for now
    by (simp add: format_row_def sample_row_def)
  have "log_history sample_csv ''h'' (flushes ''BTC'' [] steps) (logged ''BTC'' steps) lg' fs'"
    using log_rows_once_in_order[OF _ _ r, of "''h''"] by (simp add: lg_def)
  moreover have "buffered_len lg' = 1"
    using r by (auto simp: steps_def lg_def buffered_len_def log_fill_def flush_def write_rows_def append_file_def)
  ultimately show ?thesis
    using r row[of "''a''"] row[of "''b''"] row[of "''c''"] by (simp add: steps_def lg_def)
qed

text \<open>
  Starting the logger never destroys an old log: one with another header is kept under a new name
  before the fresh file is begun, one with the right header is appended to.
\<close>

lemma ensure_header_keeps_old:
  assumes "ensure_header csv io path fs = (True, fs')" "fs path = Some old" "old \<noteq> []" "hi_rename io"
  shows "if hi_read io \<and> csv_first csv old = Some HEADER then fs' = fs
         else fs' (aside_path path (hi_stamp io)) = Some old \<and> fs' path = Some (csv_line csv HEADER)"
  using assms
  by (auto simp: ensure_header_def rewrite_file_def written_bytes_def aside_path_def split: if_splits)

lemma format_row_cells: "length (format_row symb now row) = length HEADER"
  by (simp add: format_row_def HEADER_def)

end
