(* ===== verification/Pnl_Actor.thy ===== *)
theory Pnl_Actor
  imports Trade_Log Pnl_Events Shared Config Risk
begin

text \<open>
  \<^verbatim>\<open>src/src/account/pnl_actor.rs\<close>: the actor that attributes the account's fills to this process. The
  shared cells it reads are fields, and each handler sees one wall-clock reading (\<open>ms\<close>, and \<open>now\<close> as
  text). Sets with a FIFO next to them bound the memory of ids, as in the source. The log's buffer
  holds the rows with their time stamp resolved; they are put into text when they are flushed, which
  gives the same text as formatting them when they are logged (\<open>format_stamped_row\<close>). Number
  parsing, time stamps, JSON and CSV syntax are library code: the record \<open>text_lib\<close>.

  The accounting lemmas go through one predicate, \<open>booked\<close>, which every operation keeps; the
  generation counter has its own, \<open>queued_before\<close>.
\<close>

section \<open>State\<close>

definition PENDING_LIMIT :: nat where "PENDING_LIMIT = 2000"
definition MID_FRESH_MS :: nat where "MID_FRESH_MS = 10000"
definition ID_SET_CAP :: nat where "ID_SET_CAP = 10000"

record pnl_summary =
  su_session_id :: string
  su_symbol :: string
  su_market_id :: u32
  su_account_index :: int
  su_started_at :: string
  su_updated_at :: string
  su_realized :: f64
  su_unrealized :: f64
  su_mtm :: f64
  su_unattributed :: f64
  su_open_position :: f64
  su_entry_vwap :: f64
  su_last_mid :: "f64 option"
  su_mid_stale :: bool
  su_fills :: nat
  su_buys :: nat
  su_sells :: nat
  su_notional :: f64
  su_duplicates :: nat
  su_unattributed_fills :: nat
  su_pending :: nat
  su_capital :: "f64 option"
  su_portfolio :: "f64 option"

text \<open>Library code the actor calls: float parser, RFC 3339 stamps, CSV, JSON printers.\<close>

record text_lib =
  tl_float :: "string \<Rightarrow> f64 option"
  tl_stamp :: "int \<Rightarrow> string option"
  tl_csv :: csv_lib
  tl_summary :: "pnl_summary \<Rightarrow> string"
  tl_state :: "live_state \<Rightarrow> string"

text \<open>What a handler reads of the clock: milliseconds since the epoch, and as text.\<close>

type_synonym clock = "nat \<times> string"

record pnl_actor =
  pa_include_unattributed :: bool
  pa_symbol :: string
  pa_market_id :: u32
  pa_account_index :: int
  pa_maker_fee_rate :: f64
  pa_session_id :: string
  pa_started_at :: string
  pa_bbo :: shared_bbo
  pa_derived :: derived
  pa_log :: "trade_row list"
  pa_log_path :: string
  pa_store :: live_state_store
  pa_summary_path :: string
  pa_snapshots_path :: string
  pa_accounting :: fill_accounting
  pa_client_ids :: "int set"
  pa_client_order :: "int list"
  pa_seen :: "int set"
  pa_seen_order :: "int list"
  pa_pending_ids :: "int set"
  pa_pending :: "(trade_payload \<times> nat) list"
  pa_generation :: nat
  pa_realized :: f64
  pa_unattributed :: f64
  pa_fills :: nat
  pa_buys :: nat
  pa_sells :: nat
  pa_notional :: f64
  pa_duplicates :: nat
  pa_unattributed_fills :: nat
  pa_position_seen :: bool
  pa_exchange_position :: f64
  pa_exchange_entry :: "f64 option"
  pa_capital :: "f64 option"
  pa_portfolio :: "f64 option"
  pa_last_mid :: "f64 option"
  pa_mid_stale :: bool
  pa_last_unrealized :: f64

section \<open>Fills\<close>

datatype trade_decision = Accepted | PendingClientId int | Skipped string

record fill_view =
  fv_side :: side
  fv_price :: f64
  fv_size :: f64
  fv_notional :: f64
  fv_client_order_id :: "int option"
  fv_exchange_order_id :: "int option"
  fv_exchange_pnl :: "f64 option"

definition from_trade :: "text_lib \<Rightarrow> trade_payload \<Rightarrow> int \<Rightarrow> fill_view option" where
  "from_trade lib t acct =
     (case (parse_opt_f64 (tl_float lib) (tp_price t), parse_opt_f64 (tl_float lib) (tp_size t)) of
        (Some price, Some sz) \<Rightarrow>
          (let notional = (case parse_opt_f64 (tl_float lib) (usd_amount t) of None \<Rightarrow> price * sz | Some x \<Rightarrow> x)
           in if ask_account_id t = Some acct
              then Some \<lparr>fv_side = Sell, fv_price = price, fv_size = sz, fv_notional = notional, fv_client_order_id = ask_client_id t,
                        fv_exchange_order_id = ask_id t, fv_exchange_pnl = parse_opt_f64 (tl_float lib) (ask_account_pnl t)\<rparr>
              else if bid_account_id t = Some acct
              then Some \<lparr>fv_side = Buy, fv_price = price, fv_size = sz, fv_notional = notional, fv_client_order_id = bid_client_id t,
                        fv_exchange_order_id = bid_id t, fv_exchange_pnl = parse_opt_f64 (tl_float lib) (bid_account_pnl t)\<rparr>
              else None)
      | _ \<Rightarrow> None)"

definition spread_capture_bps :: "side \<Rightarrow> f64 \<Rightarrow> f64 \<Rightarrow> f64 option" where
  "spread_capture_bps s price mid =
     (if mid \<le> 0 then None
      else Some (case s of Buy \<Rightarrow> (mid - price) / mid * 10000 | Sell \<Rightarrow> (price - mid) / mid * 10000))"

text \<open>Insert an id with FIFO eviction beyond the cap.\<close>

definition bounded_insert :: "int \<Rightarrow> int set \<times> int list \<Rightarrow> int set \<times> int list" where
  "bounded_insert i = (\<lambda>(ids, order).
     if i \<in> ids then (ids, order)
     else let order1 = order @ [i]; n = length order1 - ID_SET_CAP
          in (insert i ids - set (take n order1), drop n order1))"

definition mark_seen :: "int \<Rightarrow> pnl_actor \<Rightarrow> pnl_actor" where
  "mark_seen i a = (let (ids, order) = bounded_insert i (pa_seen a, pa_seen_order a) in a\<lparr>pa_seen := ids, pa_seen_order := order\<rparr>)"

definition refresh_mid :: "nat \<Rightarrow> pnl_actor \<Rightarrow> pnl_actor" where
  "refresh_mid ms a =
     (let lm = d_mid (pa_derived a); bm = bbo_mid (pa_bbo a)
      in if 0 < lm \<and> md_age_ms (pa_derived a) ms \<le> MID_FRESH_MS then a\<lparr>pa_last_mid := Some lm, pa_mid_stale := False\<rparr>
         else if 0 < bm \<and> bbo_age_ms (pa_bbo a) ms \<le> MID_FRESH_MS then a\<lparr>pa_last_mid := Some bm, pa_mid_stale := False\<rparr>
         else if pa_last_mid a \<noteq> None then a\<lparr>pa_mid_stale := True\<rparr>
         else a)"

text \<open>Booking an accepted fill: accounting unless a later snapshot already includes it, counters, mid, log row.\<close>

definition book_trade :: "text_lib \<Rightarrow> clock \<Rightarrow> trade_payload \<Rightarrow> int \<Rightarrow> fill_view \<Rightarrow> bool \<Rightarrow> bool \<Rightarrow> bool \<Rightarrow> pnl_actor \<Rightarrow> pnl_actor" where
  "book_trade lib ms t i f known attributed superseded a =
     (let (local_delta, fee, acc) =
            (if superseded then (case fv_exchange_pnl f of None \<Rightarrow> 0 | Some x \<Rightarrow> x, 0, pa_accounting a)
             else let (r, acc) = apply_fill_accounting (pa_accounting a) (fv_side f) (fv_price f) (fv_size f)
                  in (realized_delta r, fee_usd r, acc));
          delta = (case fv_exchange_pnl f of None \<Rightarrow> local_delta | Some x \<Rightarrow> x);
          a1 = mark_seen i (a\<lparr>pa_accounting := acc\<rparr>);
          a2 = (if attributed then a1\<lparr>pa_realized := pa_realized a1 + delta\<rparr>
                else a1\<lparr>pa_unattributed := pa_unattributed a1 + delta, pa_unattributed_fills := pa_unattributed_fills a1 + 1\<rparr>);
          a3 = a2\<lparr>pa_fills := pa_fills a2 + 1,
                  pa_buys := (case fv_side f of Buy \<Rightarrow> pa_buys a2 + 1 | Sell \<Rightarrow> pa_buys a2),
                  pa_sells := (case fv_side f of Sell \<Rightarrow> pa_sells a2 + 1 | Buy \<Rightarrow> pa_sells a2),
                  pa_notional := pa_notional a2 + fv_notional f\<rparr>;
          a4 = refresh_mid (fst ms) a3;
          mid = pa_last_mid a4;
          pos = position_size (pa_accounting a4);
          row = \<lparr>tr_timestamp = Some (case Option.bind (event_time_ms t) (tl_stamp lib) of None \<Rightarrow> snd ms | Some x \<Rightarrow> x),
                 tr_side = as_str (fv_side f), tr_price = fv_price f, tr_size = fv_size f, tr_level = - 1,
                 tr_position_after = pos, tr_realized_pnl = delta,
                 tr_available_capital = (case pa_capital a4 of None \<Rightarrow> 0 | Some x \<Rightarrow> x),
                 tr_portfolio_value = (case pa_portfolio a4 of None \<Rightarrow> 0 | Some x \<Rightarrow> x), tr_simulated = False,
                 tr_notional_usd = Some (fv_notional f), tr_fee_usd = Some fee,
                 tr_entry_vwap_after = Some (entry_vwap (pa_accounting a4)), tr_realized_pnl_cumulative = Some (pa_realized a4),
                 tr_mid_at_fill = mid, tr_spread_capture_bps = Option.bind mid (spread_capture_bps (fv_side f) (fv_price f)),
                 tr_inventory_after_usd = map_option (\<lambda>m. pos * m) mid, tr_client_order_index = map_option int_text (fv_client_order_id f),
                 tr_exchange_order_index = map_option int_text (fv_exchange_order_id f),
                 tr_fill_source = (if known \<and> \<not> superseded then ''account_all''
                                   else if known then ''account_all_late_attributed'' else ''account_all_unattributed'')\<rparr>
      in a4\<lparr>pa_log := pa_log a4 @ [row]\<rparr>)"

definition try_accept_trade ::
  "text_lib \<Rightarrow> clock \<Rightarrow> trade_payload \<Rightarrow> nat \<Rightarrow> pnl_actor \<Rightarrow> trade_decision \<times> pnl_actor" where
  "try_accept_trade lib ms t queued_generation a =
     (case trade_id t of
        None \<Rightarrow> (Skipped ''missing_trade_id'', a)
      | Some i \<Rightarrow>
          if i \<in> pa_seen a then (Accepted, a\<lparr>pa_duplicates := pa_duplicates a + 1\<rparr>)
          else case from_trade lib t (pa_account_index a) of
                 None \<Rightarrow> (Skipped ''account_not_in_trade'', a)
               | Some f \<Rightarrow>
                   if fv_price f \<le> 0 \<or> fv_size f \<le> 0 then (Skipped ''invalid_price_or_size'', a)
                   else let known = (case fv_client_order_id f of None \<Rightarrow> False | Some c \<Rightarrow> c \<in> pa_client_ids a);
                            attributed = (known \<or> pa_include_unattributed a)
                        in (case (attributed, fv_client_order_id f) of
                              (False, Some cid) \<Rightarrow> (PendingClientId cid, a)
                            | _ \<Rightarrow> (Accepted, book_trade lib ms t i f known attributed (queued_generation < pa_generation a) a)))"

text \<open>The queue of trades whose client id is not registered yet; beyond the limit the oldest is given up.\<close>

definition drop_excess :: "pnl_actor \<Rightarrow> pnl_actor" where
  "drop_excess a =
     (let n = length (pa_pending a) - PENDING_LIMIT; old = take n (pa_pending a)
      in a\<lparr>pa_pending := drop n (pa_pending a), pa_pending_ids := pa_pending_ids a - set (List.map_filter (trade_id \<circ> fst) old),
           pa_unattributed_fills := pa_unattributed_fills a + n\<rparr>)"

definition process_or_queue :: "text_lib \<Rightarrow> clock \<Rightarrow> trade_payload \<Rightarrow> pnl_actor \<Rightarrow> pnl_actor" where
  "process_or_queue lib ms t a =
     (case trade_id t of
        None \<Rightarrow> a\<lparr>pa_unattributed_fills := pa_unattributed_fills a + 1\<rparr>
      | Some i \<Rightarrow>
          if i \<in> pa_seen a then a\<lparr>pa_duplicates := pa_duplicates a + 1\<rparr>
          else if i \<in> pa_pending_ids a then a
          else let g = pa_generation a
               in (case try_accept_trade lib ms t g a of
                     (Accepted, a1) \<Rightarrow> a1
                   | (PendingClientId _, a1) \<Rightarrow>
                       drop_excess (a1\<lparr>pa_pending_ids := insert i (pa_pending_ids a1), pa_pending := pa_pending a1 @ [(t, g)]\<rparr>)
                   | (Skipped _, a1) \<Rightarrow> a1\<lparr>pa_unattributed_fills := pa_unattributed_fills a1 + 1\<rparr>))"

definition forget_pending :: "trade_payload \<Rightarrow> pnl_actor \<Rightarrow> pnl_actor" where
  "forget_pending t a = (case trade_id t of None \<Rightarrow> a | Some i \<Rightarrow> a\<lparr>pa_pending_ids := pa_pending_ids a - {i}\<rparr>)"

definition remember_pending :: "trade_payload \<Rightarrow> pnl_actor \<Rightarrow> pnl_actor" where
  "remember_pending t a = (case trade_id t of None \<Rightarrow> a | Some i \<Rightarrow> a\<lparr>pa_pending_ids := insert i (pa_pending_ids a)\<rparr>)"

fun retry_loop :: "text_lib \<Rightarrow> clock \<Rightarrow> (trade_payload \<times> nat) list \<Rightarrow> pnl_actor \<Rightarrow> (trade_payload \<times> nat) list \<times> pnl_actor" where
  "retry_loop lib ms [] a = ([], a)"
| "retry_loop lib ms ((t, g) # ts) a =
     (case try_accept_trade lib ms t g (forget_pending t a) of
        (Accepted, a1) \<Rightarrow> retry_loop lib ms ts a1
      | (PendingClientId _, a1) \<Rightarrow>
          (let (still, a2) = retry_loop lib ms ts (remember_pending t a1) in ((t, g) # still, a2))
      | (Skipped _, a1) \<Rightarrow> retry_loop lib ms ts (a1\<lparr>pa_unattributed_fills := pa_unattributed_fills a1 + 1\<rparr>))"

definition retry_pending :: "text_lib \<Rightarrow> clock \<Rightarrow> pnl_actor \<Rightarrow> pnl_actor" where
  "retry_pending lib ms a = (let (still, a1) = retry_loop lib ms (pa_pending a) a in a1\<lparr>pa_pending := still\<rparr>)"

definition update_position :: "position_snapshot \<Rightarrow> pnl_actor \<Rightarrow> pnl_actor" where
  "update_position p a =
     (let a1 = a\<lparr>pa_position_seen := True, pa_exchange_position := ps_signed_position p, pa_exchange_entry := ps_entry_vwap p\<rparr>
      in if \<bar>ps_signed_position p\<bar> < EPSILON \<or> ps_entry_vwap p \<noteq> None
         then a1\<lparr>pa_accounting := from_snapshot (pa_maker_fee_rate a1) (ps_signed_position p)
                   (case ps_entry_vwap p of None \<Rightarrow> 0 | Some v \<Rightarrow> v) (pa_realized a1),
                 pa_generation := pa_generation a1 + 1\<rparr>
         else a1)"

definition register_id :: "int \<Rightarrow> pnl_actor \<Rightarrow> pnl_actor" where
  "register_id i a =
     (if 0 < i then let (ids, order) = bounded_insert i (pa_client_ids a, pa_client_order a)
                    in a\<lparr>pa_client_ids := ids, pa_client_order := order\<rparr>
      else a)"

definition handle_event :: "text_lib \<Rightarrow> clock \<Rightarrow> pnl_actor \<Rightarrow> pnl_event \<Rightarrow> pnl_actor" where
  "handle_event lib ms a e =
     (case e of
        RegisterClientIds ids \<Rightarrow> retry_pending lib ms (foldl (\<lambda>a i. register_id i a) a ids)
      | AccountAll position trades \<Rightarrow>
          (let a1 = retry_pending lib ms (foldl (\<lambda>a t. process_or_queue lib ms t a) a trades)
           in case position of None \<Rightarrow> a1 | Some p \<Rightarrow> update_position p a1)
      | Capital cap pv \<Rightarrow>
          a\<lparr>pa_capital := (case cap of None \<Rightarrow> pa_capital a | Some x \<Rightarrow> Some x),
            pa_portfolio := (case pv of None \<Rightarrow> pa_portfolio a | Some x \<Rightarrow> Some x)\<rparr>
      | Shutdown \<Rightarrow> a)"

section \<open>Summaries\<close>

definition open_position :: "pnl_actor \<Rightarrow> f64" where
  "open_position a = (if pa_position_seen a then pa_exchange_position a else position_size (pa_accounting a))"

definition actor_entry_vwap :: "pnl_actor \<Rightarrow> f64" where
  "actor_entry_vwap a = (case pa_exchange_entry a of None \<Rightarrow> entry_vwap (pa_accounting a) | Some v \<Rightarrow> v)"

definition unrealized_pnl :: "pnl_actor \<Rightarrow> f64" where
  "unrealized_pnl a =
     (let pos = open_position a; entry = actor_entry_vwap a
      in case pa_last_mid a of
           None \<Rightarrow> 0
         | Some mid \<Rightarrow>
             if \<not> (0 < mid \<and> 0 < entry) then 0
             else if EPSILON < pos then (mid - entry) * pos
             else if pos < - EPSILON then (entry - mid) * \<bar>pos\<bar>
             else 0)"

definition pnl_summary_of :: "clock \<Rightarrow> pnl_actor \<Rightarrow> pnl_summary \<times> pnl_actor" where
  "pnl_summary_of ms a =
     (let a1 = refresh_mid (fst ms) a;
          (u, a2) = (if pa_mid_stale a1 then (pa_last_unrealized a1, a1)
                     else (unrealized_pnl a1, a1\<lparr>pa_last_unrealized := unrealized_pnl a1\<rparr>))
      in (\<lparr>su_session_id = pa_session_id a2, su_symbol = pa_symbol a2, su_market_id = pa_market_id a2,
           su_account_index = pa_account_index a2, su_started_at = pa_started_at a2, su_updated_at = snd ms,
           su_realized = pa_realized a2, su_unrealized = u, su_mtm = pa_realized a2 + u, su_unattributed = pa_unattributed a2,
           su_open_position = open_position a2, su_entry_vwap = actor_entry_vwap a2, su_last_mid = pa_last_mid a2,
           su_mid_stale = pa_mid_stale a2, su_fills = pa_fills a2, su_buys = pa_buys a2, su_sells = pa_sells a2,
           su_notional = pa_notional a2, su_duplicates = pa_duplicates a2, su_unattributed_fills = pa_unattributed_fills a2,
           su_pending = length (pa_pending a2), su_capital = pa_capital a2, su_portfolio = pa_portfolio a2\<rparr>, a2))"

definition SNAPSHOT_HEADER :: "string list" where
  "SNAPSHOT_HEADER =
     [''timestamp'', ''session_id'', ''symbol'', ''market_id'', ''account_index'', ''strategy_realized_pnl_usdc'',
      ''strategy_unrealized_pnl_usdc'', ''strategy_mtm_pnl_usdc'', ''open_position_base'', ''entry_vwap'', ''last_mid'', ''fill_count'',
      ''buy_count'', ''sell_count'', ''notional_usdc'', ''duplicate_fill_count'', ''unattributed_fill_count'',
      ''pending_unattributed_fill_count'']"

definition ensure_snapshot_header :: "csv_lib \<Rightarrow> bool \<Rightarrow> write_outcome \<Rightarrow> string \<Rightarrow> files \<Rightarrow> bool \<times> files" where
  "ensure_snapshot_header csv metadata_ok w path fs =
     (case fs path of
        None \<Rightarrow> rewrite_file w path (csv_line csv SNAPSHOT_HEADER) fs
      | Some old \<Rightarrow>
          if \<not> metadata_ok then (False, fs)
          else if old \<noteq> [] then (True, fs)
          else rewrite_file w path (csv_line csv SNAPSHOT_HEADER) fs)"

definition snapshot_cells :: "pnl_summary \<Rightarrow> string list" where
  "snapshot_cells s =
     [su_updated_at s, su_session_id s, su_symbol s, nat_text (unat (su_market_id s)), int_text (su_account_index s),
      fixed_text 6 (su_realized s), fixed_text 6 (su_unrealized s), fixed_text 6 (su_mtm s), fixed_text 8 (su_open_position s),
      fixed_text 4 (su_entry_vwap s), opt (su_last_mid s) (fixed_text 4), nat_text (su_fills s), nat_text (su_buys s),
      nat_text (su_sells s), fixed_text 6 (su_notional s), nat_text (su_duplicates s), nat_text (su_unattributed_fills s),
      nat_text (su_pending s)]"

text \<open>How the disk answers during a flush.\<close>

record flush_io =
  fi_log :: write_outcome
  fi_snap_metadata :: bool
  fi_snap_header :: write_outcome
  fi_snap :: write_outcome
  fi_summary :: atomic_io
  fi_state :: atomic_io

definition append_snapshot :: "csv_lib \<Rightarrow> flush_io \<Rightarrow> string \<Rightarrow> pnl_summary \<Rightarrow> files \<Rightarrow> bool \<times> files" where
  "append_snapshot csv io path s fs =
     (let (ok, fs1) = ensure_snapshot_header csv (fi_snap_metadata io) (fi_snap_header io) path fs
      in if ok then append_file (fi_snap io) path (csv_line csv (snapshot_cells s)) fs1 else (False, fs1))"

text \<open>The actor has its own copy of the atomic write, with another prefix of the temporary name.\<close>

definition summary_json_write :: "atomic_io \<Rightarrow> files \<Rightarrow> string \<Rightarrow> string \<Rightarrow> bool \<times> files" where
  "summary_json_write = atomic_json_write ''.tmp-pnl-''"

definition persist_summary :: "text_lib \<Rightarrow> clock \<Rightarrow> atomic_io \<Rightarrow> pnl_actor \<Rightarrow> files \<Rightarrow> pnl_actor \<times> files" where
  "persist_summary lib ms io a fs =
     (let (s, a1) = pnl_summary_of ms a; (_, fs1) = summary_json_write io fs (pa_summary_path a1) (tl_summary lib s) in (a1, fs1))"

text \<open>
  Start, with the state of an earlier run when it belongs to this account and market. The files
  are prepared first (failing that is a start-up error), and a first summary is written at once.
\<close>

record start_io =
  si_dir :: bool
  si_log :: header_io
  si_snap_metadata :: bool
  si_snap_header :: write_outcome
  si_summary :: atomic_io
  si_session_stamp :: string

definition restored_actor ::
  "clock \<Rightarrow> string \<Rightarrow> pnl_cfg \<Rightarrow> string \<Rightarrow> u32 \<Rightarrow> int \<Rightarrow> f64 \<Rightarrow> shared_bbo \<Rightarrow> derived \<Rightarrow> string \<Rightarrow> live_state_store \<Rightarrow> live_state \<Rightarrow> pnl_actor" where
  "restored_actor ms stamp cfg symbol mkt acct rate bbo der log_path st r =
     (let restore = (ls_account_index r = acct \<and> ls_market_id r = mkt \<and> ls_updated_at r \<noteq> []);
          (acc, realized, fills, notional) =
            (if restore
             then (from_snapshot rate (ls_position_size_est r) (ls_entry_vwap r) (ls_realized_pnl_cumulative r),
                   ls_realized_pnl_cumulative r, ls_fill_count r, ls_volume_usd r)
             else (accounting_new rate, 0, 0, 0))
      in \<lparr>pa_include_unattributed = include_unattributed_account_fills cfg, pa_symbol = symbol, pa_market_id = mkt,
          pa_account_index = acct, pa_maker_fee_rate = rate,
          pa_session_id = symbol @ ''-'' @ nat_text (unat mkt) @ ''-'' @ stamp, pa_started_at = snd ms, pa_bbo = bbo,
          pa_derived = der, pa_log = [], pa_log_path = log_path, pa_store = st,
          pa_summary_path = persist_dir cfg @ ''/pnl_session_'' @ symbol @ ''.json'',
          pa_snapshots_path = persist_dir cfg @ ''/pnl_snapshots_'' @ symbol @ ''.csv'',
          pa_accounting = acc, pa_client_ids = {}, pa_client_order = [], pa_seen = {}, pa_seen_order = [], pa_pending_ids = {},
          pa_pending = [], pa_generation = 0, pa_realized = realized, pa_unattributed = 0, pa_fills = fills, pa_buys = 0, pa_sells = 0,
          pa_notional = notional, pa_duplicates = 0, pa_unattributed_fills = 0, pa_position_seen = False, pa_exchange_position = 0,
          pa_exchange_entry = None, pa_capital = None, pa_portfolio = None, pa_last_mid = None, pa_mid_stale = False,
          pa_last_unrealized = 0\<rparr>)"

definition actor_new ::
  "text_lib \<Rightarrow> (string \<Rightarrow> live_state option) \<Rightarrow> start_io \<Rightarrow> clock \<Rightarrow> pnl_cfg \<Rightarrow> string \<Rightarrow> u32 \<Rightarrow> int \<Rightarrow> f64 \<Rightarrow> shared_bbo \<Rightarrow> derived \<Rightarrow> files
     \<Rightarrow> pnl_actor option \<times> files" where
  "actor_new lib dec io ms cfg symbol mkt acct rate bbo der fs =
     (if \<not> si_dir io then (None, fs)
      else case logger_new (tl_csv lib) (si_log io) True (persist_dir cfg) symbol fs of
             (None, fs1) \<Rightarrow> (None, fs1)
           | (Some lg, fs1) \<Rightarrow>
               let st = store_new (persist_dir cfg) symbol;
                   (ok, fs2) = ensure_snapshot_header (tl_csv lib) (si_snap_metadata io) (si_snap_header io)
                                 (persist_dir cfg @ ''/pnl_snapshots_'' @ symbol @ ''.csv'') fs1
               in if \<not> ok then (None, fs2)
                  else let a = restored_actor ms (si_session_stamp io) cfg symbol mkt acct rate bbo der (lg_path lg) st (load dec fs2 st);
                           (a1, fs3) = persist_summary lib ms (si_summary io) a fs2
                       in (Some a1, fs3))"

definition live_state_of :: "pnl_actor \<Rightarrow> live_state" where
  "live_state_of a =
     \<lparr>ls_account_index = pa_account_index a, ls_market_id = pa_market_id a, ls_position_size_est = position_size (pa_accounting a),
      ls_entry_vwap = entry_vwap (pa_accounting a), ls_realized_pnl_cumulative = pa_realized a, ls_fill_count = pa_fills a,
      ls_volume_usd = pa_notional a, ls_exchange_position_size = pa_exchange_position a, ls_exchange_entry_vwap = pa_exchange_entry a,
      ls_portfolio_value = (case pa_portfolio a of None \<Rightarrow> 0 | Some x \<Rightarrow> x),
      ls_available_capital = (case pa_capital a of None \<Rightarrow> 0 | Some x \<Rightarrow> x), ls_symbol = [], ls_updated_at = []\<rparr>"

text \<open>The log's buffer as the logger holds it.\<close>

definition logger_of :: "pnl_actor \<Rightarrow> trade_logger" where
  "logger_of a = \<lparr>lg_path = pa_log_path a, lg_symbol = pa_symbol a, lg_buffer = map (format_row (pa_symbol a) []) (pa_log a)\<rparr>"

lemma format_stamped_row:
  "format_row symb now row =
   format_row symb x (row\<lparr>tr_timestamp := Some (case tr_timestamp row of None \<Rightarrow> now | Some t \<Rightarrow> t)\<rparr>)"
  by (cases "tr_notional_usd row") (simp_all add: format_row_def)

text \<open>
  \<open>flush_all\<close>: the log's buffer is handed over (and dropped when the write fails), a summary is
  computed and written, the restart state saved; every failure is only logged.
\<close>

definition flush_all :: "text_lib \<Rightarrow> clock \<Rightarrow> flush_io \<Rightarrow> pnl_actor \<Rightarrow> files \<Rightarrow> pnl_actor \<times> files" where
  "flush_all lib ms io a fs =
     (let (_, _, fs1) = flush (tl_csv lib) (fi_log io) (logger_of a) fs;
          (s, a1) = pnl_summary_of ms (a\<lparr>pa_log := []\<rparr>);
          (_, fs2) = append_snapshot (tl_csv lib) io (pa_snapshots_path a1) s fs1;
          (_, fs3) = summary_json_write (fi_summary io) fs2 (pa_summary_path a1) (tl_summary lib s);
          (_, fs4) = save (tl_state lib) (snd ms) (fi_state io) fs3 (pa_store a1) (live_state_of a1)
      in (a1, fs4))"

text \<open>
  The actor's loop. Each input carries what its handler reads: the clock and how the disk answers.
  It ends at \<open>Shutdown\<close> or when the channel is closed, in both cases after a flush. The rows handed
  to a working disk are collected next to the state.
\<close>

datatype actor_input = Received pnl_event | Channel_Closed | Tick

type_synonym actor_step = "clock \<times> flush_io \<times> actor_input"

definition rows_out :: "flush_io \<Rightarrow> pnl_actor \<Rightarrow> trade_row list" where
  "rows_out io a = (if fi_log io = Written then pa_log a else [])"

fun run :: "text_lib \<Rightarrow> actor_step list \<Rightarrow> pnl_actor \<Rightarrow> files \<Rightarrow> trade_row list \<Rightarrow> pnl_actor \<times> files \<times> trade_row list" where
  "run lib [] a fs rows = (a, fs, rows)"
| "run lib ((ms, io, inp) # rest) a fs rows =
     (case inp of
        Channel_Closed \<Rightarrow> (let (a1, fs1) = flush_all lib ms io a fs in (a1, fs1, rows @ rows_out io a))
      | Received Shutdown \<Rightarrow>
          (let (a1, fs1) = flush_all lib ms io a fs; (_, a2) = pnl_summary_of ms a1 in (a2, fs1, rows @ rows_out io a))
      | Received e \<Rightarrow> run lib rest (handle_event lib ms a e) fs rows
      | Tick \<Rightarrow>
          (let (a1, fs1) = flush_all lib ms io a fs; (_, a2) = pnl_summary_of ms a1
           in run lib rest a2 fs1 (rows @ rows_out io a)))"

section \<open>Every trade is booked once\<close>

definition fifo_ok :: "int set \<times> int list \<Rightarrow> bool" where
  "fifo_ok = (\<lambda>(ids, order). ids = set order \<and> distinct order \<and> length order \<le> ID_SET_CAP)"

lemma set_drop_distinct:
  assumes "distinct xs"
  shows "set (drop n xs) = set xs - set (take n xs)"
  using assms set_take_disj_set_drop_if_distinct[of xs n n] set_append[of "take n xs" "drop n xs"]
  by (auto simp del: set_append)

lemma bounded_insert_new:
  assumes "fifo_ok (ids, order)" "i \<notin> ids" "bounded_insert i (ids, order) = (ids', order')"
  shows "fifo_ok (ids', order')" "order' = drop (Suc (length order) - ID_SET_CAP) (order @ [i])"
proof -
  let ?xs = "order @ [i]"
  let ?n = "length ?xs - ID_SET_CAP"
  have d: "distinct ?xs" and len: "length order \<le> ID_SET_CAP" and ids: "insert i ids = set ?xs"
    using assms(1,2) by (auto simp: fifo_ok_def)
  have eqs: "order' = drop ?n ?xs" "ids' = set ?xs - set (take ?n ?xs)"
    using assms(2,3) ids by (auto simp: bounded_insert_def Let_def)
  show "fifo_ok (ids', order')"
    using d len unfolding eqs fifo_ok_def by (simp only: prod.case set_drop_distinct distinct_drop) simp
  show "order' = drop (Suc (length order) - ID_SET_CAP) (order @ [i])" unfolding eqs by simp
qed

text \<open>Any \<open>ID_SET_CAP\<close> consecutive ids are distinct: an id comes back only after that many others.\<close>

definition spaced :: "int list \<Rightarrow> bool" where
  "spaced ids \<longleftrightarrow> (\<forall>k. distinct (take ID_SET_CAP (drop k ids)))"

lemma spaced_snoc:
  assumes "spaced ids" "i \<notin> set (drop (length ids - ID_SET_CAP) ids)"
  shows "spaced (ids @ [i])"
  unfolding spaced_def
proof
  fix k
  have d: "distinct (take ID_SET_CAP (drop k ids))" using assms(1) by (simp add: spaced_def)
  show "distinct (take ID_SET_CAP (drop k (ids @ [i])))"
  proof (cases "length (drop k ids) < ID_SET_CAP")
    case True
    then have "set (drop k ids) \<subseteq> set (drop (length ids - ID_SET_CAP) ids)" by (intro set_drop_subset_set_drop) simp
    with assms(2) True d show ?thesis by (cases "k \<le> length ids") (auto simp: take_Cons')
  qed (use d in \<open>simp add: not_less\<close>)
qed

text \<open>A log row is the fill of a received trade with that id.\<close>

definition row_of :: "text_lib \<Rightarrow> int \<Rightarrow> trade_payload set \<Rightarrow> int \<Rightarrow> trade_row \<Rightarrow> bool" where
  "row_of lib acct T i row \<longleftrightarrow> (\<exists>t \<in> T. \<exists>f. trade_id t = Some i \<and> from_trade lib t acct = Some f \<and>
     tr_side row = as_str (fv_side f) \<and> tr_price row = fv_price f \<and> tr_size row = fv_size f \<and> tr_notional_usd row = Some (fv_notional f))"

text \<open>What has been booked since the start: \<open>P\<close> are the rows already written out, the buffer holds the rest.\<close>

definition booked :: "text_lib \<Rightarrow> trade_payload set \<Rightarrow> f64 \<Rightarrow> nat \<Rightarrow> f64 \<Rightarrow> trade_row list \<Rightarrow> pnl_actor \<Rightarrow> bool" where
  "booked lib T r0 k0 v0 P a \<longleftrightarrow>
     (let R = P @ pa_log a; n = length R
      in fifo_ok (pa_seen a, pa_seen_order a) \<and>
         (\<exists>ids. pa_seen_order a = drop (n - ID_SET_CAP) ids \<and> spaced ids \<and> list_all2 (row_of lib (pa_account_index a) T) ids R) \<and>
         fst ` set (pa_pending a) \<subseteq> T \<and> length (pa_pending a) \<le> PENDING_LIMIT \<and>
         pa_fills a = k0 + n \<and> pa_buys a + pa_sells a = n \<and>
         pa_realized a + pa_unattributed a = r0 + sum_list (map tr_realized_pnl R) \<and>
         pa_notional a = v0 + sum_list (map (the \<circ> tr_notional_usd) R))"

text \<open>Two actors with the same books.\<close>

definition books :: "pnl_actor \<Rightarrow> (trade_row list \<times> int set \<times> int list \<times> (trade_payload \<times> nat) list) \<times> (nat \<times> nat \<times> nat) \<times> f64 \<times> f64 \<times> f64 \<times> int" where
  "books a = ((pa_log a, pa_seen a, pa_seen_order a, pa_pending a), (pa_fills a, pa_buys a, pa_sells a), pa_realized a, pa_unattributed a, pa_notional a, pa_account_index a)"

lemma booked_cong: "books a = books b \<Longrightarrow> booked lib T r0 k0 v0 P a \<longleftrightarrow> booked lib T r0 k0 v0 P b"
  by (simp add: booked_def books_def)

lemma refresh_mid_frame [simp]:
  "books (refresh_mid ms a) = books a" "pa_accounting (refresh_mid ms a) = pa_accounting a"
  "pa_generation (refresh_mid ms a) = pa_generation a" "pa_capital (refresh_mid ms a) = pa_capital a"
  "pa_portfolio (refresh_mid ms a) = pa_portfolio a"
  by (simp_all add: refresh_mid_def Let_def books_def)

lemma refresh_mid_books [simp]:
  "pa_log (refresh_mid ms a) = pa_log a" "pa_seen (refresh_mid ms a) = pa_seen a" "pa_seen_order (refresh_mid ms a) = pa_seen_order a"
  "pa_pending (refresh_mid ms a) = pa_pending a" "pa_fills (refresh_mid ms a) = pa_fills a" "pa_buys (refresh_mid ms a) = pa_buys a"
  "pa_sells (refresh_mid ms a) = pa_sells a" "pa_realized (refresh_mid ms a) = pa_realized a"
  "pa_unattributed (refresh_mid ms a) = pa_unattributed a" "pa_notional (refresh_mid ms a) = pa_notional a"
  "pa_account_index (refresh_mid ms a) = pa_account_index a"
  by (simp_all add: refresh_mid_def Let_def)

lemma book_trade_effect:
  fixes a lib ms t i f known attributed superseded
  defines "a' \<equiv> book_trade lib ms t i f known attributed superseded a"
  shows "\<exists>row. pa_log a' = pa_log a @ [row] \<and> tr_notional_usd row = Some (fv_notional f) \<and>
           tr_side row = as_str (fv_side f) \<and> tr_price row = fv_price f \<and> tr_size row = fv_size f \<and>
           pa_realized a' + pa_unattributed a' = pa_realized a + pa_unattributed a + tr_realized_pnl row"
    "(pa_seen a', pa_seen_order a') = bounded_insert i (pa_seen a, pa_seen_order a)"
    "pa_pending a' = pa_pending a" "pa_fills a' = Suc (pa_fills a)" "pa_buys a' + pa_sells a' = Suc (pa_buys a + pa_sells a)"
    "pa_notional a' = pa_notional a + fv_notional f" "pa_generation a' = pa_generation a"
    "superseded \<Longrightarrow> pa_accounting a' = pa_accounting a" "pa_account_index a' = pa_account_index a"
  unfolding a'_def book_trade_def
  by (simp_all add: Let_def mark_seen_def split: prod.splits side.splits)

lemma book_trade_booked:
  assumes "booked lib T r0 k0 v0 P a" "i \<notin> pa_seen a" "t \<in> T" "trade_id t = Some i" "from_trade lib t (pa_account_index a) = Some f"
  shows "booked lib T r0 k0 v0 P (book_trade lib ms t i f known attributed superseded a)"
proof -
  let ?a = "book_trade lib ms t i f known attributed superseded a"
  note e = book_trade_effect[where lib = lib and ms = ms and t = t and i = i and f = f and known = known and attributed = attributed and
      superseded = superseded and a = a]
  obtain row where row: "pa_log ?a = pa_log a @ [row]" "tr_notional_usd row = Some (fv_notional f)"
    "pa_realized ?a + pa_unattributed ?a = pa_realized a + pa_unattributed a + tr_realized_pnl row"
    and rf: "tr_side row = as_str (fv_side f)" "tr_price row = fv_price f" "tr_size row = fv_size f"
    using e(1) by blast
  let ?R = "P @ pa_log a"
  obtain ids where ids: "pa_seen_order a = drop (length ?R - ID_SET_CAP) ids" "spaced ids"
      "list_all2 (row_of lib (pa_account_index a) T) ids ?R" and ff: "fifo_ok (pa_seen a, pa_seen_order a)"
    using assms(1) by (auto simp: booked_def Let_def)
  have len: "length ids = length ?R" using ids(3) by (rule list_all2_lengthD)
  note b = bounded_insert_new[OF ff assms(2) e(2)[symmetric]]
  have "i \<notin> set (drop (length ids - ID_SET_CAP) ids)" using ff assms(2) ids(1) len by (simp add: fifo_ok_def)
  then have "spaced (ids @ [i])" by (rule spaced_snoc[OF ids(2)])
  moreover have "pa_seen_order ?a = drop (Suc (length ?R) - ID_SET_CAP) (ids @ [i])"
    unfolding b(2) ids(1) using len by (cases "length ids \<le> ID_SET_CAP") (simp_all add: Suc_diff_le)
  moreover have "list_all2 (row_of lib (pa_account_index a) T) (ids @ [i]) (?R @ [row])"
    using ids(3) assms(3-5) rf row(2) by (intro list_all2_appendI) (auto simp: row_of_def)
  ultimately have "\<exists>js. pa_seen_order ?a = drop (length (P @ pa_log ?a) - ID_SET_CAP) js \<and> spaced js \<and>
      list_all2 (row_of lib (pa_account_index ?a) T) js (P @ pa_log ?a)"
    using row(1) e(9) by (intro exI[of _ "ids @ [i]"]) simp
  then show ?thesis
    using assms(1) row b(1) e(3-6) unfolding booked_def Let_def by simp
qed

lemma try_accept_booked:
  assumes "booked lib T r0 k0 v0 P a" "t \<in> T" "try_accept_trade lib ms t g a = (d, a')"
  shows "booked lib T r0 k0 v0 P a' \<and> pa_pending a' = pa_pending a \<and> pa_generation a' = pa_generation a \<and>
         (g < pa_generation a \<longrightarrow> pa_accounting a' = pa_accounting a)"
proof -
  have "booked lib T r0 k0 v0 P (a\<lparr>pa_duplicates := k\<rparr>)" for k using assms(1) by (simp add: booked_def)
  then show ?thesis
    using assms unfolding try_accept_trade_def
    by (auto simp: Let_def book_trade_effect(3,7,8) intro!: book_trade_booked split: option.splits if_splits bool.splits)
qed

lemma booked_counters [simp]:
  "booked lib T r0 k0 v0 P (a\<lparr>pa_duplicates := k\<rparr>) = booked lib T r0 k0 v0 P a"
  "booked lib T r0 k0 v0 P (a\<lparr>pa_unattributed_fills := k\<rparr>) = booked lib T r0 k0 v0 P a"
  "booked lib T r0 k0 v0 P (forget_pending t a) = booked lib T r0 k0 v0 P a"
  "booked lib T r0 k0 v0 P (remember_pending t a) = booked lib T r0 k0 v0 P a"
  by (rule booked_cong, simp add: books_def forget_pending_def remember_pending_def split: option.splits)+

lemma pending_marks_frame [simp]:
  "pa_pending (forget_pending t a) = pa_pending a" "pa_pending (remember_pending t a) = pa_pending a"
  "pa_generation (forget_pending t a) = pa_generation a" "pa_generation (remember_pending t a) = pa_generation a"
  "pa_accounting (forget_pending t a) = pa_accounting a" "pa_accounting (remember_pending t a) = pa_accounting a"
  by (simp_all add: forget_pending_def remember_pending_def split: option.splits)

lemma drop_excess_booked:
  assumes "booked lib T r0 k0 v0 P a" "t \<in> T" "pa_pending a = ps"
  shows "booked lib T r0 k0 v0 P (drop_excess (a\<lparr>pa_pending_ids := D, pa_pending := ps @ [(t, g)]\<rparr>))"
  using assms unfolding booked_def drop_excess_def by (auto simp: Let_def dest!: in_set_dropD split: if_splits)

lemma process_or_queue_booked:
  assumes "booked lib T r0 k0 v0 P a" "t \<in> T"
  shows "booked lib T r0 k0 v0 P (process_or_queue lib ms t a)"
  using assms try_accept_booked[OF assms, where ms = ms] unfolding process_or_queue_def
  by (auto simp: Let_def intro!: drop_excess_booked split: option.splits trade_decision.splits prod.splits)

text \<open>Replaying the queue: trades queued before the last position snapshot never touch the accounting.\<close>

lemma retry_loop_booked:
  assumes "booked lib T r0 k0 v0 P a" "fst ` set ts \<subseteq> T" "retry_loop lib ms ts a = (still, a')"
  shows "booked lib T r0 k0 v0 P a' \<and> set still \<subseteq> set ts \<and> length still \<le> length ts \<and> pa_pending a' = pa_pending a \<and>
         pa_generation a' = pa_generation a \<and>
         ((\<forall>(t, g) \<in> set ts. g < pa_generation a) \<longrightarrow> pa_accounting a' = pa_accounting a)"
  using assms
proof (induction ts arbitrary: a still a')
  case Nil
  then show ?case by simp
next
  case (Cons tg ts)
  obtain t g where tg: "tg = (t, g)" by fastforce
  obtain d a1 where t: "try_accept_trade lib ms t g (forget_pending t a) = (d, a1)" by fastforce
  have a1: "booked lib T r0 k0 v0 P a1" "pa_pending a1 = pa_pending a" "pa_generation a1 = pa_generation a"
      "g < pa_generation a \<longrightarrow> pa_accounting a1 = pa_accounting a"
    using try_accept_booked[OF _ _ t] Cons.prems(1,2) tg by auto
  have ts: "fst ` set ts \<subseteq> T" using Cons.prems(2) by simp
  note IH = Cons.IH[OF _ ts]
  show ?case
  proof (cases d)
    case Accepted
    then show ?thesis using IH[OF a1(1)] Cons.prems(3) a1 t tg by force
  next
    case (PendingClientId c)
    obtain s2 a2 where r: "retry_loop lib ms ts (remember_pending t a1) = (s2, a2)" by fastforce
    then show ?thesis using IH[OF _ r] PendingClientId Cons.prems(3) a1 t tg by auto
  next
    case (Skipped w)
    let ?b = "a1\<lparr>pa_unattributed_fills := pa_unattributed_fills a1 + 1\<rparr>"
    have "retry_loop lib ms ts ?b = (still, a')" using Skipped Cons.prems(3) t tg by simp
    then show ?thesis using IH[of ?b] a1 tg by fastforce
  qed
qed

lemma retry_pending_booked:
  assumes "booked lib T r0 k0 v0 P a"
  shows "booked lib T r0 k0 v0 P (retry_pending lib ms a) \<and> set (pa_pending (retry_pending lib ms a)) \<subseteq> set (pa_pending a) \<and>
         pa_generation (retry_pending lib ms a) = pa_generation a \<and>
         ((\<forall>(t, g) \<in> set (pa_pending a). g < pa_generation a) \<longrightarrow> pa_accounting (retry_pending lib ms a) = pa_accounting a)"
proof -
  obtain still a' where r: "retry_loop lib ms (pa_pending a) a = (still, a')" by fastforce
  have I: "fst ` set (pa_pending a) \<subseteq> T" and L: "length (pa_pending a) \<le> PENDING_LIMIT"
    using assms by (auto simp: booked_def Let_def)
  note l = retry_loop_booked[OF assms I r]
  have "booked lib T r0 k0 v0 P a'" "fst ` set still \<subseteq> T" "length still \<le> PENDING_LIMIT"
    using l I L by (blast, blast, linarith)
  then have "booked lib T r0 k0 v0 P (a'\<lparr>pa_pending := still\<rparr>)"
    unfolding booked_def Let_def by simp
  then show ?thesis using l r by (simp add: retry_pending_def)
qed

lemma update_position_books [simp]: "books (update_position p a) = books a"
  by (simp add: update_position_def books_def Let_def)

lemma register_id_frame [simp]:
  "books (register_id i a) = books a" "pa_generation (register_id i a) = pa_generation a"
  "pa_accounting (register_id i a) = pa_accounting a" "pa_pending (register_id i a) = pa_pending a"
  by (simp_all add: register_id_def books_def Let_def split: prod.splits)

lemma register_ids_frame [simp]:
  "books (foldl (\<lambda>a i. register_id i a) a ids) = books a"
  "pa_generation (foldl (\<lambda>a i. register_id i a) a ids) = pa_generation a"
  "pa_accounting (foldl (\<lambda>a i. register_id i a) a ids) = pa_accounting a"
  "pa_pending (foldl (\<lambda>a i. register_id i a) a ids) = pa_pending a"
  by (induction ids arbitrary: a) simp_all

lemma process_trades_booked:
  assumes "booked lib T r0 k0 v0 P a" "set ts \<subseteq> T"
  shows "booked lib T r0 k0 v0 P (foldl (\<lambda>a t. process_or_queue lib ms t a) a ts)"
  using assms by (induction ts arbitrary: a) (simp_all add: process_or_queue_booked)

fun event_trades :: "pnl_event \<Rightarrow> trade_payload set" where
  "event_trades (AccountAll _ ts) = set ts"
| "event_trades _ = {}"

lemma handle_event_booked:
  assumes "booked lib T r0 k0 v0 P a" "event_trades e \<subseteq> T"
  shows "booked lib T r0 k0 v0 P (handle_event lib ms a e)"
proof (cases e)
  case (RegisterClientIds ids)
  have "booked lib T r0 k0 v0 P (foldl (\<lambda>a i. register_id i a) a ids)"
    using assms(1) booked_cong register_ids_frame(1) by blast
  then show ?thesis using RegisterClientIds retry_pending_booked by (simp add: handle_event_def)
next
  case (AccountAll position ts)
  have "booked lib T r0 k0 v0 P (foldl (\<lambda>a t. process_or_queue lib ms t a) a ts)"
    by (rule process_trades_booked[OF assms(1)]) (use assms(2) AccountAll in auto)
  then show ?thesis
    using AccountAll retry_pending_booked booked_cong[OF update_position_books]
    by (simp add: handle_event_def Let_def split: option.splits)
next
  case (Capital c p)
  then show ?thesis using assms(1) by (simp add: handle_event_def booked_def)
next
  case Shutdown
  then show ?thesis using assms(1) by (simp add: handle_event_def)
qed

lemma summary_books [simp]:
  "books (snd (pnl_summary_of ms a)) = books a"
  "pa_accounting (snd (pnl_summary_of ms a)) = pa_accounting a" "pa_store (snd (pnl_summary_of ms a)) = pa_store a"
  "pa_account_index (snd (pnl_summary_of ms a)) = pa_account_index a" "pa_market_id (snd (pnl_summary_of ms a)) = pa_market_id a"
  by (simp_all add: pnl_summary_of_def refresh_mid_def books_def Let_def)

lemma flush_all_actor: "fst (flush_all lib ms io a fs) = snd (pnl_summary_of ms (a\<lparr>pa_log := []\<rparr>))"
  by (simp add: flush_all_def Let_def split: prod.splits)

lemma flush_all_booked:
  assumes "booked lib T r0 k0 v0 P a" "fi_log io = Written"
  shows "booked lib T r0 k0 v0 (P @ rows_out io a) (fst (flush_all lib ms io a fs))"
proof -
  have "booked lib T r0 k0 v0 (P @ rows_out io a) (a\<lparr>pa_log := []\<rparr>)" using assms by (simp add: booked_def rows_out_def)
  then show ?thesis using booked_cong[OF summary_books(1)] by (simp add: flush_all_actor)
qed

lemma restored_actor_booked:
  fixes ms stamp cfg symbol mkt acct rate bbo der lp st r
  defines "a \<equiv> restored_actor ms stamp cfg symbol mkt acct rate bbo der lp st r"
  shows "booked lib T (pa_realized a) (pa_fills a) (pa_notional a) [] a" "pa_pending a = []"
  unfolding a_def restored_actor_def by (simp_all add: booked_def fifo_ok_def spaced_def Let_def)

text \<open>A started actor is the restored one after its first summary.\<close>

lemma persist_summary_actor: "fst (persist_summary lib ms ok a fs) = snd (pnl_summary_of ms a)"
  by (simp add: persist_summary_def Let_def split: prod.splits)

lemma actor_new_restored:
  assumes "actor_new lib dec io ms cfg symbol mkt acct rate bbo der fs = (Some a, fs')"
  shows "\<exists>fs2. a = snd (pnl_summary_of ms (restored_actor ms (si_session_stamp io) cfg symbol mkt acct rate bbo der
      (persist_dir cfg @ ''/trades_'' @ symbol @ ''.csv'') (store_new (persist_dir cfg) symbol)
      (load dec fs2 (store_new (persist_dir cfg) symbol)))) \<and>
    (\<forall>p. p \<notin> {persist_dir cfg @ ''/trades_'' @ symbol @ ''.csv'',
               aside_path (persist_dir cfg @ ''/trades_'' @ symbol @ ''.csv'') (hi_stamp (si_log io)),
               persist_dir cfg @ ''/pnl_snapshots_'' @ symbol @ ''.csv''} \<longrightarrow> fs2 p = fs p)"
proof -
  let ?log = "persist_dir cfg @ ''/trades_'' @ symbol @ ''.csv''" and ?snap = "persist_dir cfg @ ''/pnl_snapshots_'' @ symbol @ ''.csv''"
  let ?st = "store_new (persist_dir cfg) symbol"
  obtain fs1 where h: "si_dir io" "ensure_header (tl_csv lib) (si_log io) ?log fs = (True, fs1)"
    using assms by (auto simp: actor_new_def logger_new_def Let_def split: prod.splits option.splits if_splits)
  obtain ok fs2 where e: "ensure_snapshot_header (tl_csv lib) (si_snap_metadata io) (si_snap_header io) ?snap fs1 = (ok, fs2)" by fastforce
  let ?r = "restored_actor ms (si_session_stamp io) cfg symbol mkt acct rate bbo der ?log ?st (load dec fs2 ?st)"
  have "ok" "persist_summary lib ms (si_summary io) ?r fs2 = (a, fs')"
    using assms h e by (auto simp: actor_new_def logger_new_def Let_def split: prod.splits if_splits)
  then have "a = snd (pnl_summary_of ms ?r)" using persist_summary_actor by (metis fst_conv)
  moreover have "fs1 p = fs p" if "p \<noteq> ?log" "p \<noteq> aside_path ?log (hi_stamp (si_log io))" for p
    using h(2) that by (auto simp: ensure_header_def rewrite_file_def split: option.splits if_splits)
  moreover have "fs2 p = fs1 p" if "p \<noteq> ?snap" for p
    using e that by (auto simp: ensure_snapshot_header_def rewrite_file_def split: option.splits if_splits)
  ultimately show ?thesis by (intro exI[of _ fs2]) simp
qed

lemma actor_new_booked:
  assumes "actor_new lib dec io ms cfg symbol mkt acct rate bbo der fs = (Some a, fs')"
  shows "booked lib T (pa_realized a) (pa_fills a) (pa_notional a) [] a" "pa_pending a = []"
proof -
  from actor_new_restored[OF assms] obtain fs2 where a: "a = snd (pnl_summary_of ms (restored_actor ms (si_session_stamp io) cfg symbol mkt acct rate bbo der
      (persist_dir cfg @ ''/trades_'' @ symbol @ ''.csv'') (store_new (persist_dir cfg) symbol)
      (load dec fs2 (store_new (persist_dir cfg) symbol))))" (is "a = snd (pnl_summary_of ms ?r)")
    by blast
  have e: "books a = books ?r" unfolding a by simp
  then have "pa_realized a = pa_realized ?r" "pa_fills a = pa_fills ?r" "pa_notional a = pa_notional ?r" "pa_pending a = pa_pending ?r"
    by (simp_all add: books_def)
  then show "booked lib T (pa_realized a) (pa_fills a) (pa_notional a) [] a" "pa_pending a = []"
    using booked_cong[OF e] restored_actor_booked by metis+
qed

fun input_trades :: "actor_step \<Rightarrow> trade_payload set" where
  "input_trades (_, _, Received e) = event_trades e"
| "input_trades _ = {}"

lemma run_booked:
  assumes "booked lib T r0 k0 v0 rows a" "\<forall>x \<in> set xs. input_trades x \<subseteq> T" "\<forall>(ms, io, inp) \<in> set xs. fi_log io = Written"
    "run lib xs a fs rows = (a', fs', rows')"
  shows "booked lib T r0 k0 v0 rows' a'"
  using assms
proof (induction xs arbitrary: a fs rows)
  case Nil
  then show ?case by simp
next
  case (Cons x xs)
  obtain ms io inp where x: "x = (ms, io, inp)" "fi_log io = Written" using Cons.prems(3) by (cases x) auto
  obtain a1 fs1 where fl: "flush_all lib ms io a fs = (a1, fs1)" by fastforce
  have a1: "booked lib T r0 k0 v0 (rows @ rows_out io a) a1" using flush_all_booked[OF Cons.prems(1) x(2), of ms fs] fl by simp
  have a2: "booked lib T r0 k0 v0 (rows @ rows_out io a) (snd (pnl_summary_of ms a1))" using a1 booked_cong[OF summary_books(1)] by blast
  have ev: "booked lib T r0 k0 v0 rows (handle_event lib ms a e)" if "inp = Received e" for e
    by (rule handle_event_booked[OF Cons.prems(1)]) (use Cons.prems(2) x that in auto)
  note IH = Cons.IH[OF _ _ _]
  show ?case
    using Cons.prems(2-4) x(1) fl a1 a2 ev IH
    by (auto simp: Let_def split: actor_input.splits pnl_event.splits prod.splits)
qed

section \<open>Snapshots and late attribution\<close>

definition handle_events :: "text_lib \<Rightarrow> pnl_actor \<Rightarrow> (clock \<times> pnl_event) list \<Rightarrow> pnl_actor" where
  "handle_events lib a evs = foldl (\<lambda>a (ms, e). handle_event lib ms a e) a evs"

text \<open>Every queued trade carries a generation the actor has already reached.\<close>

definition queued_before :: "nat \<Rightarrow> pnl_actor \<Rightarrow> bool" where
  "queued_before k a \<longleftrightarrow> (\<forall>(t, g) \<in> set (pa_pending a). g < k)"

definition resyncs :: "position_snapshot \<Rightarrow> bool" where
  "resyncs p \<longleftrightarrow> \<bar>ps_signed_position p\<bar> < EPSILON \<or> ps_entry_vwap p \<noteq> None"

abbreviation any_books :: "text_lib \<Rightarrow> pnl_actor \<Rightarrow> bool" where
  "any_books lib a \<equiv> \<exists>r0 k0 v0 P. booked lib UNIV r0 k0 v0 P a"

lemma try_accept_pending:
  "try_accept_trade lib ms t g a = (d, a') \<Longrightarrow> pa_pending a' = pa_pending a \<and> pa_generation a' = pa_generation a"
  unfolding try_accept_trade_def
  by (auto simp: Let_def book_trade_effect(3,7) split: option.splits if_splits bool.splits)

lemma process_or_queue_generation:
  assumes "queued_before (Suc (pa_generation a)) a"
  shows "queued_before (Suc (pa_generation a)) (process_or_queue lib ms t a) \<and> pa_generation (process_or_queue lib ms t a) = pa_generation a"
  using assms unfolding process_or_queue_def queued_before_def
  by (auto simp: Let_def drop_excess_def dest!: try_accept_pending in_set_dropD
      split: option.splits trade_decision.splits prod.splits)

lemma process_trades_generation:
  assumes "queued_before (Suc (pa_generation a)) a"
  shows "queued_before (Suc (pa_generation a)) (foldl (\<lambda>a t. process_or_queue lib ms t a) a ts) \<and>
         pa_generation (foldl (\<lambda>a t. process_or_queue lib ms t a) a ts) = pa_generation a"
  using assms
proof (induction ts arbitrary: a)
  case (Cons t ts)
  show ?case using Cons.IH[of "process_or_queue lib ms t a"] process_or_queue_generation[OF Cons.prems, of lib ms t] by simp
qed simp

lemma retry_pending_generation:
  assumes "any_books lib a"
  shows "queued_before k a \<Longrightarrow> queued_before k (retry_pending lib ms a)" "pa_generation (retry_pending lib ms a) = pa_generation a"
    "queued_before (pa_generation a) a \<Longrightarrow> pa_accounting (retry_pending lib ms a) = pa_accounting a"
  using assms retry_pending_booked unfolding queued_before_def by blast+

lemma update_position_generation:
  "pa_pending (update_position p a) = pa_pending a" "pa_generation (update_position p a) = pa_generation a + of_bool (resyncs p)"
  "resyncs p \<Longrightarrow> position_size (pa_accounting (update_position p a)) = ps_signed_position p \<and>
     entry_vwap (pa_accounting (update_position p a)) = (case ps_entry_vwap p of None \<Rightarrow> 0 | Some v \<Rightarrow> v)"
  by (auto simp: update_position_def resyncs_def Let_def from_snapshot_def)

lemma handle_event_any_books: "any_books lib a \<Longrightarrow> any_books lib (handle_event lib ms a e)"
  using handle_event_booked[of lib UNIV] by (meson subset_UNIV)

lemma process_trades_any_books: "any_books lib a \<Longrightarrow> any_books lib (foldl (\<lambda>a t. process_or_queue lib ms t a) a ts)"
  using process_trades_booked[of lib UNIV] by (meson subset_UNIV)

lemma register_any_books: "any_books lib a \<Longrightarrow> any_books lib (foldl (\<lambda>a i. register_id i a) a ids)"
  using booked_cong register_ids_frame(1) by meson

lemma account_event_generation:
  fixes a lib ms position ts
  defines "a' \<equiv> handle_event lib ms a (AccountAll position ts)"
  assumes "any_books lib a" "queued_before (Suc (pa_generation a)) a"
  shows "queued_before (Suc (pa_generation a')) a'"
    "position = Some p \<Longrightarrow> resyncs p \<Longrightarrow>
       queued_before (pa_generation a') a' \<and> position_size (pa_accounting a') = ps_signed_position p \<and>
       entry_vwap (pa_accounting a') = (case ps_entry_vwap p of None \<Rightarrow> 0 | Some v \<Rightarrow> v)"
proof -
  define b where "b = foldl (\<lambda>a t. process_or_queue lib ms t a) a ts"
  define c where "c = retry_pending lib ms b"
  have b: "any_books lib b" "queued_before (Suc (pa_generation a)) b" "pa_generation b = pa_generation a"
    unfolding b_def using process_trades_any_books[OF assms(2)] process_trades_generation[OF assms(3)] by auto
  have c: "queued_before (Suc (pa_generation a)) c" "pa_generation c = pa_generation a"
    unfolding c_def using retry_pending_generation[OF b(1)] b(2,3) by auto
  have a': "a' = (case position of None \<Rightarrow> c | Some p \<Rightarrow> update_position p c)"
    unfolding a'_def c_def b_def handle_event_def Let_def by simp
  show "queued_before (Suc (pa_generation a')) a'"
    using c update_position_generation(1,2) unfolding a' queued_before_def by (fastforce split: option.splits)
  show "position = Some p \<Longrightarrow> resyncs p \<Longrightarrow>
       queued_before (pa_generation a') a' \<and> position_size (pa_accounting a') = ps_signed_position p \<and>
       entry_vwap (pa_accounting a') = (case ps_entry_vwap p of None \<Rightarrow> 0 | Some v \<Rightarrow> v)"
    using c update_position_generation[where p = p and a = c] unfolding a' queued_before_def by simp
qed

fun is_account_all :: "pnl_event \<Rightarrow> bool" where
  "is_account_all (AccountAll _ _) = True"
| "is_account_all _ = False"

lemma other_event_generation:
  assumes "any_books lib a" "\<not> is_account_all e"
  shows "pa_generation (handle_event lib ms a e) = pa_generation a"
    "queued_before k a \<Longrightarrow> queued_before k (handle_event lib ms a e)"
    "queued_before (pa_generation a) a \<Longrightarrow> pa_accounting (handle_event lib ms a e) = pa_accounting a"
proof -
  let ?r = "\<lambda>ids. foldl (\<lambda>a i. register_id i a) a ids"
  have r: "queued_before m (?r ids) = queued_before m a" for m ids by (simp add: queued_before_def)
  note rp = retry_pending_generation[OF register_any_books[OF assms(1)]]
  show "pa_generation (handle_event lib ms a e) = pa_generation a"
    using assms(2) rp(2) by (cases e) (simp_all add: handle_event_def)
  show "queued_before k (handle_event lib ms a e)" if "queued_before k a"
    using assms(2) that rp(1) r by (cases e) (simp_all add: handle_event_def queued_before_def)
  show "pa_accounting (handle_event lib ms a e) = pa_accounting a" if "queued_before (pa_generation a) a"
    using assms(2) that rp(3) r by (cases e) (simp_all add: handle_event_def)
qed

text \<open>Two invariants of the event loop: one of every run, one of the runs without account messages.\<close>

interpretation pnl: step_system "\<lambda>a (ms, e). handle_event lib ms a e" "\<lambda>_ _. True"
  "\<lambda>a. any_books lib a \<and> queued_before (Suc (pa_generation a)) a" for lib
proof
  fix a :: pnl_actor and x :: "clock \<times> pnl_event"
  assume a: "any_books lib a \<and> queued_before (Suc (pa_generation a)) a"
  obtain ms e where x: "x = (ms, e)" by fastforce
  have "queued_before (Suc (pa_generation (handle_event lib ms a e))) (handle_event lib ms a e)"
    using account_event_generation(1)[of lib a] other_event_generation[of lib a e] a by (cases "is_account_all e"; cases e) auto
  then show "any_books lib (case x of (ms, e) \<Rightarrow> handle_event lib ms a e) \<and>
      queued_before (Suc (pa_generation (case x of (ms, e) \<Rightarrow> handle_event lib ms a e))) (case x of (ms, e) \<Rightarrow> handle_event lib ms a e)"
    using handle_event_any_books a x by simp
qed

interpretation synced: step_system "\<lambda>a (ms, e). handle_event lib ms a e" "\<lambda>_ (ms, e). \<not> is_account_all e"
  "\<lambda>a. any_books lib a \<and> queued_before (pa_generation a) a \<and> pa_accounting a = acc" for lib acc
proof
  fix a :: pnl_actor and x :: "clock \<times> pnl_event"
  assume a: "any_books lib a \<and> queued_before (pa_generation a) a \<and> pa_accounting a = acc" and x: "case x of (ms, e) \<Rightarrow> \<not> is_account_all e"
  obtain ms e where xe: "x = (ms, e)" by fastforce
  then have "\<not> is_account_all e" using x by simp
  note o = other_event_generation[OF conjunct1[OF a] this, where ms = ms]
  show "any_books lib (case x of (ms, e) \<Rightarrow> handle_event lib ms a e) \<and>
      queued_before (pa_generation (case x of (ms, e) \<Rightarrow> handle_event lib ms a e)) (case x of (ms, e) \<Rightarrow> handle_event lib ms a e) \<and>
      pa_accounting (case x of (ms, e) \<Rightarrow> handle_event lib ms a e) = acc"
    using o a handle_event_any_books[OF conjunct1[OF a]] by (simp add: xe)
qed

lemma handle_events_generation:
  assumes "any_books lib a" "queued_before (Suc (pa_generation a)) a"
  shows "any_books lib (handle_events lib a evs) \<and> queued_before (Suc (pa_generation (handle_events lib a evs))) (handle_events lib a evs)"
  unfolding handle_events_def by (rule pnl.run_inv) (use assms in auto)

lemma admitted_pure: "admitted (\<lambda>_. ok) step s es \<longleftrightarrow> (\<forall>e \<in> set es. ok e)"
  by (induction es arbitrary: s) auto

lemma other_events_keep_accounting:
  assumes "any_books lib a" "queued_before (pa_generation a) a" "\<forall>(ms, e) \<in> set evs. \<not> is_account_all e"
  shows "pa_accounting (handle_events lib a evs) = pa_accounting a"
  using synced.run_inv[where acc = "pa_accounting a" and s = a and es = evs and lib = lib] assms
  by (simp add: handle_events_def admitted_pure)

section \<open>Properties\<close>

text \<open>
  C16. Fills are booked once, as far as the memory for trade ids reaches. Whatever events the actor
  receives, as long as its trade log can be written: every row of the log is the fill (side, price, size, notional)
  of a received trade, and the trade ids of the rows, in order, are such that any ten thousand
  consecutive ones (\<open>ID_SET_CAP\<close>) are distinct, so a trade is booked again only after ten thousand others;
  the ids remembered are those of the latest rows. Each row is one fill and one side count, the strategy's and the unattributed
  PnL together move by exactly the rows' PnL, the notional by the rows' notional, and the queue of
  unattributed trades stays bounded.
\<close>
theorem fills_booked_once:
  assumes "actor_new lib dec io ms cfg symbol mkt acct rate bbo der fs0 = (Some a0, fs)"
    "run lib xs a0 fs [] = (a, fs', written)" "\<forall>(ms, io, inp) \<in> set xs. fi_log io = Written"
  shows "let rows = written @ pa_log a; n = length rows
         in pa_fills a = pa_fills a0 + n \<and> pa_buys a + pa_sells a = n \<and>
            pa_realized a + pa_unattributed a = pa_realized a0 + sum_list (map tr_realized_pnl rows) \<and>
            pa_notional a = pa_notional a0 + sum_list (map (the \<circ> tr_notional_usd) rows) \<and>
            pa_seen a = set (pa_seen_order a) \<and> length (pa_pending a) \<le> PENDING_LIMIT \<and>
            (\<exists>ids. pa_seen_order a = drop (n - ID_SET_CAP) ids \<and> (\<forall>k. distinct (take ID_SET_CAP (drop k ids))) \<and>
               list_all2 (\<lambda>i row. \<exists>x \<in> set xs. \<exists>t \<in> input_trades x. \<exists>f.
                 trade_id t = Some i \<and> from_trade lib t (pa_account_index a) = Some f \<and>
                 tr_side row = as_str (fv_side f) \<and> tr_price row = fv_price f \<and> tr_size row = fv_size f \<and>
                 tr_notional_usd row = Some (fv_notional f)) ids rows)"
proof -
  have b: "booked lib (\<Union>x \<in> set xs. input_trades x) (pa_realized a0) (pa_fills a0) (pa_notional a0) written a"
    by (rule run_booked[OF actor_new_booked(1)[OF assms(1)] _ assms(3,2)]) auto
  have "row_of lib (pa_account_index a) (\<Union>x \<in> set xs. input_trades x) i row \<Longrightarrow>
      \<exists>x \<in> set xs. \<exists>t \<in> input_trades x. \<exists>f. trade_id t = Some i \<and> from_trade lib t (pa_account_index a) = Some f \<and>
        tr_side row = as_str (fv_side f) \<and> tr_price row = fv_price f \<and> tr_size row = fv_size f \<and> tr_notional_usd row = Some (fv_notional f)" for i row
    by (auto simp: row_of_def)
  note rows = list_all2_mono[OF _ this]
  obtain ids where "pa_seen_order a = drop (length (written @ pa_log a) - ID_SET_CAP) ids" "\<forall>k. distinct (take ID_SET_CAP (drop k ids))"
    "list_all2 (row_of lib (pa_account_index a) (\<Union>x \<in> set xs. input_trades x)) ids (written @ pa_log a)"
    using b by (auto simp: booked_def spaced_def Let_def)
  with rows[OF this(3)] b show ?thesis
    unfolding Let_def by (intro conjI exI[of _ ids]) (simp_all add: booked_def fifo_ok_def Let_def)
qed

definition sample_trade :: trade_payload where
  "sample_trade =
     \<lparr>trade_type = None, tp_price = Some ''2'', tp_size = Some ''2'', usd_amount = None, is_maker_ask = None, ask_id = None, bid_id = Some 5,
      ask_client_id = None, bid_client_id = Some 9, ask_account_id = None, bid_account_id = Some 1, ask_account_pnl = None,
      bid_account_pnl = None, tp_maker_fee = None, tp_taker_fee = None, timestamp = None, transaction_time = None, trade_id = Some 7\<rparr>"

definition sample_lib :: text_lib where
  "sample_lib = \<lparr>tl_float = (\<lambda>_. Some 2), tl_stamp = (\<lambda>_. None), tl_csv = sample_csv, tl_summary = (\<lambda>_. []), tl_state = (\<lambda>_. [])\<rparr>"

definition sample_atomic :: atomic_io where
  "sample_atomic = \<lparr>ai_dir = True, ai_write = Written, ai_rename = True, ai_remove = True, ai_pid = 1, ai_nanos = 0\<rparr>"

definition sample_start :: start_io where
  "sample_start =
     \<lparr>si_dir = True, si_log = \<lparr>hi_metadata = True, hi_read = True, hi_rename = True, hi_write = Written, hi_stamp = []\<rparr>,
      si_snap_metadata = True, si_snap_header = Written, si_summary = sample_atomic, si_session_stamp = ''s''\<rparr>"

definition sample_flush :: flush_io where
  "sample_flush = \<lparr>fi_log = Written, fi_snap_metadata = True, fi_snap_header = Written, fi_snap = Written, fi_summary = sample_atomic, fi_state = sample_atomic\<rparr>"

definition sample_new :: "pnl_actor option \<times> files" where
  "sample_new = actor_new sample_lib (\<lambda>_. None) sample_start (0, ''t'') default_pnl_cfg ''BTC'' 1 1 0 (bbo_new 1) derived_new (\<lambda>_. None)"

definition sample_actor :: pnl_actor where
  "sample_actor = the (fst sample_new)"

text \<open>A trade that arrives twice after its client id is registered is booked once.\<close>

definition sample_inputs :: "actor_step list" where
  "sample_inputs =
     [((0, []), sample_flush, Received (RegisterClientIds [9])),
      ((0, []), sample_flush, Received (AccountAll None [sample_trade, sample_trade]))]"

lemma sample_new_actor: "sample_new = (Some sample_actor, snd sample_new)"
proof -
  have "fst sample_new \<noteq> None"
    by (simp add: sample_new_def actor_new_def sample_start_def logger_new_def ensure_header_def ensure_snapshot_header_def rewrite_file_def
        default_pnl_cfg_def Let_def split: prod.splits)
  then show ?thesis unfolding sample_actor_def by (metis option.collapse prod.collapse)
qed

lemma sample_actor_eq:
  "sample_actor = snd (pnl_summary_of (0, ''t'') (restored_actor (0, ''t'') ''s'' default_pnl_cfg ''BTC'' 1 1 0 (bbo_new 1) derived_new
     (''logs/trades_'' @ ''BTC'' @ ''.csv'') (store_new ''logs'' ''BTC'') default_live_state))"
proof -
  from actor_new_restored[OF sample_new_actor[unfolded sample_new_def]]
  obtain fs2 where "sample_actor = snd (pnl_summary_of (0, ''t'') (restored_actor (0, ''t'') ''s'' default_pnl_cfg ''BTC'' 1 1 0 (bbo_new 1)
      derived_new (''logs/trades_'' @ ''BTC'' @ ''.csv'') (store_new ''logs'' ''BTC'') (load (\<lambda>_. None) fs2 (store_new ''logs'' ''BTC''))))"
    by (auto simp: sample_start_def default_pnl_cfg_def)
  then show ?thesis by (simp add: load_def split: option.splits)
qed

lemmas actor_eval =
  sample_actor_eq sample_inputs_def sample_trade_def restored_actor_def default_pnl_cfg_def default_live_state_def store_new_def
  pnl_summary_of_def refresh_mid_def derived_new_def bbo_new_def bbo_mid_def handle_event_def process_or_queue_def try_accept_trade_def
  from_trade_def parse_opt_f64_def book_trade_def mark_seen_def bounded_insert_def retry_pending_def register_id_def forget_pending_def
  remember_pending_def drop_excess_def accounting_new_def apply_fill_accounting_def signed_fill_def unrealized_pnl_def open_position_def
  actor_entry_vwap_def ID_SET_CAP_def PENDING_LIMIT_def EPSILON_def sample_lib_def

lemma fills_booked_once_witness:
  "case run sample_lib sample_inputs sample_actor (snd sample_new) [] of
     (a, fs, written) \<Rightarrow>
       pa_fills a = pa_fills sample_actor + length (written @ pa_log a) \<and> pa_seen a = set (pa_seen_order a) \<and> pa_fills a = 1"
proof -
  obtain a fs w where r: "run sample_lib sample_inputs sample_actor (snd sample_new) [] = (a, fs, w)" by (metis prod.exhaust)
  have "pa_fills (fst (run sample_lib sample_inputs sample_actor (snd sample_new) [])) = 1" by (simp add: actor_eval)
  then have "pa_fills a = 1" by (simp add: r)
  moreover have "\<forall>(ms, io, inp) \<in> set sample_inputs. fi_log io = Written" by (simp add: sample_inputs_def sample_flush_def)
  from fills_booked_once[OF sample_new_actor[unfolded sample_new_def] r[unfolded sample_new_def] this]
  have "pa_fills a = pa_fills sample_actor + length (w @ pa_log a) \<and> pa_seen a = set (pa_seen_order a)" by (simp add: Let_def)
  ultimately show ?thesis using r by simp
qed

text \<open>
  C17. A position snapshot is never counted twice: once the exchange's position has been taken
  over, the estimate stays at it however many earlier trades are attributed afterwards, whatever
  was queued before.
\<close>
theorem snapshot_counted_once:
  assumes "actor_new lib dec io ms0 cfg symbol mkt acct rate bbo der fs0 = (Some a0, fs)" "resyncs p"
    "\<forall>(ms, e) \<in> set later. \<not> is_account_all e"
  shows "let a = handle_events lib a0 (before @ (ms, AccountAll (Some p) trades) # later)
         in position_size (pa_accounting a) = ps_signed_position p \<and>
            entry_vwap (pa_accounting a) = (case ps_entry_vwap p of None \<Rightarrow> 0 | Some v \<Rightarrow> v)"
proof -
  define b where "b = handle_events lib a0 before"
  define c where "c = handle_event lib ms b (AccountAll (Some p) trades)"
  have "any_books lib a0" using actor_new_booked(1)[OF assms(1)] by blast
  moreover have "queued_before (Suc (pa_generation a0)) a0" using actor_new_booked(2)[OF assms(1)] by (simp add: queued_before_def)
  ultimately have b: "any_books lib b" "queued_before (Suc (pa_generation b)) b"
    unfolding b_def using handle_events_generation by blast+
  note c = account_event_generation(2)[OF b refl assms(2), where ms = ms and ts = trades, folded c_def]
  have "any_books lib c" unfolding c_def by (rule handle_event_any_books[OF b(1)])
  then have "pa_accounting (handle_events lib c later) = pa_accounting c"
    using c assms(3) by (blast intro: other_events_keep_accounting)
  moreover have "handle_events lib a0 (before @ (ms, AccountAll (Some p) trades) # later) = handle_events lib c later"
    by (simp add: handle_events_def b_def c_def)
  ultimately show ?thesis using c by (simp add: Let_def)
qed

lemma snapshot_counted_once_witness:
  "position_size (pa_accounting (handle_events sample_lib sample_actor
     ([] @ ((0, []), AccountAll (Some \<lparr>ps_signed_position = 2, ps_entry_vwap = Some 2\<rparr>) [sample_trade]) # [((0, []), RegisterClientIds [9])]))) = 2"
  using snapshot_counted_once[OF sample_new_actor[unfolded sample_new_def], where before = "[]" and ms = "(0, [])" and
      trades = "[sample_trade]" and p = "\<lparr>ps_signed_position = 2, ps_entry_vwap = Some 2\<rparr>" and later = "[((0, []), RegisterClientIds [9])]"]
  by (simp add: resyncs_def Let_def)

lemma state_path_apart:
  "st_path (store_new d s) \<notin> {d @ ''/trades_'' @ s @ ''.csv'', aside_path (d @ ''/trades_'' @ s @ ''.csv'') x,
     d @ ''/pnl_snapshots_'' @ s @ ''.csv''}"
  by (simp add: store_new_def aside_path_def)

lemma flush_all_saves:
  assumes "flush_all lib ms io a fs = (a', fs')" "all_written (fi_state io)"
  shows "fs' (st_path (pa_store a)) = Some (tl_state lib (stamped (snd ms) (pa_store a) (live_state_of a')) @ [CHR 10])"
    "books a' = books (a\<lparr>pa_log := []\<rparr>)" "pa_accounting a' = pa_accounting a" "pa_account_index a' = pa_account_index a"
    "pa_market_id a' = pa_market_id a"
proof -
  have a': "a' = snd (pnl_summary_of ms (a\<lparr>pa_log := []\<rparr>))" using flush_all_actor assms(1) by (metis fst_conv)
  then show "books a' = books (a\<lparr>pa_log := []\<rparr>)" "pa_accounting a' = pa_accounting a" "pa_account_index a' = pa_account_index a"
      "pa_market_id a' = pa_market_id a" by simp_all
  have st: "pa_store a' = pa_store a" unfolding a' by simp
  have "\<exists>g ok. save (tl_state lib) (snd ms) (fi_state io) g (pa_store a') (live_state_of a') = (ok, fs')"
    using assms(1) by (auto simp: flush_all_def Let_def split: prod.splits)
  then show "fs' (st_path (pa_store a)) = Some (tl_state lib (stamped (snd ms) (pa_store a) (live_state_of a')) @ [CHR 10])"
    unfolding st using save_writes assms(2) by blast
qed

text \<open>
  A restart loses nothing: after a flush whose save succeeds, an actor started on the stored
  file for the same account and market has the cumulative PnL, fill count, notional and position
  estimate of the one that stopped, provided the file reads back as the state written.
\<close>
theorem restart_restores:
  assumes "flush_all lib ms io a fs = (a', fs')" "all_written (fi_state io)" "snd ms \<noteq> []" "pa_store a = store_new (persist_dir cfg) symbol"
    "dec (tl_state lib (stamped (snd ms) (pa_store a) (live_state_of a')) @ [CHR 10]) = Some (stamped (snd ms) (pa_store a) (live_state_of a'))"
    "actor_new lib dec io' ms' cfg symbol (pa_market_id a) (pa_account_index a) rate bbo der fs' = (Some b, fs'')"
  shows "pa_realized b = pa_realized a \<and> pa_fills b = pa_fills a \<and> pa_notional b = pa_notional a \<and>
         position_size (pa_accounting b) = position_size (pa_accounting a) \<and> entry_vwap (pa_accounting b) = entry_vwap (pa_accounting a)"
proof -
  let ?st = "store_new (persist_dir cfg) symbol"
  note f = flush_all_saves[OF assms(1,2)]
  from actor_new_restored[OF assms(6)] obtain fs2 where
    b: "b = snd (pnl_summary_of ms' (restored_actor ms' (si_session_stamp io') cfg symbol (pa_market_id a) (pa_account_index a) rate bbo der
          (persist_dir cfg @ ''/trades_'' @ symbol @ ''.csv'') ?st (load dec fs2 ?st)))" (is "b = snd (pnl_summary_of ms' ?r)")
    and fs2: "fs2 (st_path ?st) = fs' (st_path ?st)"
    using state_path_apart by metis
  have "load dec fs2 ?st = stamped (snd ms) ?st (live_state_of a')" using f(1) fs2 assms(4,5) by (simp add: load_def)
  moreover have "books b = books ?r" "pa_accounting b = pa_accounting ?r" unfolding b by simp_all
  ultimately show ?thesis
    using assms(3) f(2-5) by (simp add: restored_actor_def Let_def stamped_def live_state_of_def books_def from_snapshot_def)
qed

lemma restart_restores_witness:
  "let f = flush_all sample_lib (0, ''t'') sample_flush sample_actor (snd sample_new);
       dec = (\<lambda>_. Some (stamped ''t'' (pa_store sample_actor) (live_state_of (fst f))));
       b = the (fst (actor_new sample_lib dec sample_start (0, ''t'') default_pnl_cfg ''BTC'' (pa_market_id sample_actor)
                       (pa_account_index sample_actor) 0 (bbo_new 1) derived_new (snd f)))
   in pa_fills b = pa_fills sample_actor"
proof -
  obtain a' fs' where f: "flush_all sample_lib (0, ''t'') sample_flush sample_actor (snd sample_new) = (a', fs')" by fastforce
  define dec where "dec = (\<lambda>_ :: string. Some (stamped ''t'' (pa_store sample_actor) (live_state_of a')))"
  let ?new = "actor_new sample_lib dec sample_start (0, ''t'') default_pnl_cfg ''BTC'' (pa_market_id sample_actor)
                (pa_account_index sample_actor) 0 (bbo_new 1) derived_new fs'"
  have "pa_store sample_actor = store_new (persist_dir default_pnl_cfg) ''BTC''"
    by (simp add: sample_actor_eq restored_actor_def default_pnl_cfg_def Let_def)
  moreover have "fst ?new \<noteq> None"
    by (simp add: actor_new_def sample_start_def logger_new_def ensure_header_def ensure_snapshot_header_def rewrite_file_def
        Let_def split: prod.splits option.splits)
  then obtain b fs'' where n: "?new = (Some b, fs'')" by (metis option.exhaust prod.collapse)
  ultimately have "pa_fills b = pa_fills sample_actor"
    using restart_restores[OF f _ _ _ _ n] by (simp add: sample_flush_def sample_atomic_def all_written_def dec_def)
  then show ?thesis using n by (simp add: f dec_def Let_def)
qed

end
