(* ===== verification/Depth_Sync.thy ===== *)
theory Depth_Sync
  imports Json Local_Book Rolling Shared Util
begin

text \<open>
  \<^verbatim>\<open>src/src/binance/depth_client.rs\<close> and \<^verbatim>\<open>src/src/binance/obi.rs\<close>: the local copy of an external order book,
  kept in step by the sequence numbers of its diff stream, and the alpha computed from it. A
  session is a state machine over what the socket and the snapshot request deliver; the messages
  that arrive while a snapshot is fetched come with it. A resync clears the book and the published
  alpha in the step that asks for it; the code does so after a pause of \<open>RESYNC_PAUSE\<close>, in which it
  reads nothing and still publishes the last alpha. The string-to-float parser is the parameter \<open>fp\<close>.
\<close>

section \<open>The book and its alpha\<close>

record binance_obi =
  ob_book :: local_book
  ob_stats :: rolling_stats
  ob_looking_depth :: f64
  ob_last_update_id :: int
  ob_prev_u :: int
  ob_shared :: shared_alpha

definition obi_new :: "nat \<Rightarrow> f64 \<Rightarrow> shared_alpha \<Rightarrow> binance_obi option" where
  "obi_new win depth shared =
     map_option (\<lambda>st. \<lparr>ob_book = book_new, ob_stats = st, ob_looking_depth = depth, ob_last_update_id = 0,
                      ob_prev_u = 0, ob_shared = shared\<rparr>) (rolling_new win)"

definition obi_reset :: "binance_obi \<Rightarrow> binance_obi" where
  "obi_reset o' = o'\<lparr>ob_book := book_reset (ob_book o'), ob_stats := rolling_clear (ob_stats o'), ob_last_update_id := 0,
     ob_prev_u := 0, ob_shared := alpha_reset (ob_shared o')\<rparr>"

definition obi_apply_snapshot :: "binance_obi \<Rightarrow> (f64 \<times> f64) list \<Rightarrow> (f64 \<times> f64) list \<Rightarrow> int \<Rightarrow> binance_obi" where
  "obi_apply_snapshot o' bs as' lid =
     o'\<lparr>ob_book := apply_snapshot (ob_book o') bs as', ob_last_update_id := lid, ob_prev_u := 0\<rparr>"

definition apply_diff :: "binance_obi \<Rightarrow> (f64 \<times> f64) list \<Rightarrow> (f64 \<times> f64) list \<Rightarrow> int \<Rightarrow> binance_obi" where
  "apply_diff o' bs as' u = o'\<lparr>ob_book := apply_delta (ob_book o') bs as', ob_prev_u := u\<rparr>"

definition update_alpha :: "binance_obi \<Rightarrow> nat \<Rightarrow> binance_obi" where
  "update_alpha o' ms =
     (case (best_bid (ob_book o'), best_ask (ob_book o')) of
        (Some b, Some a) \<Rightarrow>
          (let mid = (b + a) * (1 / 2)
           in if mid \<le> 0 \<or> a \<le> b then o'
              else let lower = mid * (1 - ob_looking_depth o');
                       upper = mid * (1 + ob_looking_depth o');
                       imbalance = sum_sizes_from (bids (ob_book o')) lower - sum_sizes_to (asks (ob_book o')) upper;
                       st = push (ob_stats o') imbalance
                   in o'\<lparr>ob_stats := st, ob_shared := alpha_update (ob_shared o') ms (zscore st imbalance)\<rparr>)
      | _ \<Rightarrow> o')"

section \<open>The sequence rules\<close>

datatype event_action = Drop | ApplyFirst | Apply | Resync

definition classify_event :: "bool \<Rightarrow> int \<Rightarrow> int \<Rightarrow> int \<Rightarrow> int \<Rightarrow> int \<Rightarrow> event_action" where
  "classify_event synced last_update_id prev_u big_u u pu =
     (if \<not> synced
      then if u < last_update_id then Drop else if big_u \<le> last_update_id then ApplyFirst else Resync
      else if pu = prev_u then Apply else Resync)"

definition parse_level :: "(string \<Rightarrow> f64 option) \<Rightarrow> json \<Rightarrow> (f64 \<times> f64) option" where
  "parse_level fp lvl =
     (case json_array lvl of
        Some (x # y # _) \<Rightarrow>
          (case (Option.bind (json_str x) fp, Option.bind (json_str y) fp) of
             (Some p, Some q) \<Rightarrow> Some (p, q)
           | _ \<Rightarrow> None)
      | _ \<Rightarrow> None)"

definition parse_levels :: "(string \<Rightarrow> f64 option) \<Rightarrow> json option \<Rightarrow> (f64 \<times> f64) list" where
  "parse_levels fp v = (case v of Some (JArr arr) \<Rightarrow> List.map_filter (parse_level fp) arr | _ \<Rightarrow> [])"

definition depth_step :: "binance_obi \<Rightarrow> bool \<Rightarrow> json \<Rightarrow> event_action" where
  "depth_step o' synced event =
     classify_event synced (ob_last_update_id o') (ob_prev_u o') (int_field event ''U'' 0) (int_field event ''u'' 0)
       (int_field event ''pu'' 0)"

definition apply_event :: "(string \<Rightarrow> f64 option) \<Rightarrow> binance_obi \<Rightarrow> json \<Rightarrow> binance_obi" where
  "apply_event fp o' event =
     apply_diff o' (parse_levels fp (json_get event ''b'')) (parse_levels fp (json_get event ''a'')) (int_field event ''u'' 0)"

text \<open>The buffered events: \<open>None\<close> asks for another snapshot.\<close>

fun drain_buffer :: "(string \<Rightarrow> f64 option) \<Rightarrow> binance_obi \<Rightarrow> bool \<Rightarrow> json list \<Rightarrow> bool option \<times> binance_obi" where
  "drain_buffer fp o' synced [] = (Some synced, o')"
| "drain_buffer fp o' synced (e # es) =
     (case depth_step o' synced e of
        Drop \<Rightarrow> drain_buffer fp o' synced es
      | ApplyFirst \<Rightarrow> drain_buffer fp (apply_event fp o' e) True es
      | Apply \<Rightarrow> drain_buffer fp (apply_event fp o' e) synced es
      | Resync \<Rightarrow> (None, o'))"

definition apply_snapshot_and_drain :: "(string \<Rightarrow> f64 option) \<Rightarrow> binance_obi \<Rightarrow> json \<Rightarrow> json list \<Rightarrow> bool option \<times> binance_obi" where
  "apply_snapshot_and_drain fp o' snapshot evs =
     drain_buffer fp
       (obi_apply_snapshot o' (parse_levels fp (json_get snapshot ''bids'')) (parse_levels fp (json_get snapshot ''asks''))
          (int_field snapshot ''lastUpdateId'' 0))
       False evs"

section \<open>Sessions\<close>

definition MAX_RESYNC_ATTEMPTS :: nat where "MAX_RESYNC_ATTEMPTS = 5"

datatype depth_phase = Awaiting_Snapshot | Streaming bool \<comment> \<open>synced\<close> | Session_Over

record depth_session =
  ds_obi :: binance_obi
  ds_attempts :: nat
  ds_phase :: depth_phase
  ds_backoff :: f64

datatype depth_input =
    Snapshot_Reply json "json list" \<comment> \<open>the snapshot and the frames that came meanwhile\<close>
  | Live_Frame json nat
  | Socket_Lost \<comment> \<open>error, close, silence or a failed snapshot request\<close>
  | Reconnected duration \<comment> \<open>the age the finished session reached\<close>

definition is_diff :: "json \<Rightarrow> bool" where
  "is_diff v \<longleftrightarrow> json_get v ''U'' \<noteq> None \<and> json_get v ''u'' \<noteq> None"

definition reconnect_base :: f64 where "reconnect_base = 5"
definition reconnect_max :: f64 where "reconnect_max = 60"

text \<open>A desynchronised book: another snapshot in the session, up to the limit.\<close>

definition request_resync :: "depth_session \<Rightarrow> depth_session" where
  "request_resync s =
     (let n = ds_attempts s + 1
      in if MAX_RESYNC_ATTEMPTS \<le> n then s\<lparr>ds_attempts := n, ds_phase := Session_Over\<rparr>
         else s\<lparr>ds_attempts := n, ds_phase := Awaiting_Snapshot, ds_obi := obi_reset (ds_obi s)\<rparr>)"

definition on_snapshot :: "(string \<Rightarrow> f64 option) \<Rightarrow> depth_session \<Rightarrow> json \<Rightarrow> json list \<Rightarrow> depth_session" where
  "on_snapshot fp s snapshot frames =
     (case apply_snapshot_and_drain fp (ds_obi s) snapshot (filter is_diff frames) of
        (None, o') \<Rightarrow> request_resync (s\<lparr>ds_obi := o'\<rparr>)
      | (Some synced, o') \<Rightarrow>
          s\<lparr>ds_obi := o', ds_phase := Streaming synced, ds_attempts := (if synced then 0 else ds_attempts s)\<rparr>)"

definition on_live_event :: "(string \<Rightarrow> f64 option) \<Rightarrow> depth_session \<Rightarrow> bool \<Rightarrow> json \<Rightarrow> nat \<Rightarrow> depth_session" where
  "on_live_event fp s synced event ms =
     (if \<not> is_diff event then s
      else case depth_step (ds_obi s) synced event of
             Drop \<Rightarrow> s
           | ApplyFirst \<Rightarrow> s\<lparr>ds_obi := update_alpha (apply_event fp (ds_obi s) event) ms, ds_phase := Streaming True, ds_attempts := 0\<rparr>
           | Apply \<Rightarrow> s\<lparr>ds_obi := update_alpha (apply_event fp (ds_obi s) event) ms\<rparr>
           | Resync \<Rightarrow> request_resync s)"

text \<open>The reconnect loop of \<open>run\<close>: the backoff is updated from the session's age, and a new session starts from a cleared book.\<close>

definition depth_session_step :: "(string \<Rightarrow> f64 option) \<Rightarrow> depth_session \<Rightarrow> depth_input \<Rightarrow> depth_session" where
  "depth_session_step fp s i =
     (case i of
        Snapshot_Reply snapshot frames \<Rightarrow> if ds_phase s = Awaiting_Snapshot then on_snapshot fp s snapshot frames else s
      | Live_Frame event ms \<Rightarrow> (case ds_phase s of Streaming synced \<Rightarrow> on_live_event fp s synced event ms | _ \<Rightarrow> s)
      | Socket_Lost \<Rightarrow> s\<lparr>ds_phase := Session_Over\<rparr>
      | Reconnected age \<Rightarrow>
          if ds_phase s = Session_Over
          then s\<lparr>ds_phase := Awaiting_Snapshot, ds_attempts := 0, ds_obi := obi_reset (ds_obi s),
                 ds_backoff := next_reconnect_backoff (ds_backoff s) reconnect_base reconnect_max age\<rparr>
          else s)"

definition depth_start :: "binance_obi \<Rightarrow> depth_session" where
  "depth_start o' = \<lparr>ds_obi = obi_reset o', ds_attempts = 0, ds_phase = Awaiting_Snapshot, ds_backoff = reconnect_base\<rparr>"

section \<open>The book follows the exchange\<close>

text \<open>
  \<open>B v\<close> and \<open>A v\<close>: the exchange's bid and ask levels after its update \<open>v\<close>. A snapshot shows them
  as of its \<open>lastUpdateId\<close>, each price once; a diff event gives the absolute sizes of every level
  changed between its first and last update, and since \<open>pu\<close>, the last update of the event before it.
\<close>

definition overlay :: "(f64 \<rightharpoonup> f64) \<Rightarrow> (f64 \<times> f64) list \<Rightarrow> f64 \<rightharpoonup> f64" where
  "overlay m ds x = (case map_of (rev ds) x of None \<Rightarrow> m x | Some q \<Rightarrow> if q = 0 then None else Some q)"

definition true_snapshot :: "(string \<Rightarrow> f64 option) \<Rightarrow> (int \<Rightarrow> f64 \<rightharpoonup> f64) \<Rightarrow> (int \<Rightarrow> f64 \<rightharpoonup> f64) \<Rightarrow> json \<Rightarrow> bool" where
  "true_snapshot fp B A v \<longleftrightarrow>
     (let bs = parse_levels fp (json_get v ''bids''); as' = parse_levels fp (json_get v ''asks''); l = int_field v ''lastUpdateId'' 0
      in distinct (map fst bs) \<and> distinct (map fst as') \<and> last_write bs = B l \<and> last_write as' = A l)"

definition true_event :: "(string \<Rightarrow> f64 option) \<Rightarrow> (int \<Rightarrow> f64 \<rightharpoonup> f64) \<Rightarrow> (int \<Rightarrow> f64 \<rightharpoonup> f64) \<Rightarrow> json \<Rightarrow> bool" where
  "true_event fp B A v \<longleftrightarrow>
     (\<forall>k. int_field v ''U'' 0 \<le> k \<and> k \<le> int_field v ''u'' 0 \<or> k = int_field v ''pu'' 0 \<longrightarrow>
        overlay (B k) (parse_levels fp (json_get v ''b'')) = B (int_field v ''u'' 0) \<and>
        overlay (A k) (parse_levels fp (json_get v ''a'')) = A (int_field v ''u'' 0))"

definition true_input :: "(string \<Rightarrow> f64 option) \<Rightarrow> (int \<Rightarrow> f64 \<rightharpoonup> f64) \<Rightarrow> (int \<Rightarrow> f64 \<rightharpoonup> f64) \<Rightarrow> depth_input \<Rightarrow> bool" where
  "true_input fp B A i =
     (case i of
        Snapshot_Reply v frames \<Rightarrow> true_snapshot fp B A v \<and> (\<forall>e \<in> set frames. is_diff e \<longrightarrow> true_event fp B A e)
      | Live_Frame e _ \<Rightarrow> is_diff e \<longrightarrow> true_event fp B A e
      | _ \<Rightarrow> True)"

definition shows_at :: "(int \<Rightarrow> f64 \<rightharpoonup> f64) \<Rightarrow> (int \<Rightarrow> f64 \<rightharpoonup> f64) \<Rightarrow> int \<Rightarrow> binance_obi \<Rightarrow> bool" where
  "shows_at B A k o' \<longleftrightarrow> book_inv (ob_book o') \<and> level_map (bids (ob_book o')) = B k \<and> level_map (asks (ob_book o')) = A k"

definition follows :: "(int \<Rightarrow> f64 \<rightharpoonup> f64) \<Rightarrow> (int \<Rightarrow> f64 \<rightharpoonup> f64) \<Rightarrow> bool \<Rightarrow> binance_obi \<Rightarrow> bool" where
  "follows B A synced o' \<longleftrightarrow> shows_at B A (if synced then ob_prev_u o' else ob_last_update_id o') o'"

lemma level_map_delta: "side_inv s \<Longrightarrow> level_map (side_apply_delta s ds) = overlay (level_map s) ds"
  by (rule ext) (simp add: overlay_def side_apply_delta_def side_levels.puts_last_write)

lemma follows_snapshot:
  assumes "true_snapshot fp B A v"
  shows "follows B A False (obi_apply_snapshot o' (parse_levels fp (json_get v ''bids'')) (parse_levels fp (json_get v ''asks''))
    (int_field v ''lastUpdateId'' 0))"
  using assms
  by (simp add: true_snapshot_def follows_def shows_at_def obi_apply_snapshot_def apply_snapshot_def book_inv_def side_inv_snapshot
      last_write_snapshot Let_def)

lemma shows_after_event:
  assumes "shows_at B A k o'" "true_event fp B A e"
    and "int_field e ''U'' 0 \<le> k \<and> k \<le> int_field e ''u'' 0 \<or> k = int_field e ''pu'' 0"
  shows "follows B A True (apply_event fp o' e)"
  using assms
  by (auto simp: true_event_def follows_def shows_at_def apply_event_def apply_diff_def apply_delta_def book_inv_def
      level_map_delta intro: side_inv_delta)

lemma follows_event:
  assumes "follows B A synced o'" "true_event fp B A e" "depth_step o' synced e \<in> {ApplyFirst, Apply}"
  shows "follows B A True (apply_event fp o' e)" "depth_step o' synced e = Apply \<Longrightarrow> synced"
  using assms shows_after_event [OF _ assms(2), where k = "if synced then ob_prev_u o' else ob_last_update_id o'"]
  by (auto simp: follows_def depth_step_def classify_event_def split: if_splits)

lemma drain_follows:
  "follows B A synced o' \<Longrightarrow> \<forall>e \<in> set es. true_event fp B A e \<Longrightarrow> drain_buffer fp o' synced es = (Some r, o'') \<Longrightarrow> follows B A r o''"
proof (induction fp o' synced es rule: drain_buffer.induct)
  case (2 fp o' synced e es)
  then show ?case using follows_event [of B A synced o' fp e]
    by (cases "depth_step o' synced e") auto
qed simp

text \<open>No alpha is on offer.\<close>

definition quiet :: "binance_obi \<Rightarrow> bool" where
  "quiet o' \<longleftrightarrow> sa_alpha (ob_shared o') = 0 \<and> sa_sample_count (ob_shared o') = 0 \<and> sa_last_update_ms (ob_shared o') = 0"

definition depth_inv :: "(int \<Rightarrow> f64 \<rightharpoonup> f64) \<Rightarrow> (int \<Rightarrow> f64 \<rightharpoonup> f64) \<Rightarrow> depth_session \<Rightarrow> bool" where
  "depth_inv B A s =
     (case ds_phase s of
        Awaiting_Snapshot \<Rightarrow> quiet (ds_obi s) \<and> ds_attempts s < MAX_RESYNC_ATTEMPTS
      | Streaming synced \<Rightarrow> follows B A synced (ds_obi s) \<and> (synced \<or> quiet (ds_obi s)) \<and> ds_attempts s < MAX_RESYNC_ATTEMPTS
      | Session_Over \<Rightarrow> True)"

lemma quiet_reset [simp]: "quiet (obi_reset o')"
  by (simp add: quiet_def obi_reset_def alpha_reset_def)

lemma quiet_apply [simp]: "quiet (apply_event fp o' e) = quiet o'"
  by (simp add: quiet_def apply_event_def apply_diff_def)

lemma quiet_drain: "quiet (snd (drain_buffer fp o' synced es)) = quiet o'"
  by (induction fp o' synced es rule: drain_buffer.induct) (auto split: event_action.split)

lemma update_alpha_frame [simp]:
  "ob_book (update_alpha o' ms) = ob_book o'" "ob_prev_u (update_alpha o' ms) = ob_prev_u o'"
  "ob_last_update_id (update_alpha o' ms) = ob_last_update_id o'"
  by (simp_all add: update_alpha_def Let_def split: option.split)

lemma follows_alpha [simp]: "follows B A synced (update_alpha o' ms) = follows B A synced o'"
  by (simp add: follows_def shows_at_def)

lemma request_resync_inv [simp]: "depth_inv B A (request_resync s)"
  by (simp add: request_resync_def depth_inv_def Let_def)

lemma on_snapshot_inv:
  assumes "depth_inv B A s" "ds_phase s = Awaiting_Snapshot" "true_input fp B A (Snapshot_Reply v frames)"
  shows "depth_inv B A (on_snapshot fp s v frames)"
proof -
  let ?o = "obi_apply_snapshot (ds_obi s) (parse_levels fp (json_get v ''bids'')) (parse_levels fp (json_get v ''asks''))
    (int_field v ''lastUpdateId'' 0)"
  obtain r o' where d: "drain_buffer fp ?o False (filter is_diff frames) = (r, o')" by fastforce
  have f: "follows B A False ?o" and t: "\<forall>e \<in> set (filter is_diff frames). true_event fp B A e"
    using assms(3) follows_snapshot by (auto simp: true_input_def)
  have q: "quiet ?o" using assms(1,2) by (simp add: depth_inv_def quiet_def obi_apply_snapshot_def)
  show ?thesis
  proof (cases r)
    case (Some synced)
    then have "follows B A synced o'" "quiet o'"
      using d drain_follows [OF f t] q quiet_drain [of fp ?o False "filter is_diff frames"] by auto
    then show ?thesis using d Some assms(1,2)
      by (simp add: on_snapshot_def apply_snapshot_and_drain_def depth_inv_def MAX_RESYNC_ATTEMPTS_def)
  qed (use d in \<open>simp add: on_snapshot_def apply_snapshot_and_drain_def\<close>)
qed

lemma on_live_event_inv:
  assumes "depth_inv B A s" "ds_phase s = Streaming synced" "true_input fp B A (Live_Frame e ms)"
  shows "depth_inv B A (on_live_event fp s synced e ms)"
proof (cases "is_diff e")
  case True
  have f: "follows B A synced (ds_obi s)" "synced \<or> quiet (ds_obi s)" "ds_attempts s < MAX_RESYNC_ATTEMPTS"
    and t: "true_event fp B A e" using assms True by (auto simp: depth_inv_def true_input_def)
  show ?thesis
    using follows_event [OF f(1) t] f assms True request_resync_inv [of B A s, unfolded depth_inv_def]
    by (cases "depth_step (ds_obi s) synced e") (auto simp: on_live_event_def depth_inv_def MAX_RESYNC_ATTEMPTS_def)
qed (use assms in \<open>simp add: on_live_event_def\<close>)

interpretation depth: step_system "depth_session_step fp" "\<lambda>_ i. true_input fp B A i" "depth_inv B A" for fp B A
proof
  fix s i
  assume inv: "depth_inv B A s" and ok: "true_input fp B A i"
  show "depth_inv B A (depth_session_step fp s i)"
  proof (cases i)
    case (Snapshot_Reply v frames)
    then show ?thesis using on_snapshot_inv [OF inv] ok inv by (simp add: depth_session_step_def)
  next
    case (Live_Frame e ms)
    then show ?thesis using on_live_event_inv [OF inv] ok inv
      by (simp add: depth_session_step_def split: depth_phase.split)
  qed (use inv in \<open>simp_all add: depth_session_step_def depth_inv_def MAX_RESYNC_ATTEMPTS_def\<close>)
qed

lemma depth_start_inv: "depth_inv B A (depth_start o')"
  by (simp add: depth_start_def depth_inv_def MAX_RESYNC_ATTEMPTS_def)

text \<open>
  C20. The local depth book is the exchange's book. Whatever the order of snapshots, buffered and
  live events, lost events, socket failures and reconnects, as long as snapshots and events are
  themselves true, a session that streams in sync has exactly the exchange's levels after the
  update of the last event it applied, on both sides; one that still waits for its first event
  has those of its snapshot; and until a session is in sync it offers no alpha. A true snapshot
  shows every level of the book: the request limits its depth, so this is about an exchange book no
  deeper than that limit.
\<close>

theorem depth_book_follows_exchange:
  assumes "\<forall>i \<in> set is. true_input fp B A i" and "s = foldl (depth_session_step fp) (depth_start o') is"
  shows "(case ds_phase s of
      Streaming True \<Rightarrow> book_inv (ob_book (ds_obi s)) \<and> level_map (bids (ob_book (ds_obi s))) = B (ob_prev_u (ds_obi s)) \<and>
        level_map (asks (ob_book (ds_obi s))) = A (ob_prev_u (ds_obi s))
    | Streaming False \<Rightarrow> level_map (bids (ob_book (ds_obi s))) = B (ob_last_update_id (ds_obi s)) \<and>
        level_map (asks (ob_book (ds_obi s))) = A (ob_last_update_id (ds_obi s)) \<and> sa_sample_count (ob_shared (ds_obi s)) = 0
    | Awaiting_Snapshot \<Rightarrow> sa_sample_count (ob_shared (ds_obi s)) = 0 \<and> sa_last_update_ms (ob_shared (ds_obi s)) = 0
    | Session_Over \<Rightarrow> True)"
proof -
  have "admitted (\<lambda>_ i. true_input fp B A i) (depth_session_step fp) s is" for s
    using assms(1) by (induction "is" arbitrary: s) auto
  from depth.run_inv [OF depth_start_inv this] assms(2) have "depth_inv B A s" by simp
  then show ?thesis
    by (auto simp: depth_inv_def follows_def shows_at_def quiet_def split: depth_phase.splits bool.splits)
qed

definition sample_depth_snapshot :: json where
  "sample_depth_snapshot = JObj [(''lastUpdateId'', JInt 100), (''bids'', JArr [JArr [JStr ''100'', JStr ''1'']]), (''asks'', JArr [])]"

definition sample_depth_event :: json where
  "sample_depth_event = JObj [(''U'', JInt 95), (''u'', JInt 105), (''pu'', JInt 94), (''b'', JArr [JArr [JStr ''100'', JStr ''0'']]), (''a'', JArr [])]"

definition sample_parse :: "string \<Rightarrow> f64 option" where
  "sample_parse = map_of [(''100'', 100), (''1'', 1), (''0'', 0)]"

lemma sample_depth_fields:
  "int_field sample_depth_event ''U'' 0 = 95" "int_field sample_depth_event ''u'' 0 = 105" "int_field sample_depth_event ''pu'' 0 = 94"
  "int_field sample_depth_snapshot ''lastUpdateId'' 0 = 100" "is_diff sample_depth_event"
  by code_simp+

lemma sample_depth_levels:
  "parse_levels sample_parse (json_get sample_depth_event ''b'') = [(100, 0)]" "parse_levels sample_parse (json_get sample_depth_event ''a'') = []"
  "parse_levels sample_parse (json_get sample_depth_snapshot ''bids'') = [(100, 1)]" "parse_levels sample_parse (json_get sample_depth_snapshot ''asks'') = []"
  by (simp_all add: parse_levels_def parse_level_def json_get_def json_array_def json_str_def sample_parse_def sample_depth_event_def
      sample_depth_snapshot_def List.map_filter_def)

theorem depth_book_follows_exchange_witness:
  "let s = foldl (depth_session_step sample_parse) (depth_start \<lparr>ob_book = book_new, ob_stats = the (rolling_new 3),
       ob_looking_depth = 1 / 10, ob_last_update_id = 0, ob_prev_u = 0, ob_shared = alpha_new 3\<rparr>)
       [Snapshot_Reply sample_depth_snapshot [], Live_Frame sample_depth_event 1]
   in ds_phase s = Streaming True \<and> level_map (bids (ob_book (ds_obi s))) = Map.empty"
proof -
  define B :: "int \<Rightarrow> f64 \<rightharpoonup> f64" where "B k = (if k < 105 then [100 \<mapsto> 1] else Map.empty)" for k
  define A :: "int \<Rightarrow> f64 \<rightharpoonup> f64" where "A k = Map.empty" for k
  let ?is = "[Snapshot_Reply sample_depth_snapshot [], Live_Frame sample_depth_event 1]"
  let ?o = "\<lparr>ob_book = book_new, ob_stats = the (rolling_new 3), ob_looking_depth = 1 / 10, ob_last_update_id = 0, ob_prev_u = 0,
    ob_shared = alpha_new 3\<rparr>"
  have "\<forall>i \<in> set ?is. true_input sample_parse B A i"
    by (auto simp: true_input_def true_snapshot_def true_event_def sample_depth_fields sample_depth_levels B_def A_def
        overlay_def last_write_def fun_eq_iff)
  moreover have "ds_phase (foldl (depth_session_step sample_parse) (depth_start ?o) ?is) = Streaming True"
    "ob_prev_u (ds_obi (foldl (depth_session_step sample_parse) (depth_start ?o) ?is)) = 105"
    by (simp_all add: depth_session_step_def depth_start_def on_snapshot_def apply_snapshot_and_drain_def obi_apply_snapshot_def
        on_live_event_def depth_step_def classify_event_def apply_event_def apply_diff_def sample_depth_fields)
  ultimately show ?thesis
    using depth_book_follows_exchange [of ?is sample_parse B A _ ?o, OF _ refl] by (simp add: B_def Let_def)
qed

section \<open>A session that cannot synchronise ends\<close>

text \<open>The snapshots a session asks for while it handles its inputs.\<close>

fun snapshots_used :: "(string \<Rightarrow> f64 option) \<Rightarrow> depth_session \<Rightarrow> depth_input list \<Rightarrow> nat" where
  "snapshots_used fp s [] = 0"
| "snapshots_used fp s (i # is) =
     (case i of Snapshot_Reply _ _ \<Rightarrow> if ds_phase s = Awaiting_Snapshot then 1 else 0 | _ \<Rightarrow> 0) +
     snapshots_used fp (depth_session_step fp s i) is"

fun never_synced :: "(string \<Rightarrow> f64 option) \<Rightarrow> depth_session \<Rightarrow> depth_input list \<Rightarrow> bool" where
  "never_synced fp s [] \<longleftrightarrow> ds_phase s \<noteq> Streaming True"
| "never_synced fp s (i # is) \<longleftrightarrow> ds_phase s \<noteq> Streaming True \<and> never_synced fp (depth_session_step fp s i) is"

definition same_session :: "depth_input list \<Rightarrow> bool" where
  "same_session is \<longleftrightarrow> (\<forall>i \<in> set is. case i of Reconnected _ \<Rightarrow> False | _ \<Rightarrow> True)"

text \<open>Snapshots already used up: a stream that waits for its first event has used one more than the failures counted.\<close>

definition used_up :: "depth_session \<Rightarrow> nat" where
  "used_up s = (case ds_phase s of Awaiting_Snapshot \<Rightarrow> ds_attempts s | Streaming _ \<Rightarrow> Suc (ds_attempts s) | Session_Over \<Rightarrow> MAX_RESYNC_ATTEMPTS)"

lemma used_up_resync: "ds_attempts s < MAX_RESYNC_ATTEMPTS \<Longrightarrow> used_up (request_resync s) = Suc (ds_attempts s)"
  by (simp add: used_up_def request_resync_def Let_def)

lemma used_up_step:
  assumes "ds_attempts s < MAX_RESYNC_ATTEMPTS \<or> ds_phase s = Session_Over" "ds_phase s \<noteq> Streaming True"
    "ds_phase (depth_session_step fp s i) \<noteq> Streaming True" "same_session [i]"
  shows "(case i of Snapshot_Reply _ _ \<Rightarrow> if ds_phase s = Awaiting_Snapshot then 1 else 0 | _ \<Rightarrow> 0) + used_up s
      \<le> used_up (depth_session_step fp s i) \<and>
    (ds_attempts (depth_session_step fp s i) < MAX_RESYNC_ATTEMPTS \<or> ds_phase (depth_session_step fp s i) = Session_Over)"
proof (cases i)
  case (Snapshot_Reply v frames)
  obtain r o' where d: "apply_snapshot_and_drain fp (ds_obi s) v (filter is_diff frames) = (r, o')" by fastforce
  show ?thesis
    using assms Snapshot_Reply d
    by (cases r) (auto simp: depth_session_step_def on_snapshot_def used_up_def request_resync_def Let_def split: if_splits)
next
  case (Live_Frame e ms)
  show ?thesis
  proof (cases "ds_phase s")
    case (Streaming synced)
    then have "\<not> synced" using assms(2) by simp
    with Streaming show ?thesis using assms Live_Frame
      by (cases "depth_step (ds_obi s) synced e")
        (auto simp: depth_session_step_def on_live_event_def used_up_def request_resync_def Let_def split: if_splits)
  qed (use assms Live_Frame in \<open>simp_all add: depth_session_step_def\<close>)
next
  case Socket_Lost
  then show ?thesis using assms by (auto simp: depth_session_step_def used_up_def split: depth_phase.splits)
qed (use assms(4) in \<open>simp add: same_session_def\<close>)

lemma snapshots_bounded:
  "ds_attempts s < MAX_RESYNC_ATTEMPTS \<or> ds_phase s = Session_Over \<Longrightarrow> never_synced fp s is \<Longrightarrow> same_session is \<Longrightarrow>
   snapshots_used fp s is + used_up s \<le> MAX_RESYNC_ATTEMPTS"
proof (induction "is" arbitrary: s)
  case Nil
  then show ?case by (auto simp: used_up_def split: depth_phase.split)
next
  case (Cons i "is")
  let ?s = "depth_session_step fp s i"
  have now: "ds_phase ?s \<noteq> Streaming True" using Cons.prems(2) by (cases "is") auto
  have same: "same_session [i]" "same_session is" using Cons.prems(3) by (auto simp: same_session_def)
  show ?case
    using used_up_step [OF Cons.prems(1) _ now same(1)] Cons.IH [of ?s] Cons.prems(2) same(2) by auto
qed

lemma on_snapshot_missed:
  "fst (apply_snapshot_and_drain fp (ds_obi s) v (filter is_diff frames)) = None \<Longrightarrow>
   on_snapshot fp s v frames = request_resync (s\<lparr>ds_obi := snd (apply_snapshot_and_drain fp (ds_obi s) v (filter is_diff frames))\<rparr>)"
  by (cases "apply_snapshot_and_drain fp (ds_obi s) v (filter is_diff frames)") (simp add: on_snapshot_def)

lemma failing_replies:
  assumes "\<forall>(v, frames) \<in> set rs. \<forall>o'. fst (apply_snapshot_and_drain fp o' v (filter is_diff frames)) = None"
    and "ds_phase s = Awaiting_Snapshot" "ds_attempts s + length rs = MAX_RESYNC_ATTEMPTS" "rs \<noteq> []"
  shows "ds_phase (foldl (depth_session_step fp) s (map (\<lambda>(v, frames). Snapshot_Reply v frames) rs)) = Session_Over"
  using assms
proof (induction rs arbitrary: s)
  case (Cons r rs)
  obtain v frames where r: "r = (v, frames)" by (cases r)
  then have "depth_session_step fp s (Snapshot_Reply v frames) =
      request_resync (s\<lparr>ds_obi := snd (apply_snapshot_and_drain fp (ds_obi s) v (filter is_diff frames))\<rparr>)"
    using Cons.prems(1,2) by (simp add: depth_session_step_def on_snapshot_missed)
  with r Cons show ?case by (cases rs) (auto simp: request_resync_def Let_def)
qed simp

text \<open>
  A snapshot has missed the stream once an event that is not older than it has come without getting
  the session in sync: among the frames that came with it or, later, live.
\<close>

definition current :: "int \<Rightarrow> json \<Rightarrow> bool" where
  "current lid e \<longleftrightarrow> is_diff e \<and> lid \<le> int_field e ''u'' 0"

definition misses_stream :: "depth_session \<Rightarrow> depth_input \<Rightarrow> bool" where
  "misses_stream s i =
     (case i of
        Snapshot_Reply v frames \<Rightarrow> ds_phase s = Awaiting_Snapshot \<and> (\<exists>e \<in> set frames. current (int_field v ''lastUpdateId'' 0) e)
      | Live_Frame e _ \<Rightarrow> ds_phase s = Streaming False \<and> current (ob_last_update_id (ds_obi s)) e
      | _ \<Rightarrow> False)"

fun misses :: "(string \<Rightarrow> f64 option) \<Rightarrow> depth_session \<Rightarrow> depth_input list \<Rightarrow> nat" where
  "misses fp s [] = 0"
| "misses fp s (i # is) = (if misses_stream s i then 1 else 0) + misses fp (depth_session_step fp s i) is"

lemma drain_synced: "fst (drain_buffer fp o' True es) \<noteq> Some False"
  by (induction fp o' "True" es rule: drain_buffer.induct) (auto simp: depth_step_def classify_event_def split: if_splits)

lemma drain_waiting: "fst (drain_buffer fp o' False es) = Some False \<longleftrightarrow> (\<forall>e \<in> set es. int_field e ''u'' 0 < ob_last_update_id o')"
proof (induction es)
  case (Cons e es)
  then show ?case using drain_synced [of fp "apply_event fp o' e" es] by (auto simp: depth_step_def classify_event_def)
qed simp

lemma snapshot_waits:
  "fst (apply_snapshot_and_drain fp o' v (filter is_diff frames)) = Some False \<longleftrightarrow>
   \<not> (\<exists>e \<in> set frames. current (int_field v ''lastUpdateId'' 0) e)"
  by (auto simp: apply_snapshot_and_drain_def drain_waiting obi_apply_snapshot_def current_def)

text \<open>A step that does not get in sync counts a miss, and the fifth one ends the session.\<close>

definition waiting :: "nat \<Rightarrow> depth_session \<Rightarrow> bool" where
  "waiting n s \<longleftrightarrow> ds_attempts s = n \<and> n < MAX_RESYNC_ATTEMPTS \<and> ds_phase s \<in> {Awaiting_Snapshot, Streaming False}"

lemma waiting_step:
  assumes "waiting n s" "ds_phase (depth_session_step fp s i) \<noteq> Streaming True" "same_session [i]" "i \<noteq> Socket_Lost"
  shows "let m = n + (if misses_stream s i then 1 else 0); s' = depth_session_step fp s i
         in if m = MAX_RESYNC_ATTEMPTS then ds_phase s' = Session_Over else waiting m s'"
proof (cases i)
  case (Snapshot_Reply v frames)
  obtain r o' where d: "apply_snapshot_and_drain fp (ds_obi s) v (filter is_diff frames) = (r, o')" by fastforce
  show ?thesis
  proof (cases "ds_phase s = Awaiting_Snapshot")
    case True
    then show ?thesis
      using assms(1,2) Snapshot_Reply d snapshot_waits [of fp "ds_obi s" v frames]
      by (cases r) (auto simp: waiting_def misses_stream_def depth_session_step_def on_snapshot_def request_resync_def Let_def)
  qed (use assms(1) Snapshot_Reply in \<open>auto simp: waiting_def misses_stream_def depth_session_step_def\<close>)
next
  case (Live_Frame e ms)
  then show ?thesis
    using assms(1,2)
    by (auto simp: waiting_def misses_stream_def depth_session_step_def on_live_event_def request_resync_def current_def Let_def
        depth_step_def classify_event_def split: if_splits)
qed (use assms(3,4) in \<open>simp_all add: same_session_def\<close>)

lemma over_stays:
  "ds_phase s = Session_Over \<Longrightarrow> same_session is \<Longrightarrow>
   ds_phase (foldl (depth_session_step fp) s is) = Session_Over \<and> misses fp s is = 0"
proof (induction "is" arbitrary: s)
  case (Cons i "is")
  then have "ds_phase (depth_session_step fp s i) = Session_Over"
    by (cases i) (auto simp: depth_session_step_def same_session_def)
  moreover have "\<not> misses_stream s i" using Cons.prems(1) by (cases i) (simp_all add: misses_stream_def)
  ultimately show ?case using Cons.IH Cons.prems(2) by (simp add: same_session_def)
qed simp

lemma over_iff_missed:
  "waiting n s \<Longrightarrow> never_synced fp s is \<Longrightarrow> same_session is \<Longrightarrow>
   ds_phase (foldl (depth_session_step fp) s is) = Session_Over \<longleftrightarrow> Socket_Lost \<in> set is \<or> MAX_RESYNC_ATTEMPTS \<le> n + misses fp s is"
proof (induction "is" arbitrary: n s)
  case Nil
  then show ?case by (auto simp: waiting_def)
next
  case (Cons i "is")
  let ?s = "depth_session_step fp s i" and ?m = "n + (if misses_stream s i then 1 else 0)"
  have same: "same_session [i]" "same_session is" using Cons.prems(3) by (auto simp: same_session_def)
  have now: "ds_phase ?s \<noteq> Streaming True" "never_synced fp ?s is" using Cons.prems(2) by (cases "is"; auto)+
  show ?case
  proof (cases "i = Socket_Lost")
    case True
    then have "ds_phase ?s = Session_Over" by (simp add: depth_session_step_def)
    from over_stays [OF this same(2), of fp] True show ?thesis by simp
  next
    case False
    note st = waiting_step [OF Cons.prems(1) now(1) same(1) False]
    show ?thesis
    proof (cases "?m = MAX_RESYNC_ATTEMPTS")
      case True
      then show ?thesis using st over_stays [OF _ same(2), of ?s fp] by (simp add: Let_def)
    next
      case later: False
      then have "waiting ?m ?s" using st by (simp only: Let_def if_False)
      then show ?thesis using Cons.IH [OF _ now(2) same(2)] False by (simp add: add.assoc)
    qed
  qed
qed

text \<open>
  C28. A session that does not get in sync takes in at most five snapshots, whatever arrives and
  however long it runs, and it is over exactly when the socket was lost or five of its snapshots
  have missed the stream, that is, each was followed by an event not older than itself that still
  did not bring the session in sync. Events older than the last snapshot only leave it waiting.
\<close>

theorem resync_terminates:
  assumes "never_synced fp (depth_start o') is" and "same_session is"
  shows "snapshots_used fp (depth_start o') is \<le> 5 \<and>
    (ds_phase (foldl (depth_session_step fp) (depth_start o') is) = Session_Over \<longleftrightarrow>
       Socket_Lost \<in> set is \<or> 5 \<le> misses fp (depth_start o') is)"
  using snapshots_bounded [OF _ assms] over_iff_missed [OF _ assms, of 0]
  by (simp add: depth_start_def used_up_def waiting_def MAX_RESYNC_ATTEMPTS_def)

theorem resync_terminates_witness:
  "let late = JObj [(''U'', JInt 101), (''u'', JInt 110), (''pu'', JInt 100)];
       s = depth_start \<lparr>ob_book = book_new, ob_stats = the (rolling_new 3), ob_looking_depth = 1 / 10,
             ob_last_update_id = 0, ob_prev_u = 0, ob_shared = alpha_new 3\<rparr>;
       is = replicate 5 (Snapshot_Reply sample_depth_snapshot [late])
   in snapshots_used sample_parse s is \<le> 5 \<and> ds_phase (foldl (depth_session_step sample_parse) s is) = Session_Over \<and> 5 \<le> misses sample_parse s is"
proof -
  let ?late = "JObj [(''U'', JInt 101), (''u'', JInt 110), (''pu'', JInt 100)]"
  have late: "is_diff ?late" "int_field ?late ''U'' 0 = 101" "int_field ?late ''u'' 0 = 110" by code_simp+
  have miss: "fst (apply_snapshot_and_drain sample_parse o' sample_depth_snapshot (filter is_diff [?late])) = None" for o'
    using late by (simp add: apply_snapshot_and_drain_def depth_step_def classify_event_def obi_apply_snapshot_def sample_depth_fields)
  then have "ds_phase (depth_session_step sample_parse s (Snapshot_Reply sample_depth_snapshot [?late])) \<noteq> Streaming True"
    if "ds_phase s \<noteq> Streaming True" for s
    using that on_snapshot_missed [of sample_parse s sample_depth_snapshot "[?late]"]
    by (simp add: depth_session_step_def request_resync_def Let_def)
  then have "ds_phase s \<noteq> Streaming True \<Longrightarrow> never_synced sample_parse s (replicate n (Snapshot_Reply sample_depth_snapshot [?late]))" for s n
    by (induction n arbitrary: s) simp_all
  then have never: "never_synced sample_parse (depth_start o') (replicate 5 (Snapshot_Reply sample_depth_snapshot [?late]))" for o'
    by (simp add: depth_start_def)
  have over: "ds_phase (foldl (depth_session_step sample_parse) (depth_start o') (replicate 5 (Snapshot_Reply sample_depth_snapshot [?late]))) = Session_Over" for o'
    using failing_replies [of "replicate 5 (sample_depth_snapshot, [?late])" sample_parse "depth_start o'"] miss
    by (simp add: depth_start_def MAX_RESYNC_ATTEMPTS_def)
  have "same_session (replicate 5 (Snapshot_Reply sample_depth_snapshot [?late]))" by (simp add: same_session_def)
  from resync_terminates [OF never this] show ?thesis using over by (simp add: Let_def)
qed

end
