(* ===== verification/Depth_Client.thy ===== *)
theory Depth_Client
  imports Depth_Sync Rest
begin

text \<open>
  The rest of \<^verbatim>\<open>src/src/binance/depth_client.rs\<close>: the client, its snapshot request over HTTP, the buffering of the
  stream while the request is under way, and what the reads of the socket mean for the session of
  \<open>Depth_Sync\<close>.
\<close>

section \<open>The client and its snapshots\<close>

definition WS_BASE :: string where "WS_BASE = ''wss://fstream.binance.com/ws''"
definition REST_BASE :: string where "REST_BASE = ''https://fapi.binance.com''"

record depth_client =
  dc_symbol :: string
  dc_snapshot_limit :: nat
  dc_obi :: binance_obi
  dc_reconnect_base :: f64
  dc_reconnect_max :: f64

definition depth_client_new :: "string \<Rightarrow> nat \<Rightarrow> nat \<Rightarrow> f64 \<Rightarrow> shared_alpha \<Rightarrow> depth_client option" where
  "depth_client_new symbol_usdt limit win depth shared =
     map_option (\<lambda>x. \<lparr>dc_symbol = to_lowercase symbol_usdt, dc_snapshot_limit = limit, dc_obi = x,
       dc_reconnect_base = reconnect_base, dc_reconnect_max = reconnect_max\<rparr>) (obi_new win depth shared)"

definition ws_url :: "depth_client \<Rightarrow> string" where
  "ws_url dc = WS_BASE @ ''/'' @ dc_symbol dc @ ''@depth@100ms''"

definition to_upper_char :: "char \<Rightarrow> char" where
  "to_upper_char c = (if CHR ''a'' \<le> c \<and> c \<le> CHR ''z'' then char_of (of_char c - (32 :: nat)) else c)"

definition to_uppercase :: "string \<Rightarrow> string" where
  "to_uppercase s = map to_upper_char s"

definition fetch_snapshot :: "(string \<Rightarrow> json option) \<Rightarrow> 'w http \<Rightarrow> depth_client \<Rightarrow> 'w \<Rightarrow> json option \<times> 'w" where
  "fetch_snapshot parse http dc =
     get_json parse http Some (REST_BASE @ ''/fapi/v1/depth'')
       [(''symbol'', to_uppercase (dc_symbol dc)), (''limit'', nat_text (dc_snapshot_limit dc))]"

text \<open>What the socket yields: while the snapshot is under way, and in the live loop (where silence times out).\<close>

datatype depth_read = Read_Text string | Read_Ping | Read_Other | Read_Failed | Read_Closed | Read_Silence

text \<open>The diff events buffered until the snapshot is there; \<open>None\<close> when the socket is lost first.\<close>

fun buffer_diffs :: "(string \<Rightarrow> json option) \<Rightarrow> depth_read list \<Rightarrow> json list option" where
  "buffer_diffs parse [] = Some []"
| "buffer_diffs parse (r # rs) =
     (case r of
        Read_Text t \<Rightarrow>
          (case parse t of
             Some v \<Rightarrow> map_option (\<lambda>buf. if is_diff v then v # buf else buf) (buffer_diffs parse rs)
           | None \<Rightarrow> buffer_diffs parse rs)
      | Read_Failed \<Rightarrow> None
      | Read_Closed \<Rightarrow> None
      | _ \<Rightarrow> buffer_diffs parse rs)"

definition fetch_snapshot_buffering ::
  "(string \<Rightarrow> json option) \<Rightarrow> 'w http \<Rightarrow> depth_client \<Rightarrow> depth_read list \<Rightarrow> 'w \<Rightarrow> (json \<times> json list) option \<times> 'w" where
  "fetch_snapshot_buffering parse http dc reads w =
     (case buffer_diffs parse reads of
        None \<Rightarrow> (None, w)
      | Some buf \<Rightarrow> (let (v, w1) = fetch_snapshot parse http dc w in (map_option (\<lambda>s. (s, buf)) v, w1)))"

text \<open>The inputs of the session these calls and reads amount to.\<close>

definition snapshot_input :: "(json \<times> json list) option \<Rightarrow> depth_input" where
  "snapshot_input r = (case r of None \<Rightarrow> Socket_Lost | Some (v, buf) \<Rightarrow> Snapshot_Reply v buf)"

definition live_input :: "(string \<Rightarrow> json option) \<Rightarrow> depth_read \<Rightarrow> nat \<Rightarrow> depth_input option" where
  "live_input parse r ms =
     (case r of
        Read_Text t \<Rightarrow> map_option (\<lambda>v. Live_Frame v ms) (parse t)
      | Read_Ping \<Rightarrow> None
      | Read_Other \<Rightarrow> None
      | _ \<Rightarrow> Some Socket_Lost)"

lemma buffered_are_diffs: "buffer_diffs parse rs = Some buf \<Longrightarrow> \<forall>v \<in> set buf. is_diff v"
  by (induction parse rs arbitrary: buf rule: buffer_diffs.induct) (auto split: depth_read.splits option.splits if_splits)

text \<open>Buffering loses no diff event: the buffer is what the session keeps of all frames that are JSON, in order.\<close>

lemma buffer_keeps_diffs:
  "buffer_diffs parse rs = Some buf \<Longrightarrow>
   buf = filter is_diff (List.map_filter (\<lambda>r. case r of Read_Text t \<Rightarrow> parse t | _ \<Rightarrow> None) rs)"
proof (induction rs arbitrary: buf)
  case (Cons r rs)
  then show ?case
    by (cases r) (auto simp: map_filter_simps split: option.splits if_splits)
qed (simp add: map_filter_simps)

end
