(* ===== verification/Live_App.thy ===== *)
theory Live_App
  imports System Tx_Ws Ws_Feed Rest Native_Signer Pnl_Actor Depth_Client
begin

text \<open>
  The live program put together (\<open>App::run\<close> and the feeds of \<open>spawn_live_cold_tasks\<close> in
  \<^verbatim>\<open>src/src/orchestrator.rs\<close>): the record \<open>api\<close> the tasks call is built from the native signer, the REST
  client and the transaction websocket, the account and market feeds run from the texts their
  subscriptions deliver, and a run goes from the start gate through any sequence of handlers to the
  shutdown. What is left outside is the record \<open>deps\<close>: clocks, the halt flag, the HTTP and socket
  libraries, the JSON syntax, the signing library.
\<close>

section \<open>The environment of the tasks\<close>

record 'w deps =
  d_now :: "'w \<Rightarrow> instant \<times> 'w"
  d_now_ms :: "'w \<Rightarrow> nat \<times> 'w"
  d_now_unix :: "'w \<Rightarrow> int \<times> 'w"
  d_delays :: "'w \<Rightarrow> (nat \<Rightarrow> duration) \<times> 'w"
  d_halt :: "'w \<Rightarrow> bool \<times> 'w"
  d_http :: "'w http"
  d_network :: "'w network"
  d_parse :: "string \<Rightarrow> json option"
  d_render :: "json \<Rightarrow> string"
  d_signer :: native_signer
  d_heap :: cheap \<comment> \<open>the strings allocated between two calls of the library; each call restores it\<close>
  d_rest :: rest_client
  d_key :: "32 word"

record 'w rig =
  g_tx :: tx_web_socket
  g_net :: 'w

definition on_net :: "('w \<Rightarrow> 'a \<times> 'w) \<Rightarrow> 'w rig \<Rightarrow> 'a \<times> 'w rig" where
  "on_net f g = (let (x, w) = f (g_net g) in (x, g\<lparr>g_net := w\<rparr>))"

text \<open>The library's answer without its hash; \<open>None\<close> cannot occur under the library's contract.\<close>

definition signed_of :: "((string + native_tx) \<times> cheap) option \<Rightarrow> string + signed_tx" where
  "signed_of r =
     (case r of
        Some (Inr tx, _) \<Rightarrow> Inr \<lparr>st_type = st_type tx, st_info = st_info tx\<rparr>
      | Some (Inl e, _) \<Rightarrow> Inl e
      | None \<Rightarrow> Inl ''signer'')"

definition token_of :: "((string + string) \<times> cheap) option \<Rightarrow> string option" where
  "token_of r = (case r of Some (Inr t, _) \<Rightarrow> Some t | _ \<Rightarrow> None)"

definition fresh_token :: "'w deps \<Rightarrow> 'w \<Rightarrow> string option \<times> 'w" where
  "fresh_token d w = (let (now, w1) = d_now_unix d w in (token_of (generate_ws_auth_token (d_signer d) now (d_key d) (d_heap d)), w1))"

definition live_api :: "'w deps \<Rightarrow> 'w rig api" where
  "live_api d =
     \<lparr>a_now = on_net (d_now d), a_now_ms = on_net (d_now_ms d), a_delays = on_net (d_delays d), a_halt = on_net (d_halt d),
      a_next_nonce = (\<lambda>acct key. on_net (\<lambda>w. map_prod (map_option word_of_int) id (rest_next_nonce (d_parse d) (d_http d) (d_rest d) acct key w))),
      a_signer = (\<lambda>req. signed_of (call_sign (d_signer d) (N_Sign req) (d_heap d))),
      a_sign_cancel_all = (\<lambda>tif t n key. signed_of (sign_cancel_all_orders (d_signer d) tif t n key (d_heap d))),
      a_send_tx = (\<lambda>ty info. on_net (send_tx (d_parse d) (d_http d) (d_rest d) ty info)),
      a_send_batch = (\<lambda>ts infos g.
        let (r, tw, w) = ws_send_batch (d_network d) (d_render d) (batch_frame (d_render d)) ts infos (g_tx g) (g_net g)
        in (r, \<lparr>g_tx = tw, g_net = w\<rparr>)),
      a_tx_connect = (\<lambda>iv g.
        let (ok, tw, w) = tx_connect (d_network d) (with_ping_interval (from_secs_f64 (max iv 1))) (g_net g)
        in (ok, \<lparr>g_tx = tw, g_net = w\<rparr>)),
      a_auth_token = on_net (fresh_token d),
      a_active_orders = (\<lambda>acct market tok. on_net (account_active_orders (d_parse d) (d_http d) (d_rest d) acct market tok))\<rparr>"

definition live_account_position :: "(string \<Rightarrow> f64 option) \<Rightarrow> 'w deps \<Rightarrow> i64w \<Rightarrow> u32 \<Rightarrow> 'w rig \<Rightarrow> f64 option \<times> 'w rig" where
  "live_account_position fp d acct market = on_net (account_position fp (d_parse d) (d_http d) (d_rest d) acct market)"

section \<open>Feeds\<close>

definition binance_symbol :: "credentials \<Rightarrow> string" where
  "binance_symbol creds = to_lowercase (market_symbol creds) @ ''usdt''"

text \<open>The two external feeds, when the configuration asks for them (\<open>None\<close> inside: the ring buffer of the alpha cannot be built).\<close>

definition alpha_feeds :: "config \<Rightarrow> credentials \<Rightarrow> (depth_client option \<times> book_ticker_client) option" where
  "alpha_feeds cfg creds =
     (let al = tr_alpha (cfg_trading cfg); symb = binance_symbol creds
      in if eq_ignore_ascii_case (al_source al) ''binance''
         then Some (depth_client_new symb (al_depth_snapshot_limit al) (al_window_size al) (al_looking_depth al) (alpha_new (al_min_samples al)),
                    book_ticker_new symb)
         else None)"

definition auth_map :: "string option \<Rightarrow> string \<Rightarrow> (string \<times> string) list" where
  "auth_map tok channel = (case tok of None \<Rightarrow> [] | Some t \<Rightarrow> [(channel, t)])"

definition orders_channel :: "u32 \<Rightarrow> i64w \<Rightarrow> string" where
  "orders_channel market acct = ''account_orders/'' @ nat_text (unat market) @ ''/'' @ int_text (sint acct)"

definition account_options :: "websocket_cfg \<Rightarrow> string \<Rightarrow> string \<Rightarrow> subscribe_options" where
  "account_options ws label ch =
     (options_new label [ch])\<lparr>so_recv_timeout := account_recv_timeout ws, so_ping_interval := ping_interval ws\<rparr>"

definition market_data_options :: "websocket_cfg \<Rightarrow> u32 \<Rightarrow> subscribe_options" where
  "market_data_options ws market =
     (options_new ''market-data'' [''order_book/'' @ nat_text (unat market), ''ticker/'' @ nat_text (unat market)])
       \<lparr>so_recv_timeout := recv_timeout ws, so_reconnect_base := reconnect_base_delay ws,
        so_reconnect_max := reconnect_max_delay ws, so_ping_interval := ping_interval ws\<rparr>"

text \<open>The callbacks: a text that does not decode changes nothing.\<close>

definition on_orders_text :: "(string \<Rightarrow> json option) \<Rightarrow> string \<Rightarrow> 'w cold \<Rightarrow> 'w cold" where
  "on_orders_text parse t c = (case from_str parse de_account_orders t of None \<Rightarrow> c | Some msg \<Rightarrow> on_account_orders msg c)"

definition on_all_text :: "(string \<Rightarrow> json option) \<Rightarrow> (string \<Rightarrow> f64 option) \<Rightarrow> string \<Rightarrow> nat \<Rightarrow> string \<Rightarrow> 'w cold \<Rightarrow> 'w cold" where
  "on_all_text parse fp mkt ms t c = (case from_str parse de_account_all t of None \<Rightarrow> c | Some msg \<Rightarrow> on_account_all fp mkt ms msg c)"

definition on_stats_text :: "(string \<Rightarrow> json option) \<Rightarrow> (string \<Rightarrow> f64 option) \<Rightarrow> string \<Rightarrow> 'w cold \<Rightarrow> 'w cold" where
  "on_stats_text parse fp t c = (case from_str parse de_user_stats t of None \<Rightarrow> c | Some msg \<Rightarrow> on_user_stats fp msg c)"

definition feed_texts :: "feed_output list \<Rightarrow> string list" where
  "feed_texts = List.map_filter (\<lambda>x. case x of Session_Output (Deliver _ t) \<Rightarrow> Some t | _ \<Rightarrow> None)"

text \<open>A whole account feed: \<open>clk i\<close> is the wall clock at its \<open>i\<close>-th message.\<close>

definition account_all_feed ::
  "'w deps \<Rightarrow> (string \<Rightarrow> f64 option) \<Rightarrow> string \<Rightarrow> (nat \<Rightarrow> nat) \<Rightarrow> subscribe_options \<Rightarrow> ((string \<times> string) list \<times> ws_round) list \<Rightarrow> 'w rig cold \<Rightarrow> 'w rig cold" where
  "account_all_feed d fp mkt clk opts rounds c =
     foldl (\<lambda>c (i, t). on_all_text (d_parse d) fp mkt (clk i) t c) c
       (enumerate 0 (feed_texts (subscribe_loop_authed (type_probe (d_parse d)) (d_render d) opts rounds (so_reconnect_base opts))))"

section \<open>A run\<close>

text \<open>What a handler sees of the feeds: raw texts, and the disconnects of the market-data feed.\<close>

datatype raw_step =
    Md_Text string string instant nat \<comment> \<open>probed type, text, clocks\<close>
  | Md_Lost
  | Orders_Text string
  | All_Text nat string
  | Stats_Text string
  | Internal sys_step

definition decode_step :: "(string \<Rightarrow> json option) \<Rightarrow> (string \<Rightarrow> f64 option) \<Rightarrow> raw_step \<Rightarrow> sys_step option" where
  "decode_step parse fp r =
     (case r of
        Md_Text ty t now ms \<Rightarrow>
          if str_contains ty ''order_book'' then map_option (\<lambda>m. Market_Data m now ms) (from_str parse (de_order_book_msg fp) t)
          else if str_contains ty ''ticker'' then map_option (\<lambda>m. Ticker m now) (from_str parse de_ticker_msg t)
          else None
      | Md_Lost \<Rightarrow> Some Md_Disconnect
      | Orders_Text t \<Rightarrow> map_option Account_Orders (from_str parse de_account_orders t)
      | All_Text ms t \<Rightarrow> map_option (Account_All_Msg ms) (from_str parse de_account_all t)
      | Stats_Text t \<Rightarrow> map_option User_Stats (from_str parse de_user_stats t)
      | Internal e \<Rightarrow> Some e)"

definition raw_step_fun ::
  "(string \<Rightarrow> f64 option) \<Rightarrow> 'w deps \<Rightarrow> poller_cfg \<Rightarrow> string \<Rightarrow> 'w rig system \<Rightarrow> raw_step \<Rightarrow> 'w rig system" where
  "raw_step_fun fp d pc mkt y r =
     (case decode_step (d_parse d) fp r of
        None \<Rightarrow> y
      | Some e \<Rightarrow> sys_step_fun fp (live_api d) (live_account_position fp d) pc mkt y e)"

datatype exit_reason = Shutdown_Signal | Hot_Exited

text \<open>
  The main task waits for the signal, or for the death of the decision task (the sender ends only when
  the mailbox closes, which is the same event).
\<close>

fun run_until ::
  "(string \<Rightarrow> f64 option) \<Rightarrow> 'w deps \<Rightarrow> poller_cfg \<Rightarrow> string \<Rightarrow> 'w rig system \<Rightarrow> raw_step list \<Rightarrow> exit_reason \<times> 'w rig system" where
  "run_until fp d pc mkt y [] = (Shutdown_Signal, y)"
| "run_until fp d pc mkt y (r # rs) =
     (let y1 = raw_step_fun fp d pc mkt y r
      in if y_hot y1 = None then (Hot_Exited, y1) else run_until fp d pc mkt y1 rs)"

datatype 'w app_end =
    Start_Failed start_error
  | Main_Panicked \<comment> \<open>the decision task cannot be built\<close>
  | Ended exit_reason bool "'w rig sender" \<comment> \<open>the reason, and whether the shutdown verified a flat book\<close>

definition leverage_signer :: "'w deps \<Rightarrow> u32 \<Rightarrow> int \<Rightarrow> int \<Rightarrow> i64w \<Rightarrow> 32 word \<Rightarrow> string + signed_tx" where
  "leverage_signer d market imf mm n key =
     signed_of (sign_update_leverage (d_signer d) market (word_of_int imf) (word_of_int mm) n key (d_heap d))"

text \<open>
  The market is resolved over REST (\<open>App::bootstrap\<close>), then the run passes the start gate with the signing
  library loaded for it.
\<close>

definition app_bootstrap :: "(string \<Rightarrow> f64 option) \<Rightarrow> 'w deps \<Rightarrow> credentials \<Rightarrow> 'w \<Rightarrow> (order_book_detail \<times> market_config) option \<times> 'w" where
  "app_bootstrap fp d creds w =
     (let (detail, w1) = market_detail (d_parse d) (d_http d) (d_rest d) (market_symbol creds) w
      in (map_option (\<lambda>x. (x, bootstrap fp x)) detail, w1))"

definition loaded :: "'w deps \<Rightarrow> ((load_error + native_signer) \<times> cheap) option \<Rightarrow> 'w deps option" where
  "loaded d r = (case r of Some (Inr sg, h) \<Rightarrow> Some (d\<lparr>d_signer := sg, d_heap := h\<rparr>) | _ \<Rightarrow> None)"

definition app_run ::
  "(string \<Rightarrow> f64 option) \<Rightarrow> 'w deps \<Rightarrow> (cheap \<Rightarrow> ((load_error + native_signer) \<times> cheap) option) \<Rightarrow> 'o lock_os \<Rightarrow> string \<Rightarrow> nat \<Rightarrow> bool
   \<Rightarrow> config \<Rightarrow> credentials \<Rightarrow> order_book_detail \<Rightarrow> instant \<Rightarrow> raw_step list \<Rightarrow> 'w rig sender \<Rightarrow> 'o \<Rightarrow> 'w app_end" where
  "app_run fp d0 load_signer locks tmp pid pnl_ok cfg creds detail now rs s o' =
     (let ld = loaded d0 (load_signer (d_heap d0));
          d = (case ld of None \<Rightarrow> d0 | Some d1 \<Rightarrow> d1)
      in case live_start (live_api d) locks tmp pid (ld \<noteq> None) (leverage_signer d) pnl_ok cfg creds (s\<lparr>s_market := bootstrap fp detail\<rparr>) o' of
           (Some e, _, _) \<Rightarrow> Start_Failed e
         | (None, s1, _) \<Rightarrow>
             (case launch fp now cfg detail s1 of
                None \<Rightarrow> Main_Panicked
              | Some y0 \<Rightarrow>
                  let (reason, y) = run_until fp d (poller_cfg_of (cfg_safety cfg)) (nat_text (unat (obd_market_id detail))) y0 rs;
                      (flat, s2) = live_shutdown (live_api d) (c_sender (y_cold y))
                  in Ended reason flat s2))"

definition age_for_log :: "nat \<Rightarrow> string" where
  "age_for_log age_ms = (if age_ms = U64_MAX then ''none'' else nat_text age_ms)"

section \<open>From the wire to the handlers\<close>

lemma raw_run: "foldl (raw_step_fun fp d pc mkt) y rs =
    foldl (sys_step_fun fp (live_api d) (live_account_position fp d) pc mkt) y (List.map_filter (decode_step (d_parse d) fp) rs)"
  by (induction rs arbitrary: y) (simp_all add: raw_step_fun_def List.map_filter_def split: option.splits)

lemma run_until_alive:
  "(\<And>k. k \<le> length rs \<Longrightarrow> y_hot (foldl (raw_step_fun fp d pc mkt) y (take k rs)) \<noteq> None) \<Longrightarrow>
   run_until fp d pc mkt y rs = (Shutdown_Signal, foldl (raw_step_fun fp d pc mkt) y rs)"
proof (induction rs arbitrary: y)
  case (Cons r rs)
  have "y_hot (raw_step_fun fp d pc mkt y r) \<noteq> None" using Cons.prems [of 1] by simp
  moreover have "run_until fp d pc mkt (raw_step_fun fp d pc mkt y r) rs =
      (Shutdown_Signal, foldl (raw_step_fun fp d pc mkt) (raw_step_fun fp d pc mkt y r) rs)"
    by (rule Cons.IH) (use Cons.prems [of "Suc k" for k] in simp)
  ultimately show ?case by (simp add: Let_def)
qed simp

lemma launched_run_alive:
  assumes "launch fp now cfg detail s = Some y0"
  shows "run_until fp d pc mkt y0 rs = (Shutdown_Signal, foldl (raw_step_fun fp d pc mkt) y0 rs)"
proof (rule run_until_alive)
  fix k
  have "sys_wf (max (levels_per_side (cfg_trading cfg)) 1) (foldl (raw_step_fun fp d pc mkt) y0 (take k rs))"
    unfolding raw_run by (rule sys.run_inv [OF launch_wf [OF assms]]) (rule admitted_True)
  then show "y_hot (foldl (raw_step_fun fp d pc mkt) y0 (take k rs)) \<noteq> None" by (auto simp: sys_wf_def split: option.splits)
qed

section \<open>A flat book at both ends\<close>

text \<open>
  The exchange's documented answer to the open-order query: a reply without an error status lists
  the open orders \<open>opn w\<close>; queries and clocks change none of them.
\<close>

definition lists_orders :: "'w deps \<Rightarrow> ('w \<Rightarrow> remote_order list) \<Rightarrow> bool" where
  "lists_orders d opn \<longleftrightarrow>
     (\<forall>w. opn (snd (d_now_unix d w)) = opn w) \<and>
     (\<forall>q w. opn (snd (d_http d (Get (rest_url (d_rest d) ''/api/v1/accountActiveOrders'') q) w)) = opn w \<and>
        answered (d_parse d) de_active_orders (fst (d_http d (Get (rest_url (d_rest d) ''/api/v1/accountActiveOrders'') q) w)) \<in> {None, Some (opn w)})"

lemma live_api_honest: "lists_orders d opn \<Longrightarrow> honest_orders (live_api d) (\<lambda>g. opn (g_net g))"
  by (simp add: honest_orders_def lists_orders_def live_api_def on_net_def fresh_token_def account_active_orders_def get_json_answered case_prod_beta Let_def)

lemma lists_orders_loaded: "lists_orders (d\<lparr>d_signer := sg, d_heap := h\<rparr>) opn = lists_orders d opn"
  by (simp add: lists_orders_def)

text \<open>
  C6. A live run begins and ends on a flat book, whatever happens in between. On an exchange that
  answers the open-order query truthfully: a run that passes the start gate never loses its decision
  task to a panic, whatever texts the feeds deliver (malformed ones included) and in whatever order
  the handlers run, so it ends by the shutdown signal only; and when its shutdown reports a verified
  flat book, no order is open on the exchange.
\<close>

theorem live_run_ends_flat:
  assumes "lists_orders d opn"
    and "app_run fp d load_signer locks tmp pid pnl_ok cfg creds detail now rs s o' = Ended reason flat s'"
  shows "reason = Shutdown_Signal \<and> (flat \<longrightarrow> opn (g_net (s_world s')) = [])"
proof -
  let ?ld = "loaded d (load_signer (d_heap d))"
  define d1 where "d1 = (case ?ld of None \<Rightarrow> d | Some x \<Rightarrow> x)"
  have honest: "honest_orders (live_api d1) (\<lambda>g. opn (g_net g))"
    using assms(1) by (intro live_api_honest) (auto simp: d1_def loaded_def lists_orders_loaded split: option.splits sum.splits)
  obtain e s1 o1 where st: "live_start (live_api d1) locks tmp pid (?ld \<noteq> None) (leverage_signer d1) pnl_ok cfg creds
      (s\<lparr>s_market := bootstrap fp detail\<rparr>) o' = (e, s1, o1)" by (metis prod.exhaust)
  from assms(2) st have e: "e = None" by (cases e) (simp_all add: app_run_def Let_def d1_def)
  with assms(2) st obtain y0 where y0: "launch fp now cfg detail s1 = Some y0"
    by (cases "launch fp now cfg detail s1") (simp_all add: app_run_def Let_def d1_def)
  define y where "y = foldl (raw_step_fun fp d1 (poller_cfg_of (cfg_safety cfg)) (nat_text (unat (obd_market_id detail)))) y0 rs"
  from assms(2) st e y0 launched_run_alive [OF y0, of d1 _ _ rs]
  have "reason = Shutdown_Signal \<and> live_shutdown (live_api d1) (c_sender (y_cold y)) = (flat, s')"
    by (simp add: app_run_def Let_def d1_def y_def case_prod_beta prod_eq_iff)
  with flat_when_reported [OF honest, of "c_sender (y_cold y)"] show ?thesis
    by (auto simp: live_shutdown_def case_prod_beta Let_def tell_pnl_def)
qed

text \<open>An exchange without orders that accepts everything.\<close>

definition demo_deps :: "unit deps" where
  "demo_deps =
     \<lparr>d_now = (\<lambda>w. (0, w)), d_now_ms = (\<lambda>w. (0, w)), d_now_unix = (\<lambda>w. (0, w)), d_delays = (\<lambda>w. (\<lambda>_. 1, w)), d_halt = (\<lambda>w. (False, w)),
      d_http = (\<lambda>_ w. (Reply 200 (Some ''reply''), w)),
      d_network = \<lparr>n_open = (\<lambda>w. (False, w)), n_write = (\<lambda>_ w. (None, w)), n_incoming = (\<lambda>w. ((True, []), w)),
                   n_between = (\<lambda>w. ((True, [], []), w))\<rparr>,
      d_parse = (\<lambda>t. if t = ''reply'' then Some (JObj [(''orders'', JArr []), (''nonce'', JInt 5), (''code'', JInt 200)]) else None),
      d_render = (\<lambda>_. []), d_signer = \<lparr>ns_lib = demo_native, ns_account_index = 1\<rparr>, d_heap = Map.empty,
      d_rest = \<lparr>rc_base = BASE_URL\<rparr>, d_key = 2\<rparr>"

lemma demo_replies:
  "from_str (d_parse demo_deps) de_active_orders ''reply'' = Some []"
  "from_str (d_parse demo_deps) de_tx_response ''reply'' = Some \<lparr>resp_code = 200, resp_message = [], volume_quota_remaining = None\<rparr>"
  "from_str (d_parse demo_deps) de_next_nonce ''reply'' = Some 5"
  by (simp_all add: from_str_def demo_deps_def de_active_orders_def de_tx_response_def de_next_nonce_def struct_fields_def
      defaulted_def required_def de_vec_def de_i64_def json_i64_def)

lemma demo_honest: "lists_orders demo_deps (\<lambda>_. [])"
  using demo_replies(1) by (simp add: lists_orders_def answered_def) (simp add: demo_deps_def error_status_def)

lemma demo_signs:
  "a_sign_cancel_all (live_api demo_deps) tif t n key = Inr \<lparr>st_type = 14, st_info = ''tx''\<rparr>"
  "fst (a_auth_token (live_api demo_deps) g) = Some ''token''"
proof -
  have "to_string_lossy ''tx'' = ''tx''" "to_string_lossy ''token'' = ''token''"
    by (rule to_string_lossy_ascii; simp add: byte_def)+
  then show "a_sign_cancel_all (live_api demo_deps) tif t n key = Inr \<lparr>st_type = 14, st_info = ''tx''\<rparr>"
    "fst (a_auth_token (live_api demo_deps) g) = Some ''token''"
    by (simp_all add: live_api_def demo_deps_def demo_native_def signed_of_def sign_cancel_all_orders_def call_sign_def decode_def
        take_cstring_def nonempty_def unwrap_or_default_def on_net_def fresh_token_def token_of_def generate_ws_auth_token_def create_auth_token_def)
qed

lemma demo_http [simp]: "d_http demo_deps q w = (Reply 200 (Some ''reply''), w)"
  by (simp add: demo_deps_def)

lemma demo_cancels: "fst (cancel_all_orders (live_api demo_deps) s)" "fst (fetch_active_orders (live_api demo_deps) s) = Some []"
proof -
  have send: "fst (a_send_tx (live_api demo_deps) ty info g) = Inr \<lparr>resp_code = 200, resp_message = [], volume_quota_remaining = None\<rparr>" for ty info g
    by (simp add: live_api_def on_net_def send_tx_def post_tx_def parse_tx_response_def demo_replies)
  show "fst (cancel_all_orders (live_api demo_deps) s)"
    by (simp add: cancel_all_orders_def demo_signs send next_nonce_def case_prod_beta Let_def)
  have orders: "fst (a_active_orders (live_api demo_deps) a m t g) = Some []" for a m t g
    by (simp add: live_api_def on_net_def account_active_orders_def get_json_answered answered_def demo_replies error_status_def)
  show "fst (fetch_active_orders (live_api demo_deps) s) = Some []"
    by (simp add: fetch_active_orders_def ask_world_def case_prod_beta demo_signs orders)
qed

definition demo_creds :: credentials where
  "demo_creds = \<lparr>api_key_private_key = ''key'', cr_api_key_index = 2, cr_account_index = 1, wallet_address = [], market_symbol = ''BTC''\<rparr>"

definition demo_cfg :: config where
  "demo_cfg = sample_config\<lparr>cfg_trading := (cfg_trading sample_config)\<lparr>set_leverage_on_startup := False\<rparr>\<rparr>"

theorem live_run_ends_flat_witness:
  "\<exists>s'. app_run (\<lambda>_. Some 1) demo_deps (\<lambda>h. Some (Inr (d_signer demo_deps), h)) set_locks ''/tmp'' 10 True demo_cfg demo_creds sample_detail 0
      [All_Text 5 ''garbage'', Internal Poll, Md_Lost] (sample_sender \<lparr>g_tx = tx_ws_new, g_net = ()\<rparr> 7) {} = Ended Shutdown_Signal True s'"
proof -
  let ?s = "(sample_sender \<lparr>g_tx = tx_ws_new, g_net = ()\<rparr> 7)\<lparr>s_market := bootstrap (\<lambda>_. Some 1) sample_detail\<rparr>" and ?api = "live_api demo_deps"
  let ?run = "app_run (\<lambda>_. Some 1) demo_deps (\<lambda>h. Some (Inr (d_signer demo_deps), h)) set_locks ''/tmp'' 10 True demo_cfg demo_creds sample_detail 0
      [All_Text 5 ''garbage'', Internal Poll, Md_Lost] (sample_sender \<lparr>g_tx = tx_ws_new, g_net = ()\<rparr> 7) {}"
  have ld: "loaded demo_deps (Some (Inr (d_signer demo_deps), d_heap demo_deps)) = Some demo_deps" by (simp add: loaded_def)
  note honest = live_api_honest [OF demo_honest]
  have lk: "acquire set_locks ''/tmp'' 10 1 2 {} = (Inr (), {lock_path ''/tmp'' 1 2})"
    by (simp add: acquire_def open_locked_def set_locks_def Let_def)
  have nn: "a_next_nonce ?api a k g = (Some 5, g)" for a k g
    by (simp add: live_api_def on_net_def rest_next_nonce_def get_json_answered answered_def demo_replies error_status_def)
  have "fst (live_start ?api set_locks ''/tmp'' 10 True (leverage_signer demo_deps) True demo_cfg demo_creds ?s {}) = None"
    using lk nn demo_cancels by (intro live_start_succeeds [OF honest]) (simp_all add: demo_creds_def demo_cfg_def)
  then obtain s1 o1 where st: "live_start ?api set_locks ''/tmp'' 10 True (leverage_signer demo_deps) True demo_cfg demo_creds ?s {} = (None, s1, o1)"
    by (metis prod.collapse)
  obtain y0 where y0: "launch (\<lambda>_. Some 1) 0 demo_cfg sample_detail s1 = Some y0"
    by (simp add: launch_def hot_new_def calculator_new_def rolling_new_def bootstrap_def demo_cfg_def sample_config_def sample_detail_def
        default_config_def default_trading_def default_vol_obi_cfg_def Let_def)
  obtain reason flat s' where run: "?run = Ended reason flat s'"
    and flat: "\<exists>s2. flat = fst (live_shutdown ?api s2)"
    using st y0 by (simp add: app_run_def ld Let_def case_prod_beta) blast
  have "flat" using flat reported_when_flat [OF honest] demo_cancels by (auto simp: live_shutdown_def case_prod_beta Let_def)
  with live_run_ends_flat [OF demo_honest run] run show ?thesis by auto
qed

text \<open>
  What the verdict rests on: the list of open orders is a defaulted field of the reply, so a
  successful reply that does not have it is an empty list.
\<close>

text \<open>
  C25. The flat-book verification cannot tell an answer without an order list from an empty book. If
  the exchange answers the open-order query with a success status and any JSON object that has no
  \<open>orders\<close> member, for example an error report, \<open>cancel_all_and_verify\<close> returns \<open>true\<close> at its
  first attempt, whatever orders are open and whether or not the cancel-all was accepted.
\<close>

theorem missing_order_list_counts_as_flat:
  assumes "\<And>w. token_of (generate_ws_auth_token (d_signer d) (fst (d_now_unix d w)) (d_key d) (d_heap d)) \<noteq> None"
    and "\<And>q w. \<exists>b w1. d_http d (Get (rest_url (d_rest d) ''/api/v1/accountActiveOrders'') q) w = (Reply 200 (Some b), w1) \<and>
      (\<exists>kvs. d_parse d b = Some (JObj kvs) \<and> ''orders'' \<notin> fst ` set kvs)"
  shows "fst (cancel_all_and_verify (live_api d) s)"
proof -
  have decodes: "from_str (d_parse d) de_active_orders b = Some []" if "d_parse d b = Some (JObj kvs)" "''orders'' \<notin> fst ` set kvs" for b kvs
  proof -
    have "filter (\<lambda>k. k = ''orders'') (map fst kvs) = []" using that(2) by (force simp: filter_empty_conv)
    moreover have "map_of kvs ''orders'' = None" using that(2) by (simp add: map_of_eq_None_iff)
    ultimately show ?thesis using that(1)
      by (simp add: from_str_def de_active_orders_def struct_fields_def defaulted_def)
  qed
  have orders: "fst (a_active_orders (live_api d) a m t g) = Some []" for a m t g
    using assms(2) [of "[(''account_index'', int_text (sint a)), (''market_id'', nat_text (unat m)), (''auth'', t)]" "g_net g"] decodes
    by (auto simp: live_api_def on_net_def account_active_orders_def get_json_answered answered_def error_status_def case_prod_beta)
  have token: "\<exists>t. fst (a_auth_token (live_api d) g) = Some t" for g
    using assms(1) [of "g_net g"] by (auto simp: live_api_def on_net_def fresh_token_def case_prod_beta)
  have "fst (fetch_active_orders (live_api d) s) = Some []" for s
    using token [of "s_world s"] orders by (auto simp: fetch_active_orders_def ask_world_def case_prod_beta)
  then have "fst (cancel_all_attempts (live_api d) (Suc k) s)" for k s
    by (simp add: case_prod_beta Let_def)
  from this [of 4] show ?thesis by (simp add: cancel_all_and_verify_def)
qed

definition refusing_deps :: "unit deps" where
  "refusing_deps = demo_deps\<lparr>d_parse := (\<lambda>t. if t = ''reply'' then Some (JObj [(''code'', JInt 20001), (''message'', JStr ''invalid auth'')]) else None)\<rparr>"

theorem missing_order_list_counts_as_flat_witness:
  "fst (cancel_all_and_verify (live_api refusing_deps) (sample_sender \<lparr>g_tx = tx_ws_new, g_net = ()\<rparr> 7))"
proof (rule missing_order_list_counts_as_flat)
  fix w show "token_of (generate_ws_auth_token (d_signer refusing_deps) (fst (d_now_unix refusing_deps w)) (d_key refusing_deps) (d_heap refusing_deps)) \<noteq> None"
    using demo_signs(2) [of "\<lparr>g_tx = tx_ws_new, g_net = w\<rparr>"]
    by (simp add: refusing_deps_def live_api_def on_net_def fresh_token_def case_prod_beta)
next
  fix q w
  show "\<exists>b w1. d_http refusing_deps (Get (rest_url (d_rest refusing_deps) ''/api/v1/accountActiveOrders'') q) w = (Reply 200 (Some b), w1) \<and>
      (\<exists>kvs. d_parse refusing_deps b = Some (JObj kvs) \<and> ''orders'' \<notin> fst ` set kvs)"
    by (simp add: refusing_deps_def)
qed

section \<open>Fills from the wire to the queue\<close>

text \<open>
  What the exchange reports, apart from how it is handled: the trades of this market in a message,
  the client ids of this account's orders in a trade, ask side first, and the fills of a trade of
  positive size.
\<close>

definition trades_of :: "string \<Rightarrow> account_all_msg \<Rightarrow> trade_payload list" where
  "trades_of mkt m = (case map_of (aa_trades m) mkt of None \<Rightarrow> [] | Some ts \<Rightarrow> ts)"

definition own_client_ids :: "int \<Rightarrow> trade_payload \<Rightarrow> int list" where
  "own_client_ids acct t = concat (map (\<lambda>(owner, cid). if owner = Some acct then (case cid of None \<Rightarrow> [] | Some i \<Rightarrow> [i]) else [])
     [(ask_account_id t, ask_client_id t), (bid_account_id t, bid_client_id t)])"

definition reported_fills :: "(string \<Rightarrow> f64 option) \<Rightarrow> int \<Rightarrow> trade_payload \<Rightarrow> order_event list" where
  "reported_fills fp acct t =
     (case Option.bind (tp_size t) fp of None \<Rightarrow> [] | Some z \<Rightarrow> if 0 < z then map (\<lambda>i. Fill i z) (own_client_ids acct t) else [])"

text \<open>A text spells an account message, or (\<open>None\<close>) it cannot be read as one.\<close>

definition account_text :: "(string \<Rightarrow> json option) \<Rightarrow> string \<Rightarrow> account_all_msg option \<Rightarrow> bool" where
  "account_text parse t mo \<longleftrightarrow>
     (case mo of None \<Rightarrow> from_str parse de_account_all t = None | Some m \<Rightarrow> \<exists>v. parse t = Some v \<and> account_all_form m v)"

lemma fill_events_reported: "fill_events fp acct t = reported_fills fp acct t"
  by (simp add: fill_events_def reported_fills_def own_client_ids_def parse_opt_f64_def split: option.split)

lemma on_account_all_events:
  "s_events (c_sender (on_account_all fp mkt ms m c)) =
     s_events (c_sender c) @ concat (map (reported_fills fp (sint (s_account_index (c_sender c)))) (trades_of mkt m)) \<and>
   s_account_index (c_sender (on_account_all fp mkt ms m c)) = s_account_index (c_sender c)"
  by (simp add: on_account_all_def trades_of_def tell_pnl_def emit_def upd_sender_def Let_def fill_events_reported [abs_def] split: option.split)

lemma account_texts_events:
  "list_all2 (account_text parse) ts ms \<Longrightarrow>
   s_events (c_sender (foldl (\<lambda>c (i, t). on_all_text parse fp mkt (clk i) t c) c (enumerate n ts))) =
     s_events (c_sender c) @
     concat (map (\<lambda>m. concat (map (reported_fills fp (sint (s_account_index (c_sender c)))) (trades_of mkt m))) (List.map_filter id ms))"
proof (induction ts ms arbitrary: c n rule: list_all2_induct)
  case (Cons t ts mo ms)
  show ?case
  proof (cases mo)
    case None
    then have "on_all_text parse fp mkt (clk n) t c = c" using Cons.hyps(1) by (simp add: account_text_def on_all_text_def)
    then show ?thesis using Cons.IH [of c "Suc n"] None by (simp add: List.map_filter_def)
  next
    case (Some m)
    then have "on_all_text parse fp mkt (clk n) t c = on_account_all fp mkt (clk n) m c"
      using Cons.hyps(1) by (auto simp: account_text_def on_all_text_def from_str_def account_all_read)
    then show ?thesis
      using Cons.IH [of "on_account_all fp mkt (clk n) m c" "Suc n"] Some by (simp add: List.map_filter_def on_account_all_events)
  qed
qed (simp add: List.map_filter_def)

lemma feed_texts_session:
  "feed_texts (map Session_Output out) = map snd (deliveries out)"
  by (induction out) (auto simp: feed_texts_def List.map_filter_def split: ws_output.splits)

lemma deliveries_subs [simp]: "deliveries (map (\<lambda>ch. Send_Subscribe (f ch)) chs) = []"
  by (induction chs) auto

text \<open>
  C8. Every fill the exchange reports reaches the decision task once and in order. While an account
  subscription runs, with any server pings, confirmations, non-JSON texts and keepalive ticks in
  between, and whatever the texts delivered are (account messages spelt in any way, a greeting, texts
  that cannot be read), the fill events in the lossless queue are: message by message, trade by
  trade of this market with a positive size, one fill of that size for each side of the trade that
  belongs to this account, under that side's client id; and nothing else.
\<close>

theorem fills_reach_the_queue:
  assumes auths: "auths \<noteq> []" and ok: "wr_connect_ok r" "length (so_channels opts) \<le> wr_sub_ok r"
    and turns: "xs = map (\<lambda>(_, now, x). (False, now, x)) (wr_turns r)"
    and alive: "fst (session_loop (type_probe (d_parse d)) (from_secs_f64 (so_recv_timeout opts)) xs (wr_start r)) = Running"
    and wire: "list_all2 (account_text (d_parse d)) (map snd (app_messages (type_probe (d_parse d)) xs)) ms"
  shows "s_events (c_sender (account_all_feed d fp mkt clk opts [(auths, r)] c)) =
    s_events (c_sender c) @
    concat (map (\<lambda>m. concat (map (reported_fills fp (sint (s_account_index (c_sender c)))) (trades_of mkt m))) (List.map_filter id ms))"
proof -
  let ?p = "type_probe (d_parse d)" and ?o = "opts\<lparr>so_channel_auths := auths\<rparr>"
  obtain t1 out where loop: "session_loop ?p (from_secs_f64 (so_recv_timeout opts)) xs (wr_start r) = (Running, t1, out)"
    using alive by (metis prod.collapse)
  from session_loop_prefix [OF loop] have del: "deliveries out = app_messages ?p xs" by auto
  have "session ?p (d_render d) ?o (wr_connect_ok r) (wr_sub_ok r) (wr_start r) xs =
      (Running, map (\<lambda>ch. Send_Subscribe (subscribe_frame (d_render d) ?o ch)) (so_channels opts) @ out)"
    using ok loop by (simp add: session_def Let_def)
  then have "feed_texts (subscribe_loop_authed ?p (d_render d) opts [(auths, r)] (so_reconnect_base opts)) = map snd (app_messages ?p xs)"
    using auths turns del by (simp add: Let_def feed_texts_session del: map_append)
  then show ?thesis
    using account_texts_events [OF wire, of fp mkt clk c 0] by (simp add: account_all_feed_def)
qed

text \<open>A greeting, a confirmation, a text that is no account message, a keepalive tick and the captured message.\<close>

definition greeting_json :: json where
  "greeting_json = JObj [(''session_id'', JStr ''x''), (''type'', JStr ''connected'')]"

definition greeting :: account_all_msg where
  "greeting = \<lparr>aa_msg_type = ''connected'', aa_positions = [], aa_trades = []\<rparr>"

definition feed_deps :: "unit deps" where
  "feed_deps = demo_deps\<lparr>d_parse := (\<lambda>t. if t = ''m'' then Some demo_all_json else if t = ''g'' then Some greeting_json
     else if t = ''c'' then Some (JObj [(''type'', JStr ''subscribed'')]) else if t = ''u'' then Some (JObj []) else None)\<rparr>"

lemma feed_probes:
  "type_probe (d_parse feed_deps) ''m'' = Some (Some ''update/account_all'')" "type_probe (d_parse feed_deps) ''g'' = Some (Some ''connected'')"
  "type_probe (d_parse feed_deps) ''c'' = Some (Some ''subscribed'')" "type_probe (d_parse feed_deps) ''u'' = Some None"
  by (simp_all add: type_probe_def feed_deps_def demo_all_json_def greeting_json_def struct_fields_def defaulted_def de_option_def de_string_def json_str_def)

lemma greeting_form: "account_all_form greeting greeting_json"
  by (simp add: greeting_def greeting_json_def account_all_form_def form_defs)

lemma feed_account_texts:
  "account_text (d_parse feed_deps) ''g'' (Some greeting)" "account_text (d_parse feed_deps) ''u'' None"
  "account_text (d_parse feed_deps) ''m'' (Some demo_all)"
  by (simp_all add: account_text_def feed_deps_def from_str_def de_account_all_def struct_fields_def required_def demo_all_form greeting_form)

lemma feed_fills:
  "trades_of ''1'' greeting = []" "trades_of ''1'' demo_all = [demo_trade]" "reported_fills (\<lambda>_. Some (1 / 2)) 7 demo_trade = [Fill 222 (1 / 2)]"
  by (simp_all add: greeting_def demo_all_def demo_trade_def trades_of_def reported_fills_def own_client_ids_def)

theorem fills_reach_the_queue_witness:
  "s_events (c_sender (account_all_feed feed_deps (\<lambda>_. Some (1 / 2)) ''1'' (\<lambda>_. 9) (options_new ''account_all'' [''account_all/7''])
      [([(''account_all/7'', ''token'')], \<lparr>wr_connect_ok = True, wr_sub_ok = 1, wr_start = 0,
         wr_turns = [(False, 1, Frame (Text ''g'')), (False, 1, Frame (Text ''c'')), (False, 1, Frame (Text ''u'')), (False, 2, Ping_Tick True),
           (False, 3, Frame (Text ''m''))], wr_elapsed = 0, wr_now_ms = 0\<rparr>)]
      \<lparr>c_sender = (sample_sender \<lparr>g_tx = tx_ws_new, g_net = ()\<rparr> 7)\<lparr>s_account_index := 7\<rparr>, c_prev_orphans = {}, c_tracked_ids = [],
         c_reconcile_swap = None, c_shared_pos = position_new\<rparr>)) = [Fill 222 (1 / 2)]"
proof -
  let ?turns = "[(False, 1, Frame (Text ''g'')), (False, 1, Frame (Text ''c'')), (False, 1, Frame (Text ''u'')), (False, 2, Ping_Tick True),
    (False, 3, Frame (Text ''m''))]"
  have to: "(0::int) \<le> from_secs_f64 30" "(1::int) \<le> from_secs_f64 30" "(2::int) \<le> from_secs_f64 30"
    using round_ties_even_of_int [of "30 * 10 ^ 9"] by (simp_all add: from_secs_f64_def)
  show ?thesis
    by (subst fills_reach_the_queue [where xs = ?turns and ms = "[Some greeting, None, Some demo_all]"])
      (use to in \<open>simp_all add: options_new_def session_turn_def on_frame_def app_message_def feed_probes feed_account_texts sample_sender_def
        List.map_filter_def feed_fills\<close>)
qed

end
