(* ===== verification/Json_Files.thy ===== *)
theory Json_Files
  imports Wire Pnl_Actor
begin

text \<open>
  The files the program keeps as JSON: the configuration (\<^verbatim>\<open>src/src/config.rs\<close>, read only) and the restart state
  (\<^verbatim>\<open>src/src/account/persistence.rs\<close>, written and read back). As in \<open>Wire\<close>, these are the decoders and the
  encoder the \<open>serde\<close> derivations stand for; the syntax of JSON is a pair of parameters.
\<close>

section \<open>Configuration\<close>

text \<open>
  A JSON number as \<open>f64\<close>, exact over the reals: the library's printer and reader may differ in the last
  bit of a double, and it prints an infinity or NaN as \<open>null\<close>, which this decoder refuses; a real is
  neither. Every field of a section is defaulted from the section's own defaults.
\<close>

definition de_f64 :: "json \<Rightarrow> f64 option" where
  "de_f64 v = (case v of JInt i \<Rightarrow> Some (of_int i) | JReal x \<Rightarrow> Some x | _ \<Rightarrow> None)"

definition de_vol_obi_cfg :: "json \<Rightarrow> vol_obi_cfg option" where
  "de_vol_obi_cfg v =
     Option.bind (struct_fields [''window_steps'', ''step_ns'', ''vol_to_half_spread'', ''min_half_spread_bps'', ''c1_ticks'', ''skew'',
         ''looking_depth'', ''min_warmup_samples'', ''warmup_seconds''] v) (\<lambda>f.
     Option.bind (defaulted f ''window_steps'' de_u64 (vo_window_steps default_vol_obi_cfg)) (\<lambda>x0.
     Option.bind (defaulted f ''step_ns'' de_i64 (vo_step_ns default_vol_obi_cfg)) (\<lambda>x1.
     Option.bind (defaulted f ''vol_to_half_spread'' de_f64 (vo_vol_to_half_spread default_vol_obi_cfg)) (\<lambda>x2.
     Option.bind (defaulted f ''min_half_spread_bps'' de_f64 (vo_min_half_spread_bps default_vol_obi_cfg)) (\<lambda>x3.
     Option.bind (defaulted f ''c1_ticks'' de_f64 (vo_c1_ticks default_vol_obi_cfg)) (\<lambda>x4.
     Option.bind (defaulted f ''skew'' de_f64 (vo_skew default_vol_obi_cfg)) (\<lambda>x5.
     Option.bind (defaulted f ''looking_depth'' de_f64 (vo_looking_depth default_vol_obi_cfg)) (\<lambda>x6.
     Option.bind (defaulted f ''min_warmup_samples'' de_i64 (vo_min_warmup_samples default_vol_obi_cfg)) (\<lambda>x7.
     Option.bind (defaulted f ''warmup_seconds'' de_f64 (vo_warmup_seconds default_vol_obi_cfg)) (\<lambda>x8.
     Some \<lparr>vo_window_steps = x0, vo_step_ns = x1, vo_vol_to_half_spread = x2, vo_min_half_spread_bps = x3,
           vo_c1_ticks = x4, vo_skew = x5, vo_looking_depth = x6, vo_min_warmup_samples = x7,
           vo_warmup_seconds = x8\<rparr>))))))))))"

definition de_alpha_cfg :: "json \<Rightarrow> alpha_cfg option" where
  "de_alpha_cfg v =
     Option.bind (struct_fields [''source'', ''stale_seconds'', ''window_size'', ''min_samples'', ''looking_depth'', ''bbo_min_samples'',
         ''bbo_stale_seconds'', ''depth_snapshot_limit''] v) (\<lambda>f.
     Option.bind (defaulted f ''source'' de_string (al_source default_alpha_cfg)) (\<lambda>x0.
     Option.bind (defaulted f ''stale_seconds'' de_f64 (al_stale_seconds default_alpha_cfg)) (\<lambda>x1.
     Option.bind (defaulted f ''window_size'' de_u64 (al_window_size default_alpha_cfg)) (\<lambda>x2.
     Option.bind (defaulted f ''min_samples'' de_u64 (al_min_samples default_alpha_cfg)) (\<lambda>x3.
     Option.bind (defaulted f ''looking_depth'' de_f64 (al_looking_depth default_alpha_cfg)) (\<lambda>x4.
     Option.bind (defaulted f ''bbo_min_samples'' de_u64 (al_bbo_min_samples default_alpha_cfg)) (\<lambda>x5.
     Option.bind (defaulted f ''bbo_stale_seconds'' de_f64 (al_bbo_stale_seconds default_alpha_cfg)) (\<lambda>x6.
     Option.bind (defaulted f ''depth_snapshot_limit'' de_u64 (al_depth_snapshot_limit default_alpha_cfg)) (\<lambda>x7.
     Some \<lparr>al_source = x0, al_stale_seconds = x1, al_window_size = x2, al_min_samples = x3,
           al_looking_depth = x4, al_bbo_min_samples = x5, al_bbo_stale_seconds = x6,
           al_depth_snapshot_limit = x7\<rparr>)))))))))"

definition de_live_quality :: "json \<Rightarrow> live_quality option" where
  "de_live_quality v =
     Option.bind (struct_fields [''markout_horizons_sec'', ''window_seconds'', ''adaptive_enabled'', ''adaptive_horizon_sec'',
         ''adverse_threshold_bps'', ''spread_widen_per_adverse_bps'', ''max_spread_multiplier'',
         ''size_reduce_per_adverse_bps'', ''min_size_multiplier'', ''metrics_flush_seconds''] v) (\<lambda>f.
     Option.bind (defaulted f ''markout_horizons_sec'' (de_vec de_f64) (lq_markout_horizons_sec default_live_quality)) (\<lambda>x0.
     Option.bind (defaulted f ''window_seconds'' de_f64 (lq_window_seconds default_live_quality)) (\<lambda>x1.
     Option.bind (defaulted f ''adaptive_enabled'' de_bool (lq_adaptive_enabled default_live_quality)) (\<lambda>x2.
     Option.bind (defaulted f ''adaptive_horizon_sec'' de_f64 (lq_adaptive_horizon_sec default_live_quality)) (\<lambda>x3.
     Option.bind (defaulted f ''adverse_threshold_bps'' de_f64 (lq_adverse_threshold_bps default_live_quality)) (\<lambda>x4.
     Option.bind (defaulted f ''spread_widen_per_adverse_bps'' de_f64 (lq_spread_widen_per_adverse_bps default_live_quality)) (\<lambda>x5.
     Option.bind (defaulted f ''max_spread_multiplier'' de_f64 (lq_max_spread_multiplier default_live_quality)) (\<lambda>x6.
     Option.bind (defaulted f ''size_reduce_per_adverse_bps'' de_f64 (lq_size_reduce_per_adverse_bps default_live_quality)) (\<lambda>x7.
     Option.bind (defaulted f ''min_size_multiplier'' de_f64 (lq_min_size_multiplier default_live_quality)) (\<lambda>x8.
     Option.bind (defaulted f ''metrics_flush_seconds'' de_f64 (lq_metrics_flush_seconds default_live_quality)) (\<lambda>x9.
     Some \<lparr>lq_markout_horizons_sec = x0, lq_window_seconds = x1, lq_adaptive_enabled = x2,
           lq_adaptive_horizon_sec = x3, lq_adverse_threshold_bps = x4, lq_spread_widen_per_adverse_bps = x5,
           lq_max_spread_multiplier = x6, lq_size_reduce_per_adverse_bps = x7, lq_min_size_multiplier = x8,
           lq_metrics_flush_seconds = x9\<rparr>)))))))))))"

definition de_inventory_exit_bias :: "json \<Rightarrow> inventory_exit_bias option" where
  "de_inventory_exit_bias v =
     Option.bind (struct_fields [''enabled'', ''min_ratio'', ''exit_tighten_per_ratio'', ''add_widen_per_ratio'', ''max_exit_tighten'',
         ''max_add_widen'', ''adverse_boost_per_bps''] v) (\<lambda>f.
     Option.bind (defaulted f ''enabled'' de_bool (enabled default_inventory_exit_bias)) (\<lambda>x0.
     Option.bind (defaulted f ''min_ratio'' de_f64 (min_ratio default_inventory_exit_bias)) (\<lambda>x1.
     Option.bind (defaulted f ''exit_tighten_per_ratio'' de_f64 (exit_tighten_per_ratio default_inventory_exit_bias)) (\<lambda>x2.
     Option.bind (defaulted f ''add_widen_per_ratio'' de_f64 (add_widen_per_ratio default_inventory_exit_bias)) (\<lambda>x3.
     Option.bind (defaulted f ''max_exit_tighten'' de_f64 (max_exit_tighten default_inventory_exit_bias)) (\<lambda>x4.
     Option.bind (defaulted f ''max_add_widen'' de_f64 (max_add_widen default_inventory_exit_bias)) (\<lambda>x5.
     Option.bind (defaulted f ''adverse_boost_per_bps'' de_f64 (adverse_boost_per_bps default_inventory_exit_bias)) (\<lambda>x6.
     Some \<lparr>enabled = x0, min_ratio = x1, exit_tighten_per_ratio = x2, add_widen_per_ratio = x3,
           max_exit_tighten = x4, max_add_widen = x5, adverse_boost_per_bps = x6\<rparr>))))))))"

definition de_trading :: "json \<Rightarrow> trading option" where
  "de_trading v =
     Option.bind (struct_fields [''leverage'', ''margin_mode'', ''levels_per_side'', ''base_amount'', ''capital_usage_percent'',
         ''default_quote_update_threshold_bps'', ''spread_factor_level1'', ''order_timeout_seconds'',
         ''position_value_threshold_usd'', ''min_order_value_usd'', ''maker_fee_rate'', ''quote_engine'',
         ''set_leverage_on_startup'', ''live_quality'', ''inventory_exit_bias'', ''vol_obi'', ''alpha''] v) (\<lambda>f.
     Option.bind (defaulted f ''leverage'' de_i32 (leverage default_trading)) (\<lambda>x0.
     Option.bind (defaulted f ''margin_mode'' de_string (margin_mode default_trading)) (\<lambda>x1.
     Option.bind (defaulted f ''levels_per_side'' de_u64 (levels_per_side default_trading)) (\<lambda>x2.
     Option.bind (defaulted f ''base_amount'' de_f64 (tr_base_amount default_trading)) (\<lambda>x3.
     Option.bind (defaulted f ''capital_usage_percent'' de_f64 (capital_usage_percent default_trading)) (\<lambda>x4.
     Option.bind (defaulted f ''default_quote_update_threshold_bps'' de_f64 (tr_default_quote_update_threshold_bps default_trading)) (\<lambda>x5.
     Option.bind (defaulted f ''spread_factor_level1'' de_f64 (spread_factor_level1 default_trading)) (\<lambda>x6.
     Option.bind (defaulted f ''order_timeout_seconds'' de_f64 (order_timeout_seconds default_trading)) (\<lambda>x7.
     Option.bind (defaulted f ''position_value_threshold_usd'' de_f64 (position_value_threshold_usd default_trading)) (\<lambda>x8.
     Option.bind (defaulted f ''min_order_value_usd'' de_f64 (min_order_value_usd default_trading)) (\<lambda>x9.
     Option.bind (defaulted f ''maker_fee_rate'' de_f64 (maker_fee_rate default_trading)) (\<lambda>x10.
     Option.bind (defaulted f ''quote_engine'' de_string (quote_engine default_trading)) (\<lambda>x11.
     Option.bind (defaulted f ''set_leverage_on_startup'' de_bool (set_leverage_on_startup default_trading)) (\<lambda>x12.
     Option.bind (defaulted f ''live_quality'' de_live_quality (tr_live_quality default_trading)) (\<lambda>x13.
     Option.bind (defaulted f ''inventory_exit_bias'' de_inventory_exit_bias (tr_inventory_exit_bias default_trading)) (\<lambda>x14.
     Option.bind (defaulted f ''vol_obi'' de_vol_obi_cfg (tr_vol_obi default_trading)) (\<lambda>x15.
     Option.bind (defaulted f ''alpha'' de_alpha_cfg (tr_alpha default_trading)) (\<lambda>x16.
     Some \<lparr>leverage = x0, margin_mode = x1, levels_per_side = x2, tr_base_amount = x3,
           capital_usage_percent = x4, tr_default_quote_update_threshold_bps = x5, spread_factor_level1 = x6,
           order_timeout_seconds = x7, position_value_threshold_usd = x8, min_order_value_usd = x9,
           maker_fee_rate = x10, quote_engine = x11, set_leverage_on_startup = x12, tr_live_quality = x13,
           tr_inventory_exit_bias = x14, tr_vol_obi = x15, tr_alpha = x16\<rparr>))))))))))))))))))"

definition de_performance :: "json \<Rightarrow> performance option" where
  "de_performance v =
     Option.bind (struct_fields [''min_loop_interval'', ''rate_limit_send_interval'', ''pin_hot_core''] v) (\<lambda>f.
     Option.bind (defaulted f ''min_loop_interval'' de_f64 (min_loop_interval default_performance)) (\<lambda>x0.
     Option.bind (defaulted f ''rate_limit_send_interval'' de_f64 (rate_limit_send_interval default_performance)) (\<lambda>x1.
     Option.bind (defaulted f ''pin_hot_core'' (de_option de_u64) (pin_hot_core default_performance)) (\<lambda>x2.
     Some \<lparr>min_loop_interval = x0, rate_limit_send_interval = x1, pin_hot_core = x2\<rparr>))))"

definition de_websocket_cfg :: "json \<Rightarrow> websocket_cfg option" where
  "de_websocket_cfg v =
     Option.bind (struct_fields [''ping_interval'', ''recv_timeout'', ''account_recv_timeout'', ''reconnect_base_delay'',
         ''reconnect_max_delay''] v) (\<lambda>f.
     Option.bind (defaulted f ''ping_interval'' de_f64 (ping_interval default_websocket_cfg)) (\<lambda>x0.
     Option.bind (defaulted f ''recv_timeout'' de_f64 (recv_timeout default_websocket_cfg)) (\<lambda>x1.
     Option.bind (defaulted f ''account_recv_timeout'' de_f64 (account_recv_timeout default_websocket_cfg)) (\<lambda>x2.
     Option.bind (defaulted f ''reconnect_base_delay'' de_f64 (reconnect_base_delay default_websocket_cfg)) (\<lambda>x3.
     Option.bind (defaulted f ''reconnect_max_delay'' de_f64 (reconnect_max_delay default_websocket_cfg)) (\<lambda>x4.
     Some \<lparr>ping_interval = x0, recv_timeout = x1, account_recv_timeout = x2, reconnect_base_delay = x3,
           reconnect_max_delay = x4\<rparr>))))))"

definition de_safety :: "json \<Rightarrow> safety option" where
  "de_safety v =
     Option.bind (struct_fields [''stale_order_poller_interval_sec'', ''stale_order_debounce_count'', ''max_consecutive_order_rejections'',
         ''circuit_breaker_cooldown_sec'', ''order_reconcile_timeout_sec'', ''max_live_orders_per_market'',
         ''panic_close_on_startup'', ''panic_close_on_shutdown'', ''md_deadman_sec'', ''book_sanity_divergence_bps'',
         ''position_change_hold_sec''] v) (\<lambda>f.
     Option.bind (defaulted f ''stale_order_poller_interval_sec'' de_f64 (stale_order_poller_interval_sec default_safety)) (\<lambda>x0.
     Option.bind (defaulted f ''stale_order_debounce_count'' de_u32 (stale_order_debounce_count default_safety)) (\<lambda>x1.
     Option.bind (defaulted f ''max_consecutive_order_rejections'' de_u32 (sf_max_consecutive_order_rejections default_safety)) (\<lambda>x2.
     Option.bind (defaulted f ''circuit_breaker_cooldown_sec'' de_f64 (sf_circuit_breaker_cooldown_sec default_safety)) (\<lambda>x3.
     Option.bind (defaulted f ''order_reconcile_timeout_sec'' de_f64 (order_reconcile_timeout_sec default_safety)) (\<lambda>x4.
     Option.bind (defaulted f ''max_live_orders_per_market'' de_u64 (max_live_orders_per_market default_safety)) (\<lambda>x5.
     Option.bind (defaulted f ''panic_close_on_startup'' de_bool (panic_close_on_startup default_safety)) (\<lambda>x6.
     Option.bind (defaulted f ''panic_close_on_shutdown'' de_bool (panic_close_on_shutdown default_safety)) (\<lambda>x7.
     Option.bind (defaulted f ''md_deadman_sec'' de_f64 (md_deadman_sec default_safety)) (\<lambda>x8.
     Option.bind (defaulted f ''book_sanity_divergence_bps'' de_f64 (book_sanity_divergence_bps default_safety)) (\<lambda>x9.
     Option.bind (defaulted f ''position_change_hold_sec'' de_f64 (position_change_hold_sec default_safety)) (\<lambda>x10.
     Some \<lparr>stale_order_poller_interval_sec = x0, stale_order_debounce_count = x1,
           sf_max_consecutive_order_rejections = x2, sf_circuit_breaker_cooldown_sec = x3,
           order_reconcile_timeout_sec = x4, max_live_orders_per_market = x5, panic_close_on_startup = x6,
           panic_close_on_shutdown = x7, md_deadman_sec = x8, book_sanity_divergence_bps = x9,
           position_change_hold_sec = x10\<rparr>))))))))))))"

definition de_pnl_cfg :: "json \<Rightarrow> pnl_cfg option" where
  "de_pnl_cfg v =
     Option.bind (struct_fields [''enabled'', ''snapshot_interval_seconds'', ''persist_dir'', ''include_unattributed_account_fills''] v) (\<lambda>f.
     Option.bind (defaulted f ''enabled'' de_bool (pnl_enabled default_pnl_cfg)) (\<lambda>x0.
     Option.bind (defaulted f ''snapshot_interval_seconds'' de_f64 (snapshot_interval_seconds default_pnl_cfg)) (\<lambda>x1.
     Option.bind (defaulted f ''persist_dir'' de_string (persist_dir default_pnl_cfg)) (\<lambda>x2.
     Option.bind (defaulted f ''include_unattributed_account_fills'' de_bool (include_unattributed_account_fills default_pnl_cfg)) (\<lambda>x3.
     Some \<lparr>pnl_enabled = x0, snapshot_interval_seconds = x1, persist_dir = x2,
           include_unattributed_account_fills = x3\<rparr>)))))"

definition de_config :: "json \<Rightarrow> config option" where
  "de_config v =
     Option.bind (struct_fields [''trading'', ''performance'', ''websocket'', ''safety'', ''pnl''] v) (\<lambda>f.
     Option.bind (defaulted f ''trading'' de_trading default_trading) (\<lambda>t.
     Option.bind (defaulted f ''performance'' de_performance default_performance) (\<lambda>p.
     Option.bind (defaulted f ''websocket'' de_websocket_cfg default_websocket_cfg) (\<lambda>w.
     Option.bind (defaulted f ''safety'' de_safety default_safety) (\<lambda>s.
     Option.bind (defaulted f ''pnl'' de_pnl_cfg default_pnl_cfg) (\<lambda>n.
     Some \<lparr>cfg_trading = t, cfg_performance = p, cfg_websocket = w, cfg_safety = s, cfg_pnl = n\<rparr>))))))"

definition config_load :: "(string \<Rightarrow> json option) \<Rightarrow> files \<Rightarrow> string \<Rightarrow> string + config" where
  "config_load parse fs path =
     (case fs path of
        None \<Rightarrow> Inl (''reading config '' @ path)
      | Some s \<Rightarrow> (case from_str parse de_config s of None \<Rightarrow> Inl ''parsing config json'' | Some cfg \<Rightarrow> Inr cfg))"

text \<open>The whole of \<open>main\<close> up to the run, on the file system.\<close>

definition main_startup ::
  "(string \<Rightarrow> json option) \<Rightarrow> files \<Rightarrow> (string \<rightharpoonup> string) \<Rightarrow> string list \<Rightarrow> startup_error + (mode \<times> config \<times> credentials)" where
  "main_startup parse fs env args = startup (config_load parse fs) (\<lambda>p. fs p \<noteq> None) env args"

section \<open>The restart state\<close>

definition en_live_state :: "live_state \<Rightarrow> json" where
  "en_live_state s = en_obj
     [(''account_index'', Some (JInt (ls_account_index s))), (''market_id'', Some (JInt (uint (ls_market_id s)))),
      (''position_size_est'', Some (JReal (ls_position_size_est s))), (''entry_vwap'', Some (JReal (ls_entry_vwap s))),
      (''realized_pnl_cumulative'', Some (JReal (ls_realized_pnl_cumulative s))), (''fill_count'', Some (JInt (int (ls_fill_count s)))),
      (''volume_usd'', Some (JReal (ls_volume_usd s))), (''exchange_position_size'', Some (JReal (ls_exchange_position_size s))),
      (''exchange_entry_vwap'', Some (case ls_exchange_entry_vwap s of None \<Rightarrow> JNull | Some x \<Rightarrow> JReal x)),
      (''portfolio_value'', Some (JReal (ls_portfolio_value s))), (''available_capital'', Some (JReal (ls_available_capital s))),
      (''symbol'', Some (JStr (ls_symbol s))), (''updated_at'', Some (JStr (ls_updated_at s)))]"

definition de_live_state :: "json \<Rightarrow> live_state option" where
  "de_live_state v =
     Option.bind (struct_fields [''account_index'', ''market_id'', ''position_size_est'', ''entry_vwap'', ''realized_pnl_cumulative'',
         ''fill_count'', ''volume_usd'', ''exchange_position_size'', ''exchange_entry_vwap'', ''portfolio_value'', ''available_capital'',
         ''symbol'', ''updated_at''] v) (\<lambda>f.
     Option.bind (defaulted f ''account_index'' de_i64 0) (\<lambda>acct.
     Option.bind (defaulted f ''market_id'' de_u32 0) (\<lambda>mkt.
     Option.bind (defaulted f ''position_size_est'' de_f64 0) (\<lambda>pos.
     Option.bind (defaulted f ''entry_vwap'' de_f64 0) (\<lambda>vwap.
     Option.bind (defaulted f ''realized_pnl_cumulative'' de_f64 0) (\<lambda>pnl.
     Option.bind (defaulted f ''fill_count'' de_u64 0) (\<lambda>fills.
     Option.bind (defaulted f ''volume_usd'' de_f64 0) (\<lambda>vol.
     Option.bind (defaulted f ''exchange_position_size'' de_f64 0) (\<lambda>xpos.
     Option.bind (optional f ''exchange_entry_vwap'' de_f64) (\<lambda>xvwap.
     Option.bind (defaulted f ''portfolio_value'' de_f64 0) (\<lambda>pv.
     Option.bind (defaulted f ''available_capital'' de_f64 0) (\<lambda>cap.
     Option.bind (defaulted f ''symbol'' de_string []) (\<lambda>symb.
     Option.bind (defaulted f ''updated_at'' de_string []) (\<lambda>upd.
     Some \<lparr>ls_account_index = acct, ls_market_id = mkt, ls_position_size_est = pos, ls_entry_vwap = vwap,
           ls_realized_pnl_cumulative = pnl, ls_fill_count = fills, ls_volume_usd = vol, ls_exchange_position_size = xpos,
           ls_exchange_entry_vwap = xvwap, ls_portfolio_value = pv, ls_available_capital = cap, ls_symbol = symb,
           ls_updated_at = upd\<rparr>))))))))))))))"

section \<open>Reading back\<close>

text \<open>The start-up of \<open>main\<close> on a missing file uses the decoded empty object: these are the defaults.\<close>

lemma empty_config_is_default: "de_config (JObj []) = Some default_config"
  by (simp add: de_config_def struct_fields_def defaulted_def default_config_def)

lemma sections_default [simp]:
  "de_trading (JObj []) = Some default_trading" "de_safety (JObj []) = Some default_safety"
  by (simp_all add: de_trading_def de_safety_def struct_fields_def defaulted_def)

definition state_fits :: "live_state \<Rightarrow> bool" where
  "state_fits s \<longleftrightarrow> i64_min \<le> ls_account_index s \<and> ls_account_index s \<le> i64_max \<and> ls_fill_count s < 2 ^ 64"

lemma live_state_round:
  assumes "state_fits s"
  shows "de_live_state (en_live_state s) = Some s"
proof -
  have m: "de_u32 (JInt (uint (ls_market_id s))) = Some (ls_market_id s)"
    using uint_lt2p [of "ls_market_id s"] by (simp add: de_u32_def de_int_def)
  have c: "de_u64 (JInt (int (ls_fill_count s))) = Some (ls_fill_count s)"
    using assms by (auto simp: state_fits_def de_u64_def de_int_def)
  have a: "de_i64 (JInt (ls_account_index s)) = Some (ls_account_index s)"
    using assms by (simp add: state_fits_def de_i64_def json_i64_def)
  show ?thesis
    unfolding de_live_state_def en_live_state_def defaulted_def
    by (subst struct_fields_en_obj)
      (simp_all add: m c a de_f64_def de_string_def json_str_def de_option_def split: option.split)
qed

text \<open>
  C18. A restart loses nothing, through the file itself: after a flush whose save succeeds, an actor
  started on the same directory for the same account and market reads the state back field by field
  and has the cumulative PnL, fill count, notional, position estimate and entry price of the one
  that stopped. Of the JSON library only this is assumed: the text it prints for the stored value is
  read back as that value.
\<close>

theorem restart_through_json:
  assumes "flush_all (lib\<lparr>tl_state := (\<lambda>s. render (en_live_state s))\<rparr>) ms io a fs = (a', fs')" "all_written (fi_state io)" "snd ms \<noteq> []"
    "pa_store a = store_new (persist_dir cfg) symbol"
    and "state_fits (live_state_of a')"
    and "let v = en_live_state (stamped (snd ms) (pa_store a) (live_state_of a')) in parse (render v @ [CHR 10]) = Some v"
    and "actor_new (lib\<lparr>tl_state := (\<lambda>s. render (en_live_state s))\<rparr>) (from_str parse de_live_state) io' ms' cfg symbol (pa_market_id a) (pa_account_index a) rate bbo der fs' = (Some b, fs'')"
  shows "pa_realized b = pa_realized a \<and> pa_fills b = pa_fills a \<and> pa_notional b = pa_notional a \<and>
    position_size (pa_accounting b) = position_size (pa_accounting a) \<and> entry_vwap (pa_accounting b) = entry_vwap (pa_accounting a)"
proof -
  let ?s = "stamped (snd ms) (pa_store a) (live_state_of a')"
  have "state_fits ?s" using assms(5) by (simp add: state_fits_def stamped_def)
  from live_state_round [OF this] assms(6)
  have "from_str parse de_live_state (render (en_live_state ?s) @ [CHR 10]) = Some ?s"
    by (simp add: from_str_def Let_def)
  then show ?thesis by (intro restart_restores [OF assms(1-4) _ assms(7)]) simp
qed

definition json_lib :: text_lib where
  "json_lib = sample_lib\<lparr>tl_state := (\<lambda>s. (\<lambda>_. ''state'') (en_live_state s))\<rparr>"

theorem restart_through_json_witness:
  "let f = flush_all json_lib (0, ''t'') sample_flush sample_actor (snd sample_new);
       parse = (\<lambda>_. Some (en_live_state (stamped ''t'' (pa_store sample_actor) (live_state_of (fst f)))));
       b = the (fst (actor_new json_lib (from_str parse de_live_state) sample_start (0, ''t'') default_pnl_cfg ''BTC'' (pa_market_id sample_actor)
                       (pa_account_index sample_actor) 0 (bbo_new 1) derived_new (snd f)))
   in pa_fills b = pa_fills sample_actor"
proof -
  obtain a' fs' where f: "flush_all json_lib (0, ''t'') sample_flush sample_actor (snd sample_new) = (a', fs')" by fastforce
  define parse where "parse = (\<lambda>_ :: string. Some (en_live_state (stamped ''t'' (pa_store sample_actor) (live_state_of a'))))"
  let ?new = "actor_new json_lib (from_str parse de_live_state) sample_start (0, ''t'') default_pnl_cfg ''BTC'' (pa_market_id sample_actor)
                (pa_account_index sample_actor) 0 (bbo_new 1) derived_new fs'"
  have store: "pa_store sample_actor = store_new (persist_dir default_pnl_cfg) ''BTC''"
    by (simp add: sample_actor_eq restored_actor_def default_pnl_cfg_def Let_def)
  have "fst ?new \<noteq> None"
    by (simp add: actor_new_def sample_start_def logger_new_def ensure_header_def ensure_snapshot_header_def rewrite_file_def
        Let_def split: prod.splits option.splits)
  then obtain b fs'' where n: "?new = (Some b, fs'')" by (metis option.exhaust prod.collapse)
  have "all_written (fi_state sample_flush)" by (simp add: sample_flush_def sample_atomic_def all_written_def)
  note fl = flush_all_saves [OF f this]
  have "books a' = books (sample_actor\<lparr>pa_log := []\<rparr>)" "pa_account_index a' = pa_account_index sample_actor" using fl by simp_all
  moreover have "pa_fills sample_actor = 0" "pa_account_index sample_actor = 1"
    by (simp_all add: sample_actor_eq restored_actor_def default_live_state_def pnl_summary_of_def refresh_mid_def Let_def)
  ultimately have fits: "state_fits (live_state_of a')" by (simp add: state_fits_def live_state_of_def books_def)
  have "pa_fills b = pa_fills sample_actor"
    using restart_through_json [of "\<lambda>_. ''state''" sample_lib "(0, ''t'')" sample_flush sample_actor "snd sample_new" a' fs'
        default_pnl_cfg "''BTC''" parse sample_start "(0, ''t'')" 0 "bbo_new 1" derived_new b fs''] f n store fits
    by (simp add: json_lib_def parse_def sample_flush_def sample_atomic_def all_written_def Let_def)
  then show ?thesis using n by (simp add: f parse_def Let_def)
qed

text \<open>
  C19. A crash never corrupts the stored state. While the restart state is saved the process may die
  between any two operations on the disk, and any of them may fail: whenever it stops, the next start
  reads either the state stored before or the state being saved, whole, and when the save reported
  success it is the latter. The symbol has no slash in it (it names a file), and of the JSON library
  it is assumed that the text it prints for the saved value is read back as that value.
\<close>

theorem crash_keeps_a_whole_state:
  assumes "CHR ''/'' \<notin> set symbol" "st = store_new dir symbol" "state_fits state"
    and "let v = en_live_state (stamped now st state) in parse (render v @ [CHR 10]) = Some v"
    and "g \<in> set (atomic_json_moments ''.tmp-'' io fs (st_path st) (render (en_live_state (stamped now st state))))"
  shows "load (from_str parse de_live_state) g st \<in> {load (from_str parse de_live_state) fs st, stamped now st state} \<and>
    (case save (\<lambda>s. render (en_live_state s)) now io fs st state of
       (ok, fs') \<Rightarrow> fs' \<in> set (atomic_json_moments ''.tmp-'' io fs (st_path st) (render (en_live_state (stamped now st state)))) \<and>
         (ok \<longrightarrow> load (from_str parse de_live_state) fs' st = stamped now st state))"
proof -
  let ?enc = "\<lambda>s. render (en_live_state s)" and ?s = "stamped now st state"
  have "state_fits ?s" using assms(3) by (simp add: state_fits_def stamped_def)
  from live_state_round [OF this] assms(4)
  have dec: "from_str parse de_live_state (?enc ?s @ [CHR 10]) = Some ?s" by (simp add: from_str_def Let_def)
  obtain ok fs' where sv: "save ?enc now io fs st state = (ok, fs')" by fastforce
  then have w: "atomic_json_write ''.tmp-'' io fs (st_path st) (?enc ?s) = (ok, fs')" by (simp add: save_def stamped_def)
  have "load (from_str parse de_live_state) fs' st = ?s" if ok
    using save_writes [OF sv] atomic_write_ok [of "''.tmp-''" io fs "st_path st" "?enc ?s"] w that dec by (simp add: load_def)
  moreover have "fs' \<in> set (atomic_json_moments ''.tmp-'' io fs (st_path st) (?enc ?s))"
    using last_moment [of "''.tmp-''" io fs "st_path st" "?enc ?s"] w by simp
  ultimately show ?thesis
    using load_after_crash [of symbol "from_str parse de_live_state" ?enc, OF assms(1) dec assms(2,5)] sv by simp
qed

text \<open>Dying with the new text half written: the old state is read.\<close>

theorem crash_keeps_a_whole_state_witness:
  "let st = store_new ''log'' ''BTC''; v = en_live_state (stamped ''t'' st default_live_state); dec = from_str (\<lambda>t. if t = ''new'' @ [CHR 10] then Some v else None) de_live_state;
       fs = [st_path st \<mapsto> ''old'']; g = fs(temp_path ''.tmp-'' sample_atomic (st_path st) \<mapsto> ''n'')
   in load dec g st \<in> {load dec fs st, stamped ''t'' st default_live_state}"
proof -
  define st where "st = store_new ''log'' ''BTC''"
  define v where "v = en_live_state (stamped ''t'' st default_live_state)"
  define parse where "parse = (\<lambda>t. if t = ''new'' @ [CHR 10] then Some v else None)"
  define fs :: files where "fs = [st_path st \<mapsto> ''old'']"
  let ?g = "fs(temp_path ''.tmp-'' sample_atomic (st_path st) \<mapsto> ''n'')"
  have "?g \<in> set (atomic_json_moments ''.tmp-'' sample_atomic fs (st_path st) ''new'')"
    unfolding moment_iff
    by (rule exI [of _ 2]) (simp add: atomic_ops_def write_ops_def written_bytes_def sample_atomic_def Let_def numeral_eq_Suc)
  moreover have "state_fits default_live_state" by (simp add: state_fits_def default_live_state_def)
  moreover have "parse (''new'' @ [CHR 10]) = Some v" by (simp add: parse_def)
  ultimately have "load (from_str parse de_live_state) ?g st \<in> {load (from_str parse de_live_state) fs st, stamped ''t'' st default_live_state}"
    using crash_keeps_a_whole_state [of "''BTC''" st "''log''" default_live_state "''t''" parse "\<lambda>_. ''new''" ?g sample_atomic fs]
    by (simp add: st_def [symmetric] v_def [symmetric])
  then show ?thesis unfolding parse_def fs_def v_def st_def Let_def .
qed

end
