(* ===== verification/Program.thy ===== *)
theory Program
  imports Live_App Json_Files
begin

text \<open>
  The whole program (\<open>main\<close> of \<^verbatim>\<open>src/src/main.rs\<close>): start-up from the command line and the files, the market
  resolved over REST, then the run of \<open>App::run\<close> in the mode chosen, live (\<open>Live_App\<close>) or dry. A dry run has
  the market-data feed, the imbalance feeds and the decision task, and none of the cold tasks.
\<close>

section \<open>The dry run\<close>

definition dry_launch :: "(string \<Rightarrow> f64 option) \<Rightarrow> instant \<Rightarrow> config \<Rightarrow> order_book_detail \<Rightarrow> hot_task option" where
  "dry_launch fp now cfg detail =
     (let m = bootstrap fp detail;
          base = base_amount_seed cfg m
      in map_option (\<lambda>h. h\<lparr>h_loop_start := Some now\<rparr>)
           (hot_new now m cfg base (alpha_new (al_min_samples (tr_alpha (cfg_trading cfg)))) position_new
              (seed_derived DryRun base) None DryRun))"

text \<open>Of the steps of a run those remain that do not belong to a cold task.\<close>

definition dry_step :: "sys_step \<Rightarrow> hot_step option" where
  "dry_step e =
     (case e of
        Market_Data msg t ms \<Rightarrow> Some (Book_Message msg t ms)
      | Ticker msg t \<Rightarrow> Some (Ticker_Message msg t)
      | Md_Disconnect \<Rightarrow> Some Disconnected
      | Alpha_Update a \<Rightarrow> Some (Alpha_Cell a)
      | _ \<Rightarrow> None)"

definition dry_step_fun :: "(string \<Rightarrow> json option) \<Rightarrow> (string \<Rightarrow> f64 option) \<Rightarrow> hot_task option \<Rightarrow> raw_step \<Rightarrow> hot_task option" where
  "dry_step_fun parse fp h r =
     (case Option.bind (decode_step parse fp r) dry_step of None \<Rightarrow> h | Some e \<Rightarrow> hot_step_fun fp h e)"

fun dry_until :: "(string \<Rightarrow> json option) \<Rightarrow> (string \<Rightarrow> f64 option) \<Rightarrow> hot_task option \<Rightarrow> raw_step list \<Rightarrow> exit_reason \<times> hot_task option" where
  "dry_until parse fp h [] = (Shutdown_Signal, h)"
| "dry_until parse fp h (r # rs) =
     (let h1 = dry_step_fun parse fp h r in if h1 = None then (Hot_Exited, h1) else dry_until parse fp h1 rs)"

datatype dry_end = Dry_Panicked | Dry_Ended exit_reason "hot_task option"

definition dry_run :: "(string \<Rightarrow> json option) \<Rightarrow> (string \<Rightarrow> f64 option) \<Rightarrow> instant \<Rightarrow> config \<Rightarrow> order_book_detail \<Rightarrow> raw_step list \<Rightarrow> dry_end" where
  "dry_run parse fp now cfg detail rs =
     (case dry_launch fp now cfg detail of
        None \<Rightarrow> Dry_Panicked
      | Some h0 \<Rightarrow> (let (reason, h) = dry_until parse fp (Some h0) rs in Dry_Ended reason h))"

section \<open>From the command line to the end\<close>

datatype 'w program_end =
    Startup_Failed startup_error
  | Market_Unknown \<comment> \<open>the market could not be resolved\<close>
  | Live_Run "'w app_end"
  | Dry_Run dry_end 'w

definition program ::
  "(string \<Rightarrow> f64 option) \<Rightarrow> 'w deps \<Rightarrow> (cheap \<Rightarrow> ((load_error + native_signer) \<times> cheap) option) \<Rightarrow> 'o lock_os \<Rightarrow> string \<Rightarrow> nat \<Rightarrow> bool
   \<Rightarrow> files \<Rightarrow> (string \<rightharpoonup> string) \<Rightarrow> string list \<Rightarrow> instant \<Rightarrow> raw_step list \<Rightarrow> 'w rig sender \<Rightarrow> 'o \<Rightarrow> 'w program_end" where
  "program fp d load_signer locks tmp pid pnl_ok fs env args now rs s o' =
     (case main_startup (d_parse d) fs env args of
        Inl e \<Rightarrow> Startup_Failed e
      | Inr (md, cfg, creds) \<Rightarrow>
          (case app_bootstrap fp d creds (g_net (s_world s)) of
             (None, w) \<Rightarrow> Market_Unknown
           | (Some (detail, _), w) \<Rightarrow>
               (case md of
                  Live_Mode \<Rightarrow> Live_Run (app_run fp d load_signer locks tmp pid pnl_ok cfg creds detail now rs
                                           (s\<lparr>s_world := (s_world s)\<lparr>g_net := w\<rparr>\<rparr>) o')
                | DryRun \<Rightarrow> Dry_Run (dry_run (d_parse d) fp now cfg detail rs) w)))"

section \<open>A dry run places nothing\<close>

lemma dry_launch_wf:
  assumes "dry_launch fp now cfg detail = Some h"
  shows "hot_state_wf (max (levels_per_side (cfg_trading cfg)) 1) DryRun (Some h)"
  using assms hot_new_wf by (fastforce simp: dry_launch_def Let_def hot_state_wf_def hot_wf_def)

lemma dry_step_ok: "dry_step e = Some x \<Longrightarrow> hot_step_ok n h x"
  by (cases e) (auto simp: dry_step_def hot_step_ok_def)

lemma dry_step_keeps:
  assumes "hot_state_wf n DryRun h"
  shows "hot_state_wf n DryRun (dry_step_fun parse fp h r)"
proof (cases "Option.bind (decode_step parse fp r) dry_step")
  case None
  then show ?thesis using assms by (simp add: dry_step_fun_def)
next
  case (Some x)
  then have "hot_step_ok n h x" by (auto simp: bind_eq_Some_conv intro: dry_step_ok)
  from hot.step_inv [OF assms this] show ?thesis by (simp add: dry_step_fun_def Some)
qed

lemma dry_until_alive:
  assumes "hot_state_wf n DryRun h"
  shows "fst (dry_until parse fp h rs) = Shutdown_Signal \<and> hot_state_wf n DryRun (snd (dry_until parse fp h rs))"
  using assms
proof (induction rs arbitrary: h)
  case (Cons r rs)
  from dry_step_keeps [OF Cons.prems] have "hot_state_wf n DryRun (dry_step_fun parse fp h r)" .
  with Cons.IH [OF this] show ?case by (auto simp: Let_def hot_state_wf_def split: option.splits)
qed simp

lemma dry_launch_panics:
  "dry_launch fp now cfg detail = None \<longleftrightarrow> vo_window_steps (tr_vol_obi (cfg_trading cfg)) = 0"
  by (auto simp: dry_launch_def hot_new_def calculator_new_def rolling_new_def bootstrap_def Let_def)

text \<open>
  C7. Only a validated live command trades. Whatever the arguments, the files, the environment and
  the texts of the feeds: the program enters a live run only if the last of the mode flags on the
  command line (\<open>--live\<close>, \<open>--dry-run\<close>, \<open>--shadow\<close>, not counting values of other flags) is \<open>--live\<close>, and then
  that run is the live run on the configuration read from the file named last, which names the
  engine and has leverage, levels, capital share and spread in range. Without it the run is dry, on the
  configuration of that file or, only if there is no such file, on the defaults; its only request to the
  exchange is the one that resolves the market; its decision task lives to the shutdown signal
  and publishes no operation, unless the configured window is empty, in which case it never starts.
\<close>

theorem only_validated_live_command_trades:
  "case program fp d load_signer locks tmp pid pnl_ok fs env args now rs s o' of
     Startup_Failed e \<Rightarrow> True
   | Market_Unknown \<Rightarrow> True
   | Live_Run e \<Rightarrow> asks_live args \<and>
       (\<exists>cfg creds detail w. config_load (d_parse d) fs (named_config args) = Inr cfg \<and>
          e = app_run fp d load_signer locks tmp pid pnl_ok cfg creds detail now rs (s\<lparr>s_world := (s_world s)\<lparr>g_net := w\<rparr>\<rparr>) o' \<and>
          eq_ignore_ascii_case (quote_engine (cfg_trading cfg)) ''vol_obi'' \<and> 1 \<le> leverage (cfg_trading cfg) \<and>
          1 \<le> levels_per_side (cfg_trading cfg) \<and> 0 < capital_usage_percent (cfg_trading cfg) \<and>
          0 < spread_factor_level1 (cfg_trading cfg))
   | Dry_Run e w \<Rightarrow> \<not> asks_live args \<and>
       (\<exists>name. w = snd (market_detail (d_parse d) (d_http d) (d_rest d) name (g_net (s_world s)))) \<and>
       (\<exists>cfg detail. e = dry_run (d_parse d) fp now cfg detail rs \<and>
          (config_load (d_parse d) fs (named_config args) = Inr cfg \<or> fs (named_config args) = None \<and> cfg = default_config) \<and>
          (case e of
             Dry_Panicked \<Rightarrow> vo_window_steps (tr_vol_obi (cfg_trading cfg)) = 0
           | Dry_Ended reason h \<Rightarrow> reason = Shutdown_Signal \<and> (\<exists>t. h = Some t \<and> om_wf (h_om t) \<and> set (h_ops t) \<subseteq> {[]})))"
proof (cases "program fp d load_signer locks tmp pid pnl_ok fs env args now rs s o'")
  case (Live_Run e)
  then obtain cfg creds detail w where st: "main_startup (d_parse d) fs env args = Inr (Live_Mode, cfg, creds)"
    and e: "e = app_run fp d load_signer locks tmp pid pnl_ok cfg creds detail now rs (s\<lparr>s_world := (s_world s)\<lparr>g_net := w\<rparr>\<rparr>) o'"
    by (auto simp: program_def split: sum.splits prod.splits option.splits mode.splits)
  then have "asks_live args \<and> config_load (d_parse d) fs (named_config args) = Inr cfg \<and> validate_live cfg = Inr ()"
    by (auto simp: main_startup_def startup_def command_line Let_def split: sum.splits if_splits)
  with e validate_live_ok [of cfg] show ?thesis unfolding Live_Run by auto
next
  case (Dry_Run e w)
  then obtain cfg creds detail where st: "main_startup (d_parse d) fs env args = Inr (DryRun, cfg, creds)"
    and w: "w = snd (app_bootstrap fp d creds (g_net (s_world s)))" and e: "e = dry_run (d_parse d) fp now cfg detail rs"
    by (auto simp: program_def split: sum.splits prod.splits option.splits mode.splits)
  from st have "\<not> asks_live args" and cfg: "config_load (d_parse d) fs (named_config args) = Inr cfg \<or>
      fs (named_config args) = None \<and> cfg = default_config"
    by (auto simp: main_startup_def startup_def command_line Let_def split: sum.splits if_splits)
  moreover have "w = snd (market_detail (d_parse d) (d_http d) (d_rest d) (market_symbol creds) (g_net (s_world s)))"
    using w by (simp add: app_bootstrap_def case_prod_beta Let_def)
  moreover have "case e of Dry_Panicked \<Rightarrow> vo_window_steps (tr_vol_obi (cfg_trading cfg)) = 0
      | Dry_Ended reason h \<Rightarrow> reason = Shutdown_Signal \<and> (\<exists>t. h = Some t \<and> om_wf (h_om t) \<and> set (h_ops t) \<subseteq> {[]})"
  proof (cases "dry_launch fp now cfg detail")
    case (Some h0)
    from dry_until_alive [OF dry_launch_wf [OF Some], of "d_parse d" fp rs] show ?thesis
      by (auto simp: e dry_run_def Some case_prod_beta Let_def hot_state_wf_def hot_wf_def split: option.splits)
  next
    case None
    with dry_launch_panics [of fp now cfg detail] show ?thesis by (simp add: e dry_run_def)
  qed
  ultimately show ?thesis unfolding Dry_Run using e by auto
qed simp_all

end
