(* ===== verification/Live_Metrics.thy ===== *)
theory Live_Metrics
  imports Config Shared Trade_Log
begin

text \<open>
  \<^verbatim>\<open>src/src/metrics/live_metrics.rs\<close>: markouts of recent fills at several horizons and the defensive
  quote adjustment derived from them. \<open>settle_markouts\<close> is the source's nest of loops over fills
  and horizons; its specification works per horizon. The optional CSV sink is modelled with its
  text; each line may fail to be written on its own.
\<close>

section \<open>State\<close>

definition PENDING_CAP :: nat where "PENDING_CAP = 2000"
definition MARKOUT_CAP :: nat where "MARKOUT_CAP = 10000"
definition MIN_SAMPLE_COUNT :: nat where "MIN_SAMPLE_COUNT = 4"
definition LONG_HORIZON_WEIGHT :: f64 where "LONG_HORIZON_WEIGHT = 3 / 4"

text \<open>\<open>f64::EPSILON\<close>\<close>

definition F64_EPSILON :: f64 where "F64_EPSILON = 1 / 2 ^ 52"

record pending_fill =
  pf_recorded_at_ms :: nat
  pf_side :: side
  pf_price :: f64
  pf_size :: f64
  pf_mid_at_fill :: "f64 option"
  pf_settled_horizons :: "f64 list"

record quality_adjustment =
  qa_spread_multiplier :: f64
  qa_size_multiplier :: f64
  qa_adverse_bps :: f64
  qa_sample_count :: nat
  qa_reason :: string

definition default_adjustment :: quality_adjustment where
  "default_adjustment =
     \<lparr>qa_spread_multiplier = 1, qa_size_multiplier = 1, qa_adverse_bps = 0, qa_sample_count = 0, qa_reason = ''neutral''\<rparr>"

type_synonym markout_sample = "nat \<times> f64 \<times> f64" \<comment> \<open>time, markout, adverse\<close>

record live_metrics_tracker =
  lm_horizons :: "f64 list"
  lm_window_ms :: nat
  lm_adaptive_enabled :: bool
  lm_adaptive_horizon :: f64
  lm_adverse_threshold_bps :: f64
  lm_spread_widen_per_bps :: f64
  lm_max_spread_multiplier :: f64
  lm_size_reduce_per_bps :: f64
  lm_min_size_multiplier :: f64
  lm_pending :: "pending_fill list"
  lm_markouts :: "markout_sample list list"
  lm_last_adjustment :: quality_adjustment
  lm_markout_csv :: "string option"

text \<open>\<open>(x * 1000.0) as u64\<close>\<close>

definition millis :: "f64 \<Rightarrow> nat" where
  "millis x = min (nat \<lfloor>x * 1000\<rfloor>) U64_MAX"

fun dedup_horizons :: "f64 list \<Rightarrow> f64 list" where
  "dedup_horizons (x # y # ys) =
     (if \<bar>y - x\<bar> < F64_EPSILON then dedup_horizons (x # ys) else x # dedup_horizons (y # ys))"
| "dedup_horizons xs = xs"

definition tracker_new :: "live_quality \<Rightarrow> live_metrics_tracker" where
  "tracker_new cfg =
     (let horizons = dedup_horizons (sort (filter (\<lambda>h. 0 < h) (lq_markout_horizons_sec cfg)));
          max_horizon = foldl max 1 horizons;
          window_seconds = max (lq_window_seconds cfg) max_horizon
      in \<lparr>lm_horizons = horizons, lm_window_ms = millis window_seconds, lm_adaptive_enabled = lq_adaptive_enabled cfg,
          lm_adaptive_horizon = lq_adaptive_horizon_sec cfg, lm_adverse_threshold_bps = lq_adverse_threshold_bps cfg,
          lm_spread_widen_per_bps = max (lq_spread_widen_per_adverse_bps cfg) 0,
          lm_max_spread_multiplier = max (lq_max_spread_multiplier cfg) 1,
          lm_size_reduce_per_bps = max (lq_size_reduce_per_adverse_bps cfg) 0,
          lm_min_size_multiplier = clamp (lq_min_size_multiplier cfg) (5 / 100) 1, lm_pending = [],
          lm_markouts = map (\<lambda>_. []) horizons, lm_last_adjustment = default_adjustment, lm_markout_csv = None\<rparr>)"

definition MARKOUT_HEADER :: string where
  "MARKOUT_HEADER = ''timestamp_ms,side,fill_price,size,mid_at_fill,mid_at_markout,horizon_sec,markout_bps,adverse_bps''"

text \<open>A line that \<open>writeln!\<close> sends to an open file, errors swallowed.\<close>

definition line_bytes :: "write_outcome \<Rightarrow> string \<Rightarrow> string" where
  "line_bytes w row = written_bytes w (row @ [CHR 10])"

definition append_lines :: "bool \<Rightarrow> (nat \<Rightarrow> write_outcome) \<Rightarrow> string \<Rightarrow> string list \<Rightarrow> files \<Rightarrow> files" where
  "append_lines open_ok w path rows fs =
     (if \<not> open_ok then fs
      else fs(path \<mapsto> (case fs path of None \<Rightarrow> [] | Some old \<Rightarrow> old) @ concat (map2 (\<lambda>i row. line_bytes (w i) row) [0..<length rows] rows)))"

definition set_markout_csv :: "bool \<Rightarrow> bool \<Rightarrow> (nat \<Rightarrow> write_outcome) \<Rightarrow> string \<Rightarrow> live_metrics_tracker \<Rightarrow> files \<Rightarrow> live_metrics_tracker \<times> files" where
  "set_markout_csv metadata_ok open_ok w path t fs =
     (let needs_header = (if metadata_ok then (case fs path of None \<Rightarrow> True | Some c \<Rightarrow> c = []) else True)
      in (t\<lparr>lm_markout_csv := Some path\<rparr>, if needs_header then append_lines open_ok w path [MARKOUT_HEADER] fs else fs))"

section \<open>Fills and markouts\<close>

text \<open>A mid is always finite here, so the source's \<open>finite\<close> keeps it.\<close>

definition record_fill :: "side \<Rightarrow> f64 \<Rightarrow> f64 \<Rightarrow> f64 option \<Rightarrow> nat \<Rightarrow> live_metrics_tracker \<Rightarrow> live_metrics_tracker" where
  "record_fill sd price sz mid now t =
     (if \<not> 0 < price \<or> \<not> 0 < sz then t
      else let kept = (if PENDING_CAP \<le> length (lm_pending t) then drop 1 (lm_pending t) else lm_pending t)
           in t\<lparr>lm_pending := kept @ [\<lparr>pf_recorded_at_ms = now, pf_side = sd, pf_price = price, pf_size = sz,
                                       pf_mid_at_fill = mid, pf_settled_horizons = []\<rparr>]\<rparr>)"

definition markout_bps :: "side \<Rightarrow> f64 \<Rightarrow> f64 \<Rightarrow> f64" where
  "markout_bps sd price mid = (case sd of Buy \<Rightarrow> (mid - price) / price * 10000 | Sell \<Rightarrow> (price - mid) / price * 10000)"

text \<open>The horizon is reached and not yet settled.\<close>

definition due :: "nat \<Rightarrow> f64 \<Rightarrow> pending_fill \<Rightarrow> bool" where
  "due now h obs \<longleftrightarrow>
     \<not> (\<exists>s \<in> set (pf_settled_horizons obs). \<bar>s - h\<bar> < F64_EPSILON) \<and> \<not> now - pf_recorded_at_ms obs < millis h"

definition sample_of :: "nat \<Rightarrow> f64 \<Rightarrow> pending_fill \<Rightarrow> markout_sample" where
  "sample_of now mid obs = (let m = markout_bps (pf_side obs) (pf_price obs) mid in (now, m, max (- m) 0))"

definition push_window :: "markout_sample list \<Rightarrow> markout_sample \<Rightarrow> markout_sample list" where
  "push_window win x = (if MARKOUT_CAP \<le> length win then drop 1 win else win) @ [x]"

definition markout_row :: "nat \<Rightarrow> f64 \<Rightarrow> f64 \<Rightarrow> pending_fill \<Rightarrow> string" where
  "markout_row now mid h obs =
     (let (_, m, adverse) = sample_of now mid obs; sep = '',''
      in nat_text now @ sep @ as_str (pf_side obs) @ sep @ fixed_text 10 (pf_price obs) @ sep @ fixed_text 8 (pf_size obs) @ sep @
         opt (pf_mid_at_fill obs) (fixed_text 10) @ sep @ fixed_text 10 mid @ sep @ fixed_text 3 h @ sep @ fixed_text 6 m @ sep @
         fixed_text 6 adverse)"

text \<open>The inner loop over the indexed horizons, for one fill; rows are collected for the sink.\<close>

fun settle_fill ::
  "nat \<Rightarrow> f64 \<Rightarrow> (nat \<times> f64) list \<Rightarrow> pending_fill \<times> markout_sample list list \<times> string list \<Rightarrow> pending_fill \<times> markout_sample list list \<times> string list" where
  "settle_fill now mid [] st = st"
| "settle_fill now mid ((hi, h) # hs) (obs, wins, rows) =
     (if due now h obs
      then settle_fill now mid hs (obs\<lparr>pf_settled_horizons := pf_settled_horizons obs @ [h]\<rparr>,
             wins[hi := push_window (wins ! hi) (sample_of now mid obs)], rows @ [markout_row now mid h obs])
      else settle_fill now mid hs (obs, wins, rows))"

text \<open>The outer loop; fills with every horizon settled are dropped.\<close>

fun settle_pending ::
  "nat \<Rightarrow> f64 \<Rightarrow> f64 list \<Rightarrow> pending_fill list \<Rightarrow> markout_sample list list \<Rightarrow> string list \<Rightarrow> pending_fill list \<times> markout_sample list list \<times> string list" where
  "settle_pending now mid hs [] wins rows = ([], wins, rows)"
| "settle_pending now mid hs (obs # rest) wins rows =
     (let (obs1, wins1, rows1) = settle_fill now mid (enumerate 0 hs) (obs, wins, rows);
          (keep, wins2, rows2) = settle_pending now mid hs rest wins1 rows1
      in (if length (pf_settled_horizons obs1) < length hs then obs1 # keep else keep, wins2, rows2))"

definition settle_markouts ::
  "bool \<Rightarrow> (nat \<Rightarrow> write_outcome) \<Rightarrow> nat \<Rightarrow> f64 \<Rightarrow> live_metrics_tracker \<Rightarrow> files \<Rightarrow> live_metrics_tracker \<times> files" where
  "settle_markouts open_ok w now mid t fs =
     (let (keep, wins, rows) = settle_pending now mid (lm_horizons t) (lm_pending t) (lm_markouts t) []
      in (t\<lparr>lm_pending := keep, lm_markouts := wins\<rparr>,
          case lm_markout_csv t of None \<Rightarrow> fs | Some path \<Rightarrow> if rows = [] then fs else append_lines open_ok w path rows fs))"

definition prune :: "nat \<Rightarrow> live_metrics_tracker \<Rightarrow> live_metrics_tracker" where
  "prune now t =
     (let cutoff = now - lm_window_ms t in t\<lparr>lm_markouts := map (dropWhile (\<lambda>(ts, _, _). ts < cutoff)) (lm_markouts t)\<rparr>)"

section \<open>The adjustment\<close>

text \<open>The first index with the least distance to the target.\<close>

fun nearest_from :: "f64 \<Rightarrow> f64 list \<Rightarrow> nat \<Rightarrow> nat \<times> f64 \<Rightarrow> nat" where
  "nearest_from target [] i best = fst best"
| "nearest_from target (h # hs) i best =
     nearest_from target hs (Suc i) (if \<bar>h - target\<bar> < \<bar>snd best - target\<bar> then (i, h) else best)"

definition nearest_horizon_idx :: "live_metrics_tracker \<Rightarrow> f64 \<Rightarrow> nat option" where
  "nearest_horizon_idx t target =
     (if list_all (\<lambda>w. w = []) (lm_markouts t) then None
      else case lm_horizons t of [] \<Rightarrow> None | h # hs \<Rightarrow> Some (nearest_from target hs 1 (0, h)))"

definition mean_adverse :: "live_metrics_tracker \<Rightarrow> nat \<Rightarrow> f64" where
  "mean_adverse t idx =
     (let win = lm_markouts t ! idx
      in if win = [] then 0 else sum_list (map (\<lambda>(_, _, adverse). adverse) win) / of_nat (length win))"

text \<open>Step 3 of the source's comment: the adverse mean, raised by a longer horizon with enough samples.\<close>

definition boosted_adverse :: "live_metrics_tracker \<Rightarrow> nat \<Rightarrow> f64" where
  "boosted_adverse t idx =
     (let adverse = mean_adverse t idx;
          long_horizon = foldl max (lm_adaptive_horizon t) (lm_horizons t)
      in if F64_EPSILON < \<bar>long_horizon - lm_adaptive_horizon t\<bar>
         then case nearest_horizon_idx t long_horizon of
                None \<Rightarrow> adverse
              | Some long_idx \<Rightarrow>
                  if MIN_SAMPLE_COUNT \<le> length (lm_markouts t ! long_idx)
                  then max adverse (mean_adverse t long_idx * LONG_HORIZON_WEIGHT) else adverse
         else adverse)"

definition compute_adjustment :: "live_metrics_tracker \<Rightarrow> quality_adjustment" where
  "compute_adjustment t =
     (if \<not> lm_adaptive_enabled t then default_adjustment\<lparr>qa_reason := ''disabled''\<rparr>
      else case nearest_horizon_idx t (lm_adaptive_horizon t) of
             None \<Rightarrow> default_adjustment\<lparr>qa_reason := ''insufficient_markouts''\<rparr>
           | Some idx \<Rightarrow>
               let count = length (lm_markouts t ! idx)
               in if count < MIN_SAMPLE_COUNT
                  then default_adjustment\<lparr>qa_sample_count := count, qa_reason := ''insufficient_markouts''\<rparr>
                  else let adverse = boosted_adverse t idx; excess = max (adverse - lm_adverse_threshold_bps t) 0
                       in if excess \<le> 0
                          then \<lparr>qa_spread_multiplier = 1, qa_size_multiplier = 1, qa_adverse_bps = adverse, qa_sample_count = count,
                                qa_reason = ''healthy''\<rparr>
                          else \<lparr>qa_spread_multiplier = min (1 + excess * lm_spread_widen_per_bps t) (lm_max_spread_multiplier t),
                                qa_size_multiplier = max (1 - excess * lm_size_reduce_per_bps t) (lm_min_size_multiplier t),
                                qa_adverse_bps = adverse, qa_sample_count = count, qa_reason = ''adverse_markout''\<rparr>)"

definition tracker_update :: "bool \<Rightarrow> (nat \<Rightarrow> write_outcome) \<Rightarrow> nat \<Rightarrow> f64 \<Rightarrow> live_metrics_tracker \<Rightarrow> files \<Rightarrow> live_metrics_tracker \<times> files" where
  "tracker_update open_ok w now mid t fs =
     (let (t1, fs1) = (if 0 < mid then settle_markouts open_ok w now mid t fs else (t, fs));
          t2 = prune now t1
      in (t2\<lparr>lm_last_adjustment := compute_adjustment t2\<rparr>, fs1))"

definition current_adjustment :: "live_metrics_tracker \<Rightarrow> quality_adjustment" where
  "current_adjustment t = lm_last_adjustment t"

section \<open>Settlement, horizon by horizon\<close>

abbreviation apart :: "f64 list \<Rightarrow> bool" where
  "apart \<equiv> sorted_wrt (\<lambda>x y. F64_EPSILON \<le> y - x)"

lemma dedup_horizons_subset: "set (dedup_horizons xs) \<subseteq> set xs"
  by (induction xs rule: dedup_horizons.induct) auto

lemma dedup_horizons_apart: "sorted xs \<Longrightarrow> apart (dedup_horizons xs)"
proof (induction xs rule: dedup_horizons.induct)
  case (1 x y ys)
  show ?case
  proof (cases "\<bar>y - x\<bar> < F64_EPSILON")
    case False
    have "F64_EPSILON \<le> z - x" if "z \<in> set (dedup_horizons (y # ys))" for z
    proof -
      have "y \<le> z" using that dedup_horizons_subset[of "y # ys"] 1(3) by auto
      moreover have "x \<le> y" using 1(3) by simp
      ultimately show ?thesis using False by simp
    qed
    then show ?thesis using False 1 by simp
  qed (use 1 in auto)
qed auto

definition settled_fill :: "nat \<Rightarrow> f64 list \<Rightarrow> pending_fill \<Rightarrow> pending_fill" where
  "settled_fill now hs obs = obs\<lparr>pf_settled_horizons := pf_settled_horizons obs @ filter (\<lambda>h. due now h obs) hs\<rparr>"

lemma due_after_other: "F64_EPSILON \<le> \<bar>h - h'\<bar> \<Longrightarrow> due now h' (obs\<lparr>pf_settled_horizons := pf_settled_horizons obs @ [h]\<rparr>) = due now h' obs"
  by (auto simp: due_def)

lemma sample_of_settled [simp]: "sample_of now mid (obs\<lparr>pf_settled_horizons := x\<rparr>) = sample_of now mid obs"
  by (simp add: sample_of_def)

lemma settle_fill_spec:
  assumes "apart hs" "settle_fill now mid (enumerate n hs) (obs, wins, rows) = (obs', wins', rows')"
  shows "obs' = settled_fill now hs obs \<and> length wins' = length wins \<and>
    (\<forall>j < length wins. wins' ! j = (if n \<le> j \<and> j < n + length hs \<and> due now (hs ! (j - n)) obs
                                  then push_window (wins ! j) (sample_of now mid obs) else wins ! j))"
  using assms
proof (induction hs arbitrary: n obs wins rows)
  case Nil
  then show ?case by (auto simp: settled_fill_def)
next
  case (Cons h hs)
  define o1 where "o1 = (if due now h obs then obs\<lparr>pf_settled_horizons := pf_settled_horizons obs @ [h]\<rparr> else obs)"
  define w1 where "w1 = (if due now h obs then wins[n := push_window (wins ! n) (sample_of now mid obs)] else wins)"
  obtain rows1 where r: "settle_fill now mid (enumerate (Suc n) hs) (o1, w1, rows1) = (obs', wins', rows')"
    using Cons.prems(2) by (auto simp: enumerate_simps o1_def w1_def split: if_splits)
  have d: "due now h' o1 = due now h' obs" if "h' \<in> set hs" for h'
  proof -
    have "F64_EPSILON \<le> \<bar>h - h'\<bar>" using Cons.prems(1) that by fastforce
    then show ?thesis using due_after_other by (simp add: o1_def)
  qed
  have same: "sample_of now mid o1 = sample_of now mid obs" "length w1 = length wins" by (simp_all add: o1_def w1_def)
  have IH: "obs' = settled_fill now hs o1" "length wins' = length wins"
      "\<And>j. j < length wins \<Longrightarrow> wins' ! j = (if Suc n \<le> j \<and> j < Suc n + length hs \<and> due now (hs ! (j - Suc n)) o1
                                then push_window (w1 ! j) (sample_of now mid obs) else w1 ! j)"
    using Cons.IH[OF _ r] Cons.prems(1) same by auto
  have "filter (\<lambda>h. due now h o1) hs = filter (\<lambda>h. due now h obs) hs" using d by (intro filter_cong) auto
  then have o: "obs' = settled_fill now (h # hs) obs" using IH(1) by (simp add: settled_fill_def o1_def)
  have "wins' ! j = (if n \<le> j \<and> j < n + length (h # hs) \<and> due now ((h # hs) ! (j - n)) obs
                     then push_window (wins ! j) (sample_of now mid obs) else wins ! j)" if j: "j < length wins" for j
  proof (cases "j = n")
    case False
    have "due now (hs ! (j - Suc n)) o1 = due now (hs ! (j - Suc n)) obs" if "Suc n \<le> j" "j < Suc n + length hs"
      using that by (intro d) simp
    then show ?thesis using IH(3)[OF j] False by (auto simp: w1_def nth_Cons' Suc_le_eq)
  qed (use IH(3)[OF j] j in \<open>simp add: w1_def\<close>)
  then show ?case using o IH(2) by simp
qed

text \<open>
  All fills: each kept fill has the due horizons added, and the window of each horizon gets one
  sample per fill for which it was due, in the order of the fills.
\<close>

lemma settle_pending_spec:
  assumes "apart hs" "settle_pending now mid hs ps wins rows = (keep, wins', rows')" "length wins = length hs"
  shows "keep = filter (\<lambda>p. length (pf_settled_horizons p) < length hs) (map (settled_fill now hs) ps) \<and> length wins' = length hs \<and>
    (\<forall>j < length hs. wins' ! j = foldl push_window (wins ! j) (map (sample_of now mid) (filter (due now (hs ! j)) ps)))"
  using assms(2,3)
proof (induction ps arbitrary: wins rows keep wins' rows')
  case Nil
  then show ?case by auto
next
  case (Cons p ps)
  obtain o1 w1 r1 where s: "settle_fill now mid (enumerate 0 hs) (p, wins, rows) = (o1, w1, r1)" by (metis prod.exhaust)
  obtain k2 w2 r2 where t: "settle_pending now mid hs ps w1 r1 = (k2, w2, r2)" by (metis prod.exhaust)
  note f = settle_fill_spec[OF assms(1) s]
  have IH: "k2 = filter (\<lambda>p. length (pf_settled_horizons p) < length hs) (map (settled_fill now hs) ps)" "length w2 = length hs"
      "\<forall>j < length hs. w2 ! j = foldl push_window (w1 ! j) (map (sample_of now mid) (filter (due now (hs ! j)) ps))"
    using Cons.IH[OF t] f Cons.prems(2) by auto
  have "keep = (if length (pf_settled_horizons o1) < length hs then o1 # k2 else k2)" "wins' = w2"
    using Cons.prems(1) s t by auto
  then show ?case using IH f Cons.prems(2) by auto
qed

text \<open>Pushing into a bounded window keeps the last \<open>MARKOUT_CAP\<close> samples.\<close>

lemma push_window_last:
  assumes "length win \<le> MARKOUT_CAP"
  shows "foldl push_window win xs = drop (length win + length xs - MARKOUT_CAP) (win @ xs)"
  using assms
proof (induction xs arbitrary: win)
  case (Cons x xs)
  have cap: "0 < MARKOUT_CAP" by (simp add: MARKOUT_CAP_def)
  have len: "length (push_window win x) \<le> MARKOUT_CAP" using Cons.prems cap by (auto simp: push_window_def)
  show ?case
  proof (cases "length win = MARKOUT_CAP")
    case True
    obtain y ys where "win = y # ys" using True cap by (cases win) auto
    moreover have "Suc (length ys + length xs) - MARKOUT_CAP = length xs" "Suc (length xs) - MARKOUT_CAP = length xs - length ys"
      using True calculation by simp_all
    ultimately show ?thesis using Cons.IH[OF len] True by (simp add: push_window_def)
  next
    case False
    then show ?thesis using Cons.IH[OF len] Cons.prems by (simp add: push_window_def)
  qed
qed simp

section \<open>Invariant\<close>

definition window_ok :: "markout_sample list \<Rightarrow> bool" where
  "window_ok w \<longleftrightarrow> length w \<le> MARKOUT_CAP \<and> (\<forall>x \<in> set w. 0 \<le> snd (snd x))"

definition pending_ok :: "f64 list \<Rightarrow> pending_fill \<Rightarrow> bool" where
  "pending_ok hs p \<longleftrightarrow> distinct (pf_settled_horizons p) \<and> set (pf_settled_horizons p) \<subseteq> set hs"

definition adjustment_ok :: "live_metrics_tracker \<Rightarrow> quality_adjustment \<Rightarrow> bool" where
  "adjustment_ok t q \<longleftrightarrow> 1 \<le> qa_spread_multiplier q \<and> qa_spread_multiplier q \<le> lm_max_spread_multiplier t \<and>
     lm_min_size_multiplier t \<le> qa_size_multiplier q \<and> qa_size_multiplier q \<le> 1 \<and> 0 \<le> qa_adverse_bps q"

definition tracker_inv :: "live_metrics_tracker \<Rightarrow> bool" where
  "tracker_inv t \<longleftrightarrow> apart (lm_horizons t) \<and> length (lm_markouts t) = length (lm_horizons t) \<and> list_all window_ok (lm_markouts t) \<and>
     length (lm_pending t) \<le> PENDING_CAP \<and> list_all (pending_ok (lm_horizons t)) (lm_pending t) \<and>
     0 \<le> lm_spread_widen_per_bps t \<and> 1 \<le> lm_max_spread_multiplier t \<and> 0 \<le> lm_size_reduce_per_bps t \<and>
     5 / 100 \<le> lm_min_size_multiplier t \<and> lm_min_size_multiplier t \<le> 1 \<and> adjustment_ok t (lm_last_adjustment t)"

lemma apart_distinct: "apart hs \<Longrightarrow> distinct hs"
  by (induction hs) (auto simp: F64_EPSILON_def)

lemma settled_pending_ok:
  assumes "apart hs" "pending_ok hs p"
  shows "pending_ok hs (settled_fill now hs p)"
proof -
  have "\<not> due now h p" if "h \<in> set (pf_settled_horizons p)" for h
    using that by (force simp: due_def F64_EPSILON_def intro!: bexI[of _ h])
  then show ?thesis using assms(2) apart_distinct[OF assms(1)] by (auto simp: pending_ok_def settled_fill_def)
qed

lemma nearest_from_bound: "fst best < i \<Longrightarrow> nearest_from target hs i best < i + length hs"
proof (induction hs arbitrary: i best)
  case (Cons h hs)
  show ?case using Cons.IH[of "if \<bar>h - target\<bar> < \<bar>snd best - target\<bar> then (i, h) else best" "Suc i"] Cons.prems by simp
qed simp

lemma nearest_horizon_idx_bound: "nearest_horizon_idx t target = Some i \<Longrightarrow> i < length (lm_horizons t)"
  using nearest_from_bound[of "(0, hd (lm_horizons t))" 1 target "tl (lm_horizons t)"]
  by (auto simp: nearest_horizon_idx_def split: if_splits list.splits)

lemma mean_adverse_nonneg:
  assumes "list_all window_ok (lm_markouts t)" "i < length (lm_markouts t)"
  shows "0 \<le> mean_adverse t i"
proof -
  have "window_ok (lm_markouts t ! i)" using assms by (simp add: list_all_length)
  then have "0 \<le> sum_list (map (\<lambda>(_, _, adverse). adverse) (lm_markouts t ! i))"
    by (intro sum_list_nonneg) (fastforce simp: window_ok_def)
  then show ?thesis by (simp add: mean_adverse_def Let_def)
qed

lemma compute_adjustment_ok:
  assumes "tracker_inv t"
  shows "adjustment_ok t (compute_adjustment t)"
proof -
  have i: "list_all window_ok (lm_markouts t)" "length (lm_markouts t) = length (lm_horizons t)" "0 \<le> lm_spread_widen_per_bps t"
      "1 \<le> lm_max_spread_multiplier t" "0 \<le> lm_size_reduce_per_bps t" "lm_min_size_multiplier t \<le> 1"
    using assms by (simp_all add: tracker_inv_def)
  have b: "0 \<le> boosted_adverse t idx" if "nearest_horizon_idx t x = Some idx" for idx x
  proof -
    have "0 \<le> mean_adverse t idx"
      using that nearest_horizon_idx_bound i(2) by (intro mean_adverse_nonneg[OF i(1)]) metis
    then show ?thesis by (auto simp: boosted_adverse_def Let_def split: option.splits)
  qed
  show ?thesis
    using i b unfolding adjustment_ok_def compute_adjustment_def
    by (auto simp: default_adjustment_def Let_def split: option.splits)
qed

lemma window_ok_push:
  assumes "window_ok w"
  shows "window_ok (foldl push_window w (map (sample_of now mid) ps))"
proof -
  have "0 \<le> snd (snd (sample_of now mid p))" for p by (simp add: sample_of_def Let_def)
  then show ?thesis
    using assms push_window_last[of w] unfolding window_ok_def
    by (auto dest!: in_set_dropD simp del: split_paired_All) (metis snd_conv)
qed

lemma settle_markouts_result:
  assumes "tracker_inv t"
  shows "fst (settle_markouts op w now mid t fs) =
    t\<lparr>lm_pending := filter (\<lambda>p. length (pf_settled_horizons p) < length (lm_horizons t)) (map (settled_fill now (lm_horizons t)) (lm_pending t)),
      lm_markouts := map2 (\<lambda>h win. foldl push_window win (map (sample_of now mid) (filter (due now h) (lm_pending t)))) (lm_horizons t) (lm_markouts t)\<rparr>"
proof -
  obtain keep wins rows where s: "settle_pending now mid (lm_horizons t) (lm_pending t) (lm_markouts t) [] = (keep, wins, rows)"
    by (metis prod.exhaust)
  have "apart (lm_horizons t)" "length (lm_markouts t) = length (lm_horizons t)" using assms by (simp_all add: tracker_inv_def)
  note p = settle_pending_spec[OF this(1) s this(2)]
  have "wins = map2 (\<lambda>h win. foldl push_window win (map (sample_of now mid) (filter (due now h) (lm_pending t)))) (lm_horizons t) (lm_markouts t)"
    by (rule nth_equalityI) (use p \<open>length (lm_markouts t) = length (lm_horizons t)\<close> in auto)
  then show ?thesis using s p by (simp add: settle_markouts_def)
qed

lemma settle_markouts_inv [inv_intros]: "tracker_inv t \<Longrightarrow> tracker_inv (fst (settle_markouts op w now mid t fs))"
proof -
  assume t: "tracker_inv t"
  have "list_all window_ok (map2 (\<lambda>h win. foldl push_window win (map (sample_of now mid) (filter (due now h) (lm_pending t)))) (lm_horizons t) (lm_markouts t))"
    using t window_ok_push by (auto simp: tracker_inv_def list_all_iff dest: set_zip_rightD)
  moreover have "list_all (pending_ok (lm_horizons t)) (filter (\<lambda>p. length (pf_settled_horizons p) < length (lm_horizons t)) (map (settled_fill now (lm_horizons t)) (lm_pending t)))"
    using t settled_pending_ok by (auto simp: tracker_inv_def list_all_iff)
  ultimately show ?thesis
    using t length_filter_le[of "\<lambda>p. length (pf_settled_horizons p) < length (lm_horizons t)" "map (settled_fill now (lm_horizons t)) (lm_pending t)"]
    unfolding settle_markouts_result[OF t] by (auto simp: tracker_inv_def adjustment_ok_def simp del: length_filter_le)
qed

lemma prune_inv [inv_intros]: "tracker_inv t \<Longrightarrow> tracker_inv (prune now t)"
proof -
  assume t: "tracker_inv t"
  have "window_ok (dropWhile P w)" if "window_ok w" for P w
    using that length_dropWhile_le[of P w] by (auto simp: window_ok_def dest: set_dropWhileD)
  then show ?thesis using t by (auto simp: tracker_inv_def prune_def Let_def list_all_iff adjustment_ok_def)
qed

lemma tracker_update_inv [inv_intros]: "tracker_inv t \<Longrightarrow> tracker_inv (fst (tracker_update op w now mid t fs))"
proof -
  assume t: "tracker_inv t"
  define t1 where "t1 = prune now (fst (if 0 < mid then settle_markouts op w now mid t fs else (t, fs)))"
  have "tracker_inv t1" unfolding t1_def using t settle_markouts_inv prune_inv by auto
  moreover have "fst (tracker_update op w now mid t fs) = t1\<lparr>lm_last_adjustment := compute_adjustment t1\<rparr>"
    by (simp add: tracker_update_def t1_def Let_def split: prod.splits)
  ultimately show ?thesis using compute_adjustment_ok[of t1] by (simp add: tracker_inv_def adjustment_ok_def)
qed

lemma record_fill_inv [inv_intros]: "tracker_inv t \<Longrightarrow> tracker_inv (record_fill sd price sz mid now t)"
  by (auto simp: tracker_inv_def record_fill_def Let_def PENDING_CAP_def pending_ok_def adjustment_ok_def list_all_iff dest: in_set_dropD)

lemma set_markout_csv_inv [inv_intros]: "tracker_inv t \<Longrightarrow> tracker_inv (fst (set_markout_csv m op w path t fs))"
  by (simp add: tracker_inv_def set_markout_csv_def adjustment_ok_def)

lemma tracker_new_inv: "tracker_inv (tracker_new cfg)"
  by (auto simp: tracker_inv_def tracker_new_def Let_def dedup_horizons_apart list_all_iff window_ok_def adjustment_ok_def
      default_adjustment_def clamp_def)

section \<open>Properties\<close>

datatype metrics_step =
    Fill side f64 f64 "f64 option" nat
  | Advance bool "nat \<Rightarrow> write_outcome" nat f64
  | Use_Csv bool bool "nat \<Rightarrow> write_outcome" string

fun metrics_step_fun :: "live_metrics_tracker \<times> files \<Rightarrow> metrics_step \<Rightarrow> live_metrics_tracker \<times> files" where
  "metrics_step_fun (t, fs) (Fill sd price sz mid now) = (record_fill sd price sz mid now t, fs)"
| "metrics_step_fun (t, fs) (Advance op w now mid) = tracker_update op w now mid t fs"
| "metrics_step_fun (t, fs) (Use_Csv m op w path) = set_markout_csv m op w path t fs"

definition metrics_cfg_of :: "live_metrics_tracker \<Rightarrow> f64 list \<times> f64 \<times> f64" where
  "metrics_cfg_of t = (lm_horizons t, lm_max_spread_multiplier t, lm_min_size_multiplier t)"

lemma metrics_step_cfg: "metrics_cfg_of (fst (metrics_step_fun s x)) = metrics_cfg_of (fst s)"
  by (cases s; cases x)
    (auto simp: metrics_cfg_of_def record_fill_def tracker_update_def settle_markouts_def prune_def set_markout_csv_def Let_def
      split: prod.splits)

interpretation metrics: step_system metrics_step_fun "\<lambda>_ _. True" "\<lambda>s. tracker_inv (fst s) \<and> metrics_cfg_of (fst s) = c" for c
proof
  fix s :: "live_metrics_tracker \<times> files" and x
  assume "tracker_inv (fst s) \<and> metrics_cfg_of (fst s) = c"
  then show "tracker_inv (fst (metrics_step_fun s x)) \<and> metrics_cfg_of (fst (metrics_step_fun s x)) = c"
    using metrics_step_cfg[of s x] by (cases s; cases x) (auto intro: inv_intros)
qed

lemma tracker_run:
  fixes cfg fs ss
  defines "t \<equiv> fst (foldl metrics_step_fun (tracker_new cfg, fs) ss)"
  shows "tracker_inv t" "metrics_cfg_of t = metrics_cfg_of (tracker_new cfg)"
  using metrics.run_inv[where s = "(tracker_new cfg, fs)" and es = ss and c = "metrics_cfg_of (tracker_new cfg)"] tracker_new_inv
  by (simp_all add: t_def)

text \<open>
  C27. Whatever fills, prices and times the tracker sees, its adjustment only widens the spread and only
  shrinks the size, within the configured limits; its windows line up with the horizons and stay
  bounded, the horizon it picks exists, and no fill is marked twice at one horizon.
\<close>
theorem adjustment_stays_in_bounds:
  "let t = fst (foldl metrics_step_fun (tracker_new cfg, fs) ss); q = current_adjustment t
   in 1 \<le> qa_spread_multiplier q \<and> qa_spread_multiplier q \<le> max (lq_max_spread_multiplier cfg) 1 \<and>
      clamp (lq_min_size_multiplier cfg) (5 / 100) 1 \<le> qa_size_multiplier q \<and> qa_size_multiplier q \<le> 1 \<and> 0 \<le> qa_adverse_bps q \<and>
      length (lm_markouts t) = length (lm_horizons t) \<and> list_all (\<lambda>w. length w \<le> MARKOUT_CAP) (lm_markouts t) \<and>
      length (lm_pending t) \<le> PENDING_CAP \<and> set_option (nearest_horizon_idx t target) \<subseteq> {..<length (lm_markouts t)} \<and>
      list_all (\<lambda>p. distinct (pf_settled_horizons p)) (lm_pending t)"
proof -
  let ?t = "fst (foldl metrics_step_fun (tracker_new cfg, fs) ss)"
  have "lm_max_spread_multiplier ?t = max (lq_max_spread_multiplier cfg) 1" "lm_min_size_multiplier ?t = clamp (lq_min_size_multiplier cfg) (5 / 100) 1"
    using tracker_run(2)[of cfg fs ss] by (simp_all add: metrics_cfg_of_def tracker_new_def Let_def)
  then show ?thesis
    using tracker_run(1)[of cfg fs ss] nearest_horizon_idx_bound[of ?t target]
    by (auto simp: tracker_inv_def adjustment_ok_def current_adjustment_def Let_def list_all_iff window_ok_def pending_ok_def)
qed

text \<open>
  The nested loops over fills and horizons settle each horizon on its own: its window gains, in the
  order of the fills, one sample for every fill that has reached the horizon and was not marked at it
  before (the oldest samples leaving at the cap), and a fill stays pending exactly until every horizon
  is settled.
\<close>
theorem markouts_settle_per_horizon:
  "let t = fst (foldl metrics_step_fun (tracker_new cfg, fs) ss);
       t' = fst (settle_markouts op w now mid t fs')
   in lm_markouts t' =
        map2 (\<lambda>h win. let new = map (sample_of now mid) (filter (due now h) (lm_pending t))
                      in drop (length win + length new - MARKOUT_CAP) (win @ new)) (lm_horizons t) (lm_markouts t) \<and>
      lm_pending t' =
        filter (\<lambda>p. length (pf_settled_horizons p) < length (lm_horizons t))
          (map (\<lambda>p. p\<lparr>pf_settled_horizons := pf_settled_horizons p @ filter (\<lambda>h. due now h p) (lm_horizons t)\<rparr>) (lm_pending t))"
proof -
  let ?t = "fst (foldl metrics_step_fun (tracker_new cfg, fs) ss)"
  have inv: "tracker_inv ?t" by (rule tracker_run)
  have "map2 (\<lambda>h win. foldl push_window win (map (sample_of now mid) (filter (due now h) (lm_pending ?t)))) (lm_horizons ?t) (lm_markouts ?t) =
        map2 (\<lambda>h win. let new = map (sample_of now mid) (filter (due now h) (lm_pending ?t))
                      in drop (length win + length new - MARKOUT_CAP) (win @ new)) (lm_horizons ?t) (lm_markouts ?t)"
    by (rule map_cong[OF refl])
      (use inv push_window_last in \<open>auto simp: tracker_inv_def list_all_iff window_ok_def Let_def dest!: set_zip_rightD\<close>)
  moreover have "settled_fill now hs = (\<lambda>p. p\<lparr>pf_settled_horizons := pf_settled_horizons p @ filter (\<lambda>h. due now h p) hs\<rparr>)" for hs
    by (simp add: settled_fill_def fun_eq_iff)
  ultimately show ?thesis unfolding Let_def settle_markouts_result[OF inv] by simp
qed

end
