(* ===== verification/Check_Programs.thy ===== *)
theory Check_Programs
  imports Config Native_Signer Text_Format
begin

text \<open>
  The two check programs. \<^verbatim>\<open>src/src/bin/test_obi_parity.rs\<close> drives the quote engine through a fixed scenario
  and prints its signals; \<^verbatim>\<open>src/src/bin/test_sign.rs\<close> signs two fixed transactions with the native library.
  The lemmas show that the first prints a quote (never \<open>NaN\<close>) with the volatility of all sampled changes,
  and that the second releases every string of the library.
\<close>

section \<open>The quote engine\<close>

definition N :: nat where "N = 300"
definition TICK :: f64 where "TICK = 1 / 100"
definition MAX_POS_USD :: f64 where "MAX_POS_USD = 10000"
definition POSITION :: f64 where "POSITION = 1 / 2"

definition mid_at :: "nat \<Rightarrow> f64" where
  "mid_at t = 100 + of_int (int (t mod 21) - 10) * (5 / 100)"

definition build_book :: "nat \<Rightarrow> local_book" where
  "build_book t =
     (let mid = mid_at t
      in apply_snapshot book_new
           [(mid - 1 / 10, 1 + of_nat (t mod 5)), (mid - 2 / 10, 2), (mid - 3 / 10, 3)]
           [(mid + 1 / 10, 1), (mid + 2 / 10, 2 + of_nat (t mod 3)), (mid + 3 / 10, 3)])"

definition parity_config :: vol_obi_config where
  "parity_config =
     \<lparr>cfg_window_steps = 6000, cfg_step_ns = 100000000, cfg_vol_to_half_spread = 60, cfg_min_half_spread_bps = 4,
      cfg_c1_ticks = 40, cfg_c1 = 0, cfg_skew = 1 / 10, cfg_looking_depth = 25 / 1000, cfg_min_warmup_samples = 100\<rparr>"

definition parity_calculator :: "vol_obi_calculator option" where
  "parity_calculator =
     map_option (\<lambda>c0. foldl (\<lambda>c t. let book = build_book t in on_book_update c (int (t + 1) * 100000000) (mid_at t) (bids book) (asks book))
                  c0 [0..<N])
       (calculator_new parity_config TICK MAX_POS_USD)"

text \<open>The lines printed; \<open>None\<close> is the panic of the constructor. A missing quote is printed as \<open>NaN\<close>.\<close>

definition parity_main :: "string list option" where
  "parity_main =
     map_option (\<lambda>c.
       let (bid, ask) = (case quote c (mid_at (N - 1)) POSITION of None \<Rightarrow> (''NaN'', ''NaN'') | Some (b, a) \<Rightarrow> (sci_text 17 b, sci_text 17 a))
       in [''RUST_VOL '' @ sci_text 17 (volatility c), ''RUST_ALPHA '' @ sci_text 17 (alpha c), ''RUST_BID '' @ bid, ''RUST_ASK '' @ ask])
       parity_calculator"

section \<open>The native signer\<close>

definition MARKET_INDEX :: "32 word" where "MARKET_INDEX = 1"
definition CLIENT_ORDER_INDEX :: int where "CLIENT_ORDER_INDEX = 1"
definition BASE_AMOUNT :: int where "BASE_AMOUNT = 1000"
definition PRICE :: "32 word" where "PRICE = 1000000"
definition NONCE :: i64w where "NONCE = 12345"

datatype sign_check_error =
    Key_Not_Set | Account_Index_Parse | Api_Key_Index_Parse | Load_Failed load_error | Sign_Failed string | Leverage_Failed string

definition signers_dir :: "string \<Rightarrow> (string \<Rightarrow> bool) \<Rightarrow> string" where
  "signers_dir manifest_dir exists =
     (let p = manifest_dir @ ''/signers'' in if exists p then p else ''signers'')"

definition tx_lines :: "string \<Rightarrow> native_tx \<Rightarrow> string list" where
  "tx_lines title tx =
     [title, ''tx_type = '' @ nat_text (unat (st_type tx)), ''tx_hash = '' @ st_hash tx, ''tx_info = '' @ st_info tx]"

text \<open>\<open>env\<close> is the environment after the file named by the first argument was read into it.\<close>

definition sign_check_main ::
  "(string \<rightharpoonup> (string \<Rightarrow> bool) \<times> native) \<Rightarrow> string \<Rightarrow> string \<Rightarrow> string \<Rightarrow> (string \<Rightarrow> bool) \<Rightarrow> (string \<rightharpoonup> string) \<Rightarrow> cheap
   \<Rightarrow> (string list \<times> sign_check_error option \<times> cheap) option" where
  "sign_check_main libs os arch manifest_dir exists env h =
     (case env ''API_KEY_PRIVATE_KEY'' of
        None \<Rightarrow> Some ([], Some Key_Not_Set, h)
      | Some api_priv \<Rightarrow>
     (case parse_i64 (trim (env_or env ''ACCOUNT_INDEX'' ''0'')) of
        None \<Rightarrow> Some ([], Some Account_Index_Parse, h)
      | Some account_index \<Rightarrow>
     (case parse_i32 (trim (env_or env ''API_KEY_INDEX'' ''0'')) of
        None \<Rightarrow> Some ([], Some Api_Key_Index_Parse, h)
      | Some api_key_index \<Rightarrow>
          let dir = signers_dir manifest_dir exists; key = word_of_int api_key_index;
              out0 = [''signers_dir = '' @ dir,
                      ''account_index = '' @ int_text account_index @ '', api_key_index = '' @ int_text api_key_index]
          in Option.bind (signer_load libs os arch dir ''https://mainnet.zklighter.elliot.ai'' api_priv key (word_of_int account_index) h) (\<lambda>(ld, h1).
             case ld of
               Inl e \<Rightarrow> Some (out0, Some (Load_Failed e), h1)
             | Inr sg \<Rightarrow>
                 let out1 = out0 @ [''CreateClient OK'']
                 in Option.bind (sign_create_order sg MARKET_INDEX CLIENT_ORDER_INDEX BASE_AMOUNT PRICE False 0 2 False 0 (- 1) NONCE key h1) (\<lambda>(tx, h2).
                    case tx of
                      Inl e \<Rightarrow> Some (out1, Some (Sign_Failed e), h2)
                    | Inr t \<Rightarrow>
                        let out2 = out1 @ tx_lines ''--- RUST SIGNED TX ---'' t
                        in Option.bind (sign_update_leverage sg MARKET_INDEX 5000 0 NONCE key h2) (\<lambda>(lev, h3).
                           case lev of
                             Inl e \<Rightarrow> Some (out2, Some (Leverage_Failed e), h3)
                           | Inr l \<Rightarrow> Some (out2 @ tx_lines ''--- RUST SIGNED UPDATE-LEVERAGE ---'' l, None, h3)))))))"

section \<open>What they show\<close>

definition parity_tick :: "nat \<Rightarrow> book_tick" where
  "parity_tick t = \<lparr>t_now = int (t + 1) * 100000000, t_mid = mid_at t, t_bids = bids (build_book t), t_asks = asks (build_book t)\<rparr>"

lemma parity_ticks_spaced: "successively (\<lambda>a b. 100000000 \<le> t_now b - t_now a) (map parity_tick [0..<n])"
  by (auto simp: successively_map successively_conv_nth parity_tick_def algebra_simps)

lemma parity_feed: "parity_calculator = map_option (\<lambda>c. foldl feed_tick c (map parity_tick [0..<N])) (calculator_new parity_config TICK MAX_POS_USD)"
  by (simp add: parity_calculator_def foldl_map feed_tick_def parity_tick_def Let_def)

text \<open>
  The scenario warms the engine up: every step is sampled, the printed volatility is that of all 299
  mid changes, and the quote exists, on the grid of a cent and around the last mid.
\<close>

theorem parity_prints_a_quote:
  "\<exists>c b a. parity_calculator = Some c \<and> volatility c = std_dev (last_n 6000 (changes (map mid_at [0..<N]))) * sqrt 10 \<and>
     quote c (mid_at (N - 1)) POSITION = Some (b, a) \<and> b < a \<and>
     parity_main = Some [''RUST_VOL '' @ sci_text 17 (volatility c), ''RUST_ALPHA '' @ sci_text 17 (alpha c),
       ''RUST_BID '' @ sci_text 17 b, ''RUST_ASK '' @ sci_text 17 a]"
proof -
  let ?ts = "map parity_tick [0..<N]"
  obtain c0 where c0: "calculator_new parity_config TICK MAX_POS_USD = Some c0" "min_half_spread_bps c0 = 4" "tick_size c0 = TICK"
    by (simp add: calculator_new_def parity_config_def rolling_new_def TICK_def)
  define c where "c = foldl feed_tick c0 ?ts"
  have S: "sampled 100000000 ?ts = ?ts" by (rule sampled_all) (rule parity_ticks_spaced)
  have pos: "\<forall>t \<in> set ?ts. 0 < t_now t" by (auto simp: parity_tick_def)
  have m: "map t_mid ?ts = map mid_at [0..<N]" by (simp add: parity_tick_def)
  from volatility_of_sampled_changes [OF c0(1) pos] S
  have w: "warmed_up c" and v: "volatility c = std_dev (last_n 6000 (changes (map mid_at [0..<N]))) * sqrt 10"
    by (simp_all add: Let_def c_def parity_config_def m [symmetric] del: map_map) (simp_all add: N_def)
  have "tracks c0 c (foldl (take_tick (step_ns c0)) [] ?ts)"
    unfolding c_def by (rule tracks_run) (use calculator_new_tracks [OF c0(1)] pos in simp_all)
  then have "tick_size c = TICK" by (simp add: tracks_def c0(3))
  moreover have "min_half_spread_bps c = 4" by (simp add: c_def feed_keeps_spread c0(2))
  moreover have "0 < mid_at (N - 1)" by (simp add: mid_at_def N_def)
  ultimately obtain b a where q: "quote c (mid_at (N - 1)) POSITION = Some (b, a)" "b < a"
    using quote_of_warm [OF w, of "mid_at (N - 1)" POSITION] by (simp add: TICK_def)
  have pc: "parity_calculator = Some c" by (simp add: parity_feed c0(1) c_def)
  have "parity_main = Some [''RUST_VOL '' @ sci_text 17 (volatility c), ''RUST_ALPHA '' @ sci_text 17 (alpha c),
      ''RUST_BID '' @ sci_text 17 b, ''RUST_ASK '' @ sci_text 17 a]"
    unfolding parity_main_def pc using q(1) by simp
  with q v pc show ?thesis by blast
qed

text \<open>With a library that keeps its contract the signing check ends and leaves no string behind.\<close>

theorem sign_check_frees:
  assumes "native_contract lib"
  shows "\<exists>out e. sign_check_main (\<lambda>_. Some (exports, lib)) os arch manifest_dir exists env h = Some (out, e, h)"
proof -
  have sg: "\<exists>r. call_sign sg req h = Some (r, h)" if "ns_lib sg = lib" for sg req
    using sign_frees [of sg] assms that by (cases "n_sign (ns_lib sg) req (ns_account_index sg) h") auto
  show ?thesis
  proof (cases "env ''API_KEY_PRIVATE_KEY''")
    case (Some k)
    have "\<exists>out e. sign_check_main (\<lambda>_. Some (exports, lib)) os arch manifest_dir exists env h = Some (out, e, h)"
      if "parse_i64 (trim (env_or env ''ACCOUNT_INDEX'' ''0'')) = Some acct" "parse_i32 (trim (env_or env ''API_KEY_INDEX'' ''0'')) = Some i" for acct i
    proof -
      obtain r where r: "signer_load (\<lambda>_. Some (exports, lib)) os arch (signers_dir manifest_dir exists) ''https://mainnet.zklighter.elliot.ai'' k
          (word_of_int i) (word_of_int acct) h = Some (r, h)" "case r of Inl _ \<Rightarrow> True | Inr s \<Rightarrow> ns_lib s = lib"
        using load_frees [OF assms] by blast
      show ?thesis
      proof (cases r)
        case (Inr s)
        then have s: "ns_lib s = lib" using r(2) by simp
        obtain x y where "sign_create_order s MARKET_INDEX CLIENT_ORDER_INDEX BASE_AMOUNT PRICE False 0 2 False 0 (- 1) NONCE (word_of_int i) h = Some (x, h)"
          "sign_update_leverage s MARKET_INDEX 5000 0 NONCE (word_of_int i) h = Some (y, h)"
          using sg [OF s] unfolding sign_create_order_def sign_update_leverage_def by blast
        with r Inr Some that show ?thesis
          by (cases x; cases y) (simp_all add: sign_check_main_def Let_def)
      qed (use r Some that in \<open>simp add: sign_check_main_def Let_def\<close>)
    qed
    then show ?thesis by (cases "parse_i64 (trim (env_or env ''ACCOUNT_INDEX'' ''0''))"; cases "parse_i32 (trim (env_or env ''API_KEY_INDEX'' ''0''))")
        (use Some in \<open>simp_all add: sign_check_main_def\<close>)
  qed (simp add: sign_check_main_def)
qed

end
