(* ===== verification/Spec2Isabelle.thy ===== *)
theory Spec2Isabelle
  imports Program Live_Metrics Check_Programs
begin

text \<open>
  \<^bold>\<open>A verification library for the Lighter market maker\<close> (\<^verbatim>\<open>src/src\<close>, Rust).

  \<^bold>\<open>The program.\<close> One process keeps a ladder of passive quotes on one perpetual market. A \<^emph>\<open>hot
  task\<close> follows the exchange's order book, computes quotes from volatility and order-book imbalance,
  diffs them against the orders it tracks and mails the resulting batch of operations to a \<^emph>\<open>paced
  sender\<close>. The sender waits for its rate and quota gates, signs the batch with consecutive nonces,
  transmits it and reports every operation's fate back to the hot task as order events. \<^emph>\<open>Cold tasks\<close>
  consume the account channels, poll the exchange's list of active orders, pause trading and cancel
  orders when the two views disagree. A Binance feed publishes an imbalance signal, and a PnL actor
  attributes fills. The tasks share atomic cells and channels only.

  \<^bold>\<open>Which theory models which code.\<close>
  \<^item> \<open>Prelude\<close>: collections of facts, list and option lemmas, the locale \<open>step_system\<close> (an invariant kept
    by every admitted step holds after every run), interpreted by each component with a loop.
  \<^item> \<open>Types\<close>: \<^verbatim>\<open>types.rs\<close>. \<open>Util\<close>: \<^verbatim>\<open>util.rs\<close> (tick grid, scaled integers).
  \<^item> \<open>Rolling\<close>: \<^verbatim>\<open>strategy/rolling.rs\<close>, a ring buffer with incremental mean and variance, refined to the
    statistics of the last values. \<open>Local_Book\<close>: \<^verbatim>\<open>book/local_book.rs\<close>, refined to a map from prices to sizes.
    \<open>Vol_Obi\<close>: \<^verbatim>\<open>strategy/vol_obi.rs\<close>. \<open>Quotes\<close>: \<^verbatim>\<open>strategy/quotes.rs\<close>, each pass over the ladder a
    \<open>ladder_pass\<close>.
  \<^item> \<open>Messages\<close>, \<open>Pnl_Events\<close>: \<^verbatim>\<open>lighter/messages.rs\<close> and the PnL channel's messages, as records.
  \<^item> \<open>Order_Manager\<close>: \<^verbatim>\<open>exec/order_manager.rs\<close>, the slots, the id map, diffing, events and reconcile.
  \<^item> \<open>Rate_Limit\<close>: \<^verbatim>\<open>exec/rate_limit.rs\<close>. \<open>Risk\<close>: \<^verbatim>\<open>risk.rs\<close>. \<open>Signing\<close>: \<^verbatim>\<open>lighter/nonce.rs\<close> and
    \<^verbatim>\<open>exec/signing.rs\<close>. \<open>Shared\<close>: \<^verbatim>\<open>shared.rs\<close>.
  \<^item> \<open>Paced_Send\<close>: \<^verbatim>\<open>exec/paced_send.rs\<close> and the cancel-all of \<^verbatim>\<open>orchestrator.rs\<close>.
  \<^item> \<open>Config\<close>: \<^verbatim>\<open>config.rs\<close>, \<^verbatim>\<open>main.rs\<close>. \<open>Instance_Lock\<close>: \<^verbatim>\<open>exec/instance_lock.rs\<close>.
  \<^item> \<open>Hot_Task\<close>, \<open>Cold_Tasks\<close>, \<open>System\<close>: \<^verbatim>\<open>orchestrator.rs\<close>, the quoting loop; the poller, account handlers
    and live start-up; and their composition over the channels.
  \<^item> \<open>Json\<close>: JSON values. \<open>Wire\<close>: the decoders of \<^verbatim>\<open>lighter/messages.rs\<close>. \<open>Rest\<close>: \<^verbatim>\<open>lighter/rest.rs\<close>.
    \<open>Ws_Feed\<close>: \<^verbatim>\<open>lighter/ws.rs\<close>, \<^verbatim>\<open>binance/book_ticker.rs\<close>. \<open>Tx_Ws\<close>: \<^verbatim>\<open>lighter/tx_ws.rs\<close>.
    \<open>Native_Signer\<close>: \<^verbatim>\<open>lighter/signer.rs\<close>, \<^verbatim>\<open>lighter/auth.rs\<close>, over a heap of C strings.
  \<^item> \<open>Depth_Sync\<close>, \<open>Depth_Client\<close>: \<^verbatim>\<open>binance/depth_client.rs\<close>, \<^verbatim>\<open>binance/obi.rs\<close>.
  \<^item> \<open>Fill_Accounting\<close>, \<open>Persistence\<close>, \<open>Pnl_Actor\<close>: \<^verbatim>\<open>account/\<close>. \<open>Json_Files\<close>: the JSON form of the configuration and
    of the restart state.
  \<^item> \<open>Text_Format\<close>: how numbers are printed. \<open>Trade_Log\<close>: \<^verbatim>\<open>metrics/trade_log.rs\<close>. \<open>Live_Metrics\<close>:
    \<^verbatim>\<open>metrics/live_metrics.rs\<close>.
  \<^item> \<open>Live_App\<close>: \<open>App::run\<close> and the feeds of \<^verbatim>\<open>orchestrator.rs\<close>: the tasks of \<open>System\<close> with their calls wired to
    \<open>Native_Signer\<close>, \<open>Rest\<close> and \<open>Tx_Ws\<close> and their inputs decoded from the texts of \<open>Ws_Feed\<close>.
  \<^item> \<open>Program\<close>: \<open>main\<close>, from the command line through start-up and market resolution to a live or a dry run.
  \<^item> \<open>Check_Programs\<close>: the programs under \<^verbatim>\<open>bin/\<close>, which print the quote engine's signals on a fixed scenario and
    sign two fixed transactions.

  A struct is a record whose field names are the source's (prefixed where two structs share one), an
  enum a datatype, a method a function on the record returning the new one, a fallible call a value
  of a sum or option type, a loop a recursion on its list or its attempt count.

  \<^bold>\<open>What the theorems show.\<close>
  \<^item> Orders: no level ever has two creates in flight; the slots stay well formed under any operations;
    a lost order is cleared after the debounce and not before; every id the sender may act on is tracked.
  \<^item> Sending: on a truthful exchange the local nonce equals the exchange's after every wake unless sending
    is stopped; the events and the nonce effect of every send outcome; a send outcome is the verdict of
    the first response after the frame, never of one queued before; a blocked sender signs only
    cancels; the write gate never exceeds the window for a batch within the budget; cancel-all is
    believed only on a flat book.
  \<^item> Quoting: prices are on the grid, never cross, respect the minimum spread and the position limit;
    nothing is quoted live before the gates are open; a nonce gap or a pause stops quoting.
  \<^item> Supervision: what one poll concludes; the dead-man rule parks trading and posts a cancel-all once per
    pause; exactly the unknown orders seen twice are cancelled; a live start reaches the loop only
    locked, flat, with the exchange's nonce installed and its leverage transaction acknowledged; a second
    instance does not start. What a task posts is read off the exchange: \<open>Cold_Tasks.observing\<close> runs it on
    the same exchange with a record of the transactions handed over.
  \<^item> Whole system: from launch, through any interleaving of handlers, no index is out of range (the
    source would panic), and a batch mailed by the hot task comes back as the matching slot states.
  \<^item> Live run: through any texts the feeds deliver a live run on a truthful exchange keeps its decision
    task and ends on a flat book when it says so; the fill queue holds exactly the fills the account
    messages report, with the client id of the bot's own side. An exchange that leaves out the list of orders is taken for a flat book: that error
    case is a theorem of its own. The program as a whole goes live only when the last mode flag of the
    command line is \<open>--live\<close>, on the validated configuration of the named file; a dry run publishes no
    operation.
  \<^item> Feeds and books: messages are delivered in order and a silent connection is dropped; the local
    books equal a replay of the messages; the depth session follows the exchange's book or
    resynchronises, and ends once five snapshots have missed the stream; every JSON text that says an
    account message (any order of members, optional ones left out, unknown ones added) decodes to it.
    The relations \<open>account_all_form\<close> and \<open>account_orders_form\<close> of \<open>Wire\<close> say what such a text is.
  \<^item> Native library: with a library that keeps its contract no string is read after it is freed, freed
    twice or leaked.
  \<^item> Accounting: PnL and cash balance; a fill is booked once within the window of remembered trade ids, a
    snapshot counted once, a restart through the JSON file loses nothing, and dying between any two disk
    operations of a save leaves the old or the new state whole; each flush of the trade log that
    succeeds leaves exactly its rows, in order; a fill is measured once per horizon and the adjustment
    drawn from it stays in its bounds.
  \<^item> Check programs: the parity scenario is sampled at every step and prints a quote, never \<open>NaN\<close>; the
    signing check leaves no string of the library behind.

  \<^bold>\<open>Idealisations.\<close>
  \<^item> \<open>f64\<close> is the type of reals: rounding, infinities and NaN are not modelled. So the volatility scale of a
    configured step that is not positive (infinite or NaN in the source) is not the source's, and a
    number printed as JSON reads back exactly, where the library may be off in the last bit and prints
    NaN as \<open>null\<close>. Casts to integers keep their saturation. Identifiers and nonces are 64-bit words where
    the code computes on them.
  \<^item> An \<open>Instant\<close> is an integer number of nanoseconds; a handler reads the clock once.
  \<^item> A handler runs atomically: tasks interleave between handlers. The sender, the poller and shutdown
    sign under one lock in the source, which makes those sections atomic in the same way; a whole poll is
    one step here, where the source lets other tasks run while it waits for a reply. Wake-ups of the
    poller are counted, where the source's \<open>Notify\<close> merges those it has not served.
  \<^item> A depth session resets its book and alpha when it decides to resynchronise, the source after the
    pause that follows; a depth snapshot is taken to reach the whole book.
  \<^item> The instance lock is the unix one; nothing releases it before the process ends. A restart file that
    cannot be read is the same as a missing one, as in the source.
  \<^item> Iteration over a \<open>HashMap\<close> is the order of an association list; strings are ASCII.
  \<^item> Code outside the repository is a parameter: the native signing library (record \<open>native\<close>), the HTTP
    library, what the sockets yield, the syntax of JSON (text to value and back), the CSV library, the
    lock file system, the decimal parser \<open>fp\<close>, the clock. \<open>Paced_Send\<close>, \<open>Cold_Tasks\<close> and \<open>System\<close> reach them
    through the record \<open>api\<close> with the state \<open>'w\<close> of the world; \<open>Live_App.live_api\<close> builds that record from
    the modelled clients. Properties about such code state what they assume of it.
  \<^item> Bounds are the source's: five cancel-all attempts, three nonce refreshes in a row, five depth
    resynchronisations, the capacities of the windows, queues and id sets. No fuel is added.

  \<^bold>\<open>Not modelled.\<close> \<^verbatim>\<open>logging.rs\<close>, the panic hook, the pinning of threads, the start-up log line and the
  periodic health line write logs or configure the process and change no modelled state. Waiting for
  the shutdown signal is the end of the list of steps of a run. TLS, sockets, timers, the native
  signing library, HTTP and the JSON and CSV syntaxes belong to libraries and are parameters.
\<close>

end
